(* ===== verification/Prelude.thy ===== *)
theory Prelude
  imports Main "HOL-Library.Word"
begin

text \<open>
  What every component shares: the names of the machine types, the ways a call of the program can
  fail to return (an exception, the end of the process, undefined behaviour), the two sequencing
  combinators for calls that may fail, and the generic facts on lists and sums that the component
  theories use through the collections \<open>result_simps\<close>, \<open>byte_simps\<close> and \<open>wire_simps\<close>.
\<close>

unbundle bit_operations_syntax

section \<open>Machine types\<close>

type_synonym byte = "8 word"
type_synonym u8 = "8 word"
type_synonym u16 = "16 word"
type_synonym u32 = "32 word"
type_synonym u64 = "64 word"

text \<open>A socket descriptor and the other values of C type int.\<close>

type_synonym socket_fd = int

named_theorems result_simps \<open>unfolding of the sequencing combinators\<close>
named_theorems byte_simps \<open>byte views of machine words and of buffers\<close>
named_theorems wire_simps \<open>layout of the packed structures\<close>

section \<open>How a call can fail\<close>

text \<open>
  \<open>exn\<close> holds the exceptions the code throws or lets through: the three classes under
  src/db/exceptions, the two standard ones raised by string conversions, substr and map::at, and
  the logic error of the JSON library. A \<open>fault\<close> is everything but a normal return: an
  exception that leaves the function, a call of exit, or an access that C++ leaves undefined:
  outside an object, to a value never set, or to an object already deleted.
\<close>

datatype exn =
    Failure string
  | Endpoint_not_found string
  | Query_ambiguous string
  | Invalid_argument
  | Out_of_range
  | Json_logic_error
  | Runtime_error string
  | Bad_alloc
  | Length_error

datatype ub =
    Out_of_bounds_read
  | Out_of_bounds_write
  | Indeterminate_read
  | Use_after_free

datatype fault =
    Throw exn
  | Exit_process int
  | Undefined ub

type_synonym 'a result = "fault + 'a"

definition bind_result :: "'a result \<Rightarrow> ('a \<Rightarrow> 'b result) \<Rightarrow> 'b result" where
  "bind_result m k = (case m of Inl f \<Rightarrow> Inl f | Inr x \<Rightarrow> k x)"

lemma bind_result_Inl [simp, result_simps]: "bind_result (Inl f) k = Inl f"
  by (simp add: bind_result_def)

lemma bind_result_Inr [simp, result_simps]: "bind_result (Inr x) k = k x"
  by (simp add: bind_result_def)

lemma bind_result_cong [fundef_cong]:
  "m = m' \<Longrightarrow> (\<And>x. m' = Inr x \<Longrightarrow> k x = k' x) \<Longrightarrow> bind_result m k = bind_result m' k'"
  by (auto simp: bind_result_def split: sum.splits)

lemma bind_result_eq_Inr:
  "bind_result m k = Inr y \<longleftrightarrow> (\<exists>x. m = Inr x \<and> k x = Inr y)"
  by (cases m) auto

lemma bind_result_eq_Inl:
  "bind_result m k = Inl f \<longleftrightarrow> m = Inl f \<or> (\<exists>x. m = Inr x \<and> k x = Inl f)"
  by (cases m) auto

section \<open>Calls with an effect on a state\<close>

text \<open>
  An operation that reads and changes a state takes it as its last argument and returns it beside
  its result, so what was done before a fault is kept: an exception does not undo it.
\<close>

type_synonym ('s, 'a) action = "'s \<Rightarrow> 'a result \<times> 's"

definition return_action :: "'a \<Rightarrow> ('s, 'a) action" where
  "return_action x s = (Inr x, s)"

definition fail_action :: "fault \<Rightarrow> ('s, 'a) action" where
  "fail_action f s = (Inl f, s)"

definition bind_action :: "('s, 'a) action \<Rightarrow> ('a \<Rightarrow> ('s, 'b) action) \<Rightarrow> ('s, 'b) action" where
  "bind_action m k s = (case m s of (Inl f, t) \<Rightarrow> (Inl f, t) | (Inr x, t) \<Rightarrow> k x t)"

definition lift_result :: "'a result \<Rightarrow> ('s, 'a) action" where
  "lift_result r s = (r, s)"

lemma return_action_apply [simp, result_simps]: "return_action x s = (Inr x, s)"
  by (simp add: return_action_def)

lemma fail_action_apply [simp, result_simps]: "fail_action f s = (Inl f, s)"
  by (simp add: fail_action_def)

lemma lift_result_apply [simp, result_simps]: "lift_result r s = (r, s)"
  by (simp add: lift_result_def)

lemma bind_action_Inl [result_simps]:
  "m s = (Inl f, t) \<Longrightarrow> bind_action m k s = (Inl f, t)"
  by (simp add: bind_action_def)

lemma bind_action_Inr [result_simps]:
  "m s = (Inr x, t) \<Longrightarrow> bind_action m k s = k x t"
  by (simp add: bind_action_def)

lemma bind_lift_result [simp]:
  "bind_action (lift_result r) k s = (case r of Inl f \<Rightarrow> (Inl f, s) | Inr x \<Rightarrow> k x s)"
  by (simp add: bind_action_def split: sum.splits)

text \<open>Sequencing is associative, and returning does nothing.\<close>

lemma bind_action_assoc:
  "bind_action (bind_action m k) l = bind_action m (\<lambda>x. bind_action (k x) l)"
  by (auto simp: fun_eq_iff bind_action_def split: prod.split sum.split)

lemma bind_return: "bind_action (return_action x) k = k x"
  by (simp add: fun_eq_iff bind_action_def)

lemma bind_return_right: "bind_action m return_action = m"
  by (auto simp: fun_eq_iff bind_action_def split: prod.split sum.split)

lemma bind_fail: "bind_action (fail_action f) k = fail_action f"
  by (simp add: fun_eq_iff bind_action_def)

lemmas action_laws = bind_action_assoc bind_return bind_return_right bind_fail

text \<open>What an action keeps: \<open>P\<close> of the state before gives \<open>P\<close> of the state after.\<close>

definition keeps :: "('s \<Rightarrow> bool) \<Rightarrow> ('s, 'a) action \<Rightarrow> bool" where
  "keeps P m \<longleftrightarrow> (\<forall>s. P s \<longrightarrow> P (snd (m s)))"

lemma keeps_return [intro, simp]: "keeps P (return_action x)"
  by (simp add: keeps_def)

lemma keeps_fail [intro, simp]: "keeps P (fail_action f)"
  by (simp add: keeps_def)

lemma keeps_lift [intro, simp]: "keeps P (lift_result r)"
  by (simp add: keeps_def)

lemma keeps_bind [intro]:
  assumes "keeps P m" and "\<And>x. keeps P (k x)"
  shows "keeps P (bind_action m k)"
proof (unfold keeps_def, intro allI impI)
  fix s assume "P s"
  with assms(1) have t: "P (snd (m s))" by (simp add: keeps_def)
  then show "P (snd (bind_action m k s))"
    using assms(2) by (auto simp: bind_action_def keeps_def split: prod.splits sum.splits)
qed

lemma keepsD: "keeps P m \<Longrightarrow> P s \<Longrightarrow> P (snd (m s))"
  by (simp add: keeps_def)

text \<open>The same with a property of the value.\<close>

definition keeps_value :: "('s \<Rightarrow> bool) \<Rightarrow> ('s, 'a) action \<Rightarrow> ('a \<Rightarrow> bool) \<Rightarrow> bool" where
  "keeps_value P m Q \<longleftrightarrow> (\<forall>s. P s \<longrightarrow> P (snd (m s)) \<and> (\<forall>x. fst (m s) = Inr x \<longrightarrow> Q x))"

lemma keeps_valueD:
  "keeps_value P m Q \<Longrightarrow> P s \<Longrightarrow> P (snd (m s))"
  "keeps_value P m Q \<Longrightarrow> P s \<Longrightarrow> m s = (Inr x, t) \<Longrightarrow> Q x \<and> P t"
  by (fastforce simp: keeps_value_def)+

lemma keeps_value_bind:
  assumes "keeps_value P m Q" and "\<And>x. Q x \<Longrightarrow> keeps_value P (k x) R"
  shows "keeps_value P (bind_action m k) R"
proof (unfold keeps_value_def, intro allI impI)
  fix s assume "P s"
  show "P (snd (bind_action m k s)) \<and> (\<forall>y. fst (bind_action m k s) = Inr y \<longrightarrow> R y)"
  proof (cases "fst (m s)")
    case (Inl f)
    then show ?thesis
      using assms(1) \<open>P s\<close> by (cases "m s") (auto simp: bind_action_def keeps_value_def)
  next
    case (Inr x)
    then have "Q x" "P (snd (m s))" using assms(1) \<open>P s\<close> by (auto simp: keeps_value_def)
    then show ?thesis
      using assms(2) [of x] Inr by (cases "m s") (auto simp: bind_action_def keeps_value_def)
  qed
qed

lemma keeps_value_return: "Q x \<Longrightarrow> keeps_value P (return_action x) Q"
  by (simp add: keeps_value_def)

lemma keeps_value_fail: "keeps_value P (fail_action f) Q"
  by (simp add: keeps_value_def)

lemma keeps_value_lift: "(\<And>x. r = Inr x \<Longrightarrow> Q x) \<Longrightarrow> keeps_value P (lift_result r) Q"
  by (simp add: keeps_value_def)

lemma keeps_value_if:
  "(b \<Longrightarrow> keeps_value P m Q) \<Longrightarrow> (\<not> b \<Longrightarrow> keeps_value P n Q) \<Longrightarrow> keeps_value P (if b then m else n) Q"
  by simp

lemma keeps_value_weaken: "keeps_value P m Q \<Longrightarrow> (\<And>x. Q x \<Longrightarrow> R x) \<Longrightarrow> keeps_value P m R"
  by (auto simp: keeps_value_def)

lemmas keeps_value_rules = keeps_value_return keeps_value_fail keeps_value_if

section \<open>Lists\<close>

lemma takeWhile_append_stop:
  "(\<forall>x \<in> set xs. P x) \<Longrightarrow> (ys = [] \<or> \<not> P (hd ys)) \<Longrightarrow> takeWhile P (xs @ ys) = xs"
  by (cases ys) auto

lemma dropWhile_append_stop:
  "(\<forall>x \<in> set xs. P x) \<Longrightarrow> (ys = [] \<or> \<not> P (hd ys)) \<Longrightarrow> dropWhile P (xs @ ys) = ys"
  by (cases ys) auto

lemma dropWhile_nonzero: "x \<notin> set xs \<Longrightarrow> dropWhile (\<lambda>y. y \<noteq> x) xs = []"
  by (induction xs) auto

lemma replicate_length_eq: "replicate (length xs) x = xs \<longleftrightarrow> (\<forall>y \<in> set xs. y = x)"
  by (induction xs) auto

lemma length_eq_list4:
  "length xs = 4 \<longleftrightarrow> (\<exists>a b c d. xs = [a, b, c, d])"
  by (auto simp: numeral_eq_Suc length_Suc_conv)

lemma update_set_member: "x \<in> set (xs[i := y]) \<Longrightarrow> x = y \<or> x \<in> set xs"
  using set_update_subset_insert [of xs i y] by auto

end
