(* ===== verification/Db_Types.thy ===== *)
theory Db_Types
  imports Prelude "HOL-Library.Char_ord" "HOL-Library.List_Lexorder"
begin

text \<open>
  The two enumerations of src/src/db/dbquery.h that the other components name, with the order of
  their values, and the order of strings: std::string compares byte by byte and puts a proper
  prefix first, which is the lexicographic order of the library over the codes of characters.
\<close>

datatype endpoint_type = INGRESS_T | EGRESS_T

datatype protocol_type = TCP | UDP

instantiation protocol_type :: linorder
begin

fun protocol_rank :: "protocol_type \<Rightarrow> nat" where
  "protocol_rank TCP = 0"
| "protocol_rank UDP = 1"

definition less_protocol_type :: "protocol_type \<Rightarrow> protocol_type \<Rightarrow> bool" where
  "less_protocol_type a b \<longleftrightarrow> protocol_rank a < protocol_rank b"

definition less_eq_protocol_type :: "protocol_type \<Rightarrow> protocol_type \<Rightarrow> bool" where
  "less_eq_protocol_type a b \<longleftrightarrow> protocol_rank a \<le> protocol_rank b"

instance
proof
  fix a b :: protocol_type
  show "a \<le> b \<Longrightarrow> b \<le> a \<Longrightarrow> a = b"
    by (cases a; cases b) (simp_all add: less_eq_protocol_type_def)
qed (auto simp: less_protocol_type_def less_eq_protocol_type_def)

end

lemma protocol_less_simps [simp]:
  "TCP < UDP" "\<not> UDP < TCP"
  by (simp_all add: less_protocol_type_def)

end
