(* ===== verification/Memory.thy ===== *)
theory Memory
  imports Prelude
begin

text \<open>
  Buffers as lists of bytes, with the C library routines the code moves them with. A buffer is the
  list of the bytes that are allocated from a pointer on, so an access past its end is visible and
  becomes \<open>Undefined\<close>. Integers wider than a byte are stored the way the target
  stores them, least significant byte first, which htons and htonl reverse.
\<close>

unbundle bit_operations_syntax

section \<open>Little-endian integers\<close>

definition le16 :: "u16 \<Rightarrow> byte list" where
  "le16 w = [ucast w, ucast (drop_bit 8 w)]"

definition of_le16 :: "byte \<Rightarrow> byte \<Rightarrow> u16" where
  "of_le16 a b = ucast a OR push_bit 8 (ucast b)"

definition le32 :: "u32 \<Rightarrow> byte list" where
  "le32 w = [ucast w, ucast (drop_bit 8 w), ucast (drop_bit 16 w), ucast (drop_bit 24 w)]"

definition of_le32 :: "byte \<Rightarrow> byte \<Rightarrow> byte \<Rightarrow> byte \<Rightarrow> u32" where
  "of_le32 a b c d =
     ucast a OR push_bit 8 (ucast b) OR push_bit 16 (ucast c) OR push_bit 24 (ucast d)"

lemma length_le16 [simp, byte_simps]: "length (le16 w) = 2"
  by (simp add: le16_def)

lemma length_le32 [simp, byte_simps]: "length (le32 w) = 4"
  by (simp add: le32_def)

lemma bit_byteD: "bit b n \<Longrightarrow> n < 8" for b :: byte
  using bit_imp_le_length [of b n] by simp

lemma bit_byte_out [simp]: "8 \<le> n \<Longrightarrow> \<not> bit b n" for b :: byte
  using bit_byteD [of b n] by auto

lemma unat_byte_less: "unat b < 256" for b :: byte
proof -
  have "unat b < 2 ^ LENGTH(8)" by (rule unsigned_less)
  then show ?thesis by simp
qed

lemma unat_ucast_byte: "unat (ucast b :: u16) = unat b" for b :: byte
  using unat_byte_less [of b] by (simp add: unsigned_ucast_eq take_bit_nat_eq_self_iff)

lemma unat_u16_less: "unat w < 65536" for w :: u16
proof -
  have "unat w < 2 ^ LENGTH(16)" by (rule unsigned_less)
  then show ?thesis by simp
qed

lemma of_le16_le16 [simp, byte_simps]: "of_le16 (ucast w) (ucast (drop_bit 8 w)) = w"
  by (rule bit_word_eqI) (auto simp: of_le16_def bit_simps)

lemma le16_of_le16 [simp, byte_simps]: "le16 (of_le16 a b) = [a, b]"
  by (auto simp: le16_def of_le16_def bit_simps intro!: bit_word_eqI dest: bit_byteD)

lemma of_le32_le32 [simp, byte_simps]:
  "of_le32 (ucast w) (ucast (drop_bit 8 w)) (ucast (drop_bit 16 w)) (ucast (drop_bit 24 w)) = w"
proof (rule bit_word_eqI)
  fix n assume "n < LENGTH(32)"
  then consider "n < 8" | "8 \<le> n" "n < 16" | "16 \<le> n" "n < 24" | "24 \<le> n" "n < 32"
    by fastforce
  then show "bit (of_le32 (ucast w) (ucast (drop_bit 8 w)) (ucast (drop_bit 16 w))
      (ucast (drop_bit 24 w))) n = bit w n"
    by cases (auto simp: of_le32_def bit_simps)
qed

lemma le32_of_le32 [simp, byte_simps]: "le32 (of_le32 a b c d) = [a, b, c, d]"
  by (auto simp: le32_def of_le32_def bit_simps intro!: bit_word_eqI dest: bit_byteD)

lemma le16_eq_iff [simp]: "le16 v = le16 w \<longleftrightarrow> v = w"
  by (metis le16_def list.inject of_le16_le16)

lemma unat_of_le16: "unat (of_le16 a b) = unat a + 256 * unat b"
proof -
  have disj: "ucast a AND push_bit 8 (ucast b :: u16) = 0"
    by (rule bit_word_eqI) (auto simp: bit_simps dest: bit_byteD)
  have "of_le16 a b = ucast a + push_bit 8 (ucast b)"
    by (simp add: of_le16_def disjunctive_add_eq_or [OF disj])
  moreover have "unat a < 256" "unat b < 256"
    by (rule unat_byte_less)+
  ultimately show ?thesis
    by (simp add: unat_word_ariths push_bit_eq_mult unat_ucast_byte)
qed

section \<open>Byte order\<close>

definition htons :: "u16 \<Rightarrow> u16" where
  "htons w = push_bit 8 w OR drop_bit 8 w"

definition htonl :: "u32 \<Rightarrow> u32" where
  "htonl w = push_bit 24 w OR push_bit 8 (w AND 0xFF00)
     OR drop_bit 8 (w AND 0xFF0000) OR drop_bit 24 w"

lemma htons_of_le16 [byte_simps]: "htons (of_le16 a b) = of_le16 b a"
  by (rule bit_word_eqI) (auto simp: htons_def of_le16_def bit_simps dest: bit_byteD)

lemma htons_htons [simp]: "htons (htons w) = w"
  by (rule bit_word_eqI) (auto simp: htons_def bit_simps)

lemma htons_eq_iff [simp]: "htons v = htons w \<longleftrightarrow> v = w"
  by (metis htons_htons)

section \<open>Reading and copying\<close>

definition read_bytes :: "byte list \<Rightarrow> nat \<Rightarrow> nat \<Rightarrow> byte list result" where
  "read_bytes buf off n =
     (if off + n \<le> length buf then Inr (take n (drop off buf)) else Inl (Undefined Out_of_bounds_read))"

definition write_bytes :: "byte list \<Rightarrow> nat \<Rightarrow> byte list \<Rightarrow> byte list result" where
  "write_bytes buf off bs =
     (if off + length bs \<le> length buf
      then Inr (take off buf @ bs @ drop (off + length bs) buf)
      else Inl (Undefined Out_of_bounds_write))"

definition memcpy :: "byte list \<Rightarrow> nat \<Rightarrow> byte list \<Rightarrow> nat \<Rightarrow> nat \<Rightarrow> byte list result" where
  "memcpy dst doff src soff n = bind_result (read_bytes src soff n) (write_bytes dst doff)"

definition memset_zero :: "byte list \<Rightarrow> nat \<Rightarrow> byte list result" where
  "memset_zero buf n = write_bytes buf 0 (replicate n 0)"

text \<open>
  strncpy reads up to the first zero byte or \<open>n\<close> bytes, whichever comes first, and writes
  exactly \<open>n\<close> bytes: what it read, filled up with zeros.
\<close>

definition strncpy_bytes :: "byte list \<Rightarrow> nat \<Rightarrow> byte list" where
  "strncpy_bytes src n =
     (let s = takeWhile (\<lambda>b. b \<noteq> 0) (take n src) in s @ replicate (n - length s) 0)"

definition strncpy :: "byte list \<Rightarrow> nat \<Rightarrow> byte list \<Rightarrow> nat \<Rightarrow> nat \<Rightarrow> byte list result" where
  "strncpy dst doff src soff n =
     (let s = drop soff src in
      if soff \<le> length src \<and> (n \<le> length s \<or> 0 \<in> set s)
      then write_bytes dst doff (strncpy_bytes s n)
      else Inl (Undefined Out_of_bounds_read))"

lemma read_bytes_Inr_iff:
  "read_bytes buf off n = Inr bs \<longleftrightarrow> off + n \<le> length buf \<and> bs = take n (drop off buf)"
  by (auto simp: read_bytes_def)

lemma length_read_bytes: "read_bytes buf off n = Inr bs \<Longrightarrow> length bs = n"
  by (auto simp: read_bytes_Inr_iff)

lemma length_write_bytes: "write_bytes buf off bs = Inr buf' \<Longrightarrow> length buf' = length buf"
  by (auto simp: write_bytes_def split: if_splits)

lemma memcpy_Inr_iff:
  "memcpy dst doff src soff n = Inr out \<longleftrightarrow>
     soff + n \<le> length src \<and> doff + n \<le> length dst \<and>
     out = take doff dst @ take n (drop soff src) @ drop (doff + n) dst"
  by (auto simp: memcpy_def bind_result_eq_Inr read_bytes_Inr_iff write_bytes_def)

lemma length_strncpy_bytes [simp]: "length (strncpy_bytes src n) = n"
proof -
  have "length (takeWhile (\<lambda>b. b \<noteq> 0) (take n src)) \<le> n"
    by (rule order_trans [OF length_takeWhile_le]) simp
  then show ?thesis by (simp add: strncpy_bytes_def Let_def)
qed

lemma strncpy_bytes_take: "strncpy_bytes (take n src) n = strncpy_bytes src n"
  by (simp add: strncpy_bytes_def)

text \<open>
  strncpy is a faithful copy exactly when what follows the first zero byte is zero as well.
\<close>

lemma strncpy_bytes_eq_iff:
  assumes "length src = n"
  shows "strncpy_bytes src n = src \<longleftrightarrow> (\<forall>b \<in> set (dropWhile (\<lambda>b. b \<noteq> 0) src). b = 0)"
proof -
  let ?t = "takeWhile (\<lambda>b. b \<noteq> 0) src" and ?d = "dropWhile (\<lambda>b. b \<noteq> 0) src"
  have len: "n - length ?t = length ?d"
    using assms by (metis add_diff_cancel_left' length_append takeWhile_dropWhile_id)
  have "strncpy_bytes src n = ?t @ replicate (length ?d) 0"
    using assms len by (simp add: strncpy_bytes_def Let_def)
  moreover have "src = ?t @ ?d" by simp
  ultimately have "strncpy_bytes src n = src \<longleftrightarrow> replicate (length ?d) 0 = ?d"
    by (metis same_append_eq)
  also have "\<dots> \<longleftrightarrow> (\<forall>b \<in> set ?d. b = 0)"
    by (rule replicate_length_eq)
  finally show ?thesis .
qed

lemma strncpy_bytes_no_zero:
  "length src = n \<Longrightarrow> 0 \<notin> set src \<Longrightarrow> strncpy_bytes src n = src"
  by (simp add: strncpy_bytes_eq_iff dropWhile_nonzero)

text \<open>An element past \<open>k\<close> of a write at \<open>0\<close>, and the buffers the header code builds.\<close>

lemma take_write_front: "length xs = k \<Longrightarrow> take k (xs @ ys) = xs"
  by simp

lemma drop_write_front: "length xs = k \<Longrightarrow> drop k (xs @ ys) = ys"
  by simp

end
