(* ===== verification/Packet_Headers.thy ===== *)
theory Packet_Headers
  imports Memory
begin

text \<open>
  The header structures of linux/ip.h, linux/udp.h and linux/tcp.h that
  src/src/utils/packetutils.cpp reads and writes through pointers, with their layout on the
  little-endian target: bit-fields fill a byte from its low end, 16-bit and 32-bit members are
  stored as they lie in memory, so a member that holds a network-order number reads byte-swapped.
  Each structure comes with both directions of its layout and the proof that they are inverse.
\<close>

unbundle bit_operations_syntax

section \<open>Nibbles\<close>

definition nibbles :: "4 word \<Rightarrow> 4 word \<Rightarrow> byte" where
  "nibbles lo hi = ucast lo OR push_bit 4 (ucast hi)"

definition low_nibble :: "byte \<Rightarrow> 4 word" where
  "low_nibble b = ucast b"

definition high_nibble :: "byte \<Rightarrow> 4 word" where
  "high_nibble b = ucast (drop_bit 4 b)"

lemma bit_nibble_out [simp]: "4 \<le> n \<Longrightarrow> \<not> bit b n" for b :: "4 word"
  using bit_imp_le_length [of b n] by auto

lemma low_nibble_nibbles [simp, wire_simps]: "low_nibble (nibbles lo hi) = lo"
  by (rule bit_word_eqI) (auto simp: low_nibble_def nibbles_def bit_simps)

lemma high_nibble_nibbles [simp, wire_simps]: "high_nibble (nibbles lo hi) = hi"
  by (rule bit_word_eqI) (auto simp: high_nibble_def nibbles_def bit_simps)

lemma nibbles_of_byte [simp, wire_simps]: "nibbles (low_nibble b) (high_nibble b) = b"
proof (rule bit_word_eqI)
  fix n assume "n < LENGTH(8)"
  then consider "n < 4" | "4 \<le> n" "n < 8" by fastforce
  then show "bit (nibbles (low_nibble b) (high_nibble b)) n = bit b n"
    by cases (auto simp: low_nibble_def high_nibble_def nibbles_def bit_simps)
qed

lemma unat_nibble_less: "unat w < 16" for w :: "4 word"
proof -
  have "unat w < 2 ^ LENGTH(4)" by (rule unsigned_less)
  then show ?thesis by simp
qed

section \<open>struct iphdr\<close>

record iphdr =
  ip_ihl :: "4 word"
  ip_version :: "4 word"
  ip_tos :: u8
  ip_tot_len :: u16
  ip_id :: u16
  ip_frag_off :: u16
  ip_ttl :: u8
  ip_protocol :: u8
  ip_check :: u16
  ip_saddr :: u32
  ip_daddr :: u32

definition iphdr_bytes :: "iphdr \<Rightarrow> byte list" where
  "iphdr_bytes h =
     [nibbles (ip_ihl h) (ip_version h), ip_tos h] @ le16 (ip_tot_len h) @ le16 (ip_id h) @
     le16 (ip_frag_off h) @ [ip_ttl h, ip_protocol h] @ le16 (ip_check h) @
     le32 (ip_saddr h) @ le32 (ip_daddr h)"

definition iphdr_of_bytes :: "byte list \<Rightarrow> iphdr" where
  "iphdr_of_bytes b =
     \<lparr>ip_ihl = low_nibble (b ! 0), ip_version = high_nibble (b ! 0), ip_tos = b ! 1,
      ip_tot_len = of_le16 (b ! 2) (b ! 3), ip_id = of_le16 (b ! 4) (b ! 5),
      ip_frag_off = of_le16 (b ! 6) (b ! 7), ip_ttl = b ! 8, ip_protocol = b ! 9,
      ip_check = of_le16 (b ! 10) (b ! 11),
      ip_saddr = of_le32 (b ! 12) (b ! 13) (b ! 14) (b ! 15),
      ip_daddr = of_le32 (b ! 16) (b ! 17) (b ! 18) (b ! 19)\<rparr>"

lemma length_iphdr_bytes [simp, wire_simps]: "length (iphdr_bytes h) = 20"
  by (simp add: iphdr_bytes_def)

lemma iphdr_of_bytes_bytes [simp, wire_simps]: "iphdr_of_bytes (iphdr_bytes h @ rest) = h"
  by (simp add: iphdr_of_bytes_def iphdr_bytes_def le16_def le32_def)

lemma iphdr_bytes_nth:
  "iphdr_bytes (iphdr_of_bytes b) = map ((!) b) [0..<20]"
  by (simp add: iphdr_of_bytes_def iphdr_bytes_def upt_rec eval_nat_numeral)

lemma map_nth_take: "n \<le> length xs \<Longrightarrow> map ((!) xs) [0..<n] = take n xs"
  by (rule nth_equalityI) auto

lemma iphdr_bytes_of_bytes:
  "20 \<le> length b \<Longrightarrow> iphdr_bytes (iphdr_of_bytes b) = take 20 b"
  by (simp only: iphdr_bytes_nth map_nth_take)

section \<open>struct udphdr\<close>

record udphdr =
  udp_source :: u16
  udp_dest :: u16
  udp_len :: u16
  udp_check :: u16

definition udphdr_bytes :: "udphdr \<Rightarrow> byte list" where
  "udphdr_bytes h =
     le16 (udp_source h) @ le16 (udp_dest h) @ le16 (udp_len h) @ le16 (udp_check h)"

definition udphdr_of_bytes :: "byte list \<Rightarrow> udphdr" where
  "udphdr_of_bytes b =
     \<lparr>udp_source = of_le16 (b ! 0) (b ! 1), udp_dest = of_le16 (b ! 2) (b ! 3),
      udp_len = of_le16 (b ! 4) (b ! 5), udp_check = of_le16 (b ! 6) (b ! 7)\<rparr>"

lemma length_udphdr_bytes [simp, wire_simps]: "length (udphdr_bytes h) = 8"
  by (simp add: udphdr_bytes_def)

lemma udphdr_of_bytes_bytes [simp, wire_simps]: "udphdr_of_bytes (udphdr_bytes h @ rest) = h"
  by (simp add: udphdr_of_bytes_def udphdr_bytes_def le16_def)

lemma udphdr_bytes_of_bytes:
  assumes "8 \<le> length b"
  shows "udphdr_bytes (udphdr_of_bytes b) = take 8 b"
proof -
  have "udphdr_bytes (udphdr_of_bytes b) = map ((!) b) [0..<8]"
    by (simp add: udphdr_of_bytes_def udphdr_bytes_def upt_rec eval_nat_numeral)
  with assms show ?thesis by (simp only: map_nth_take)
qed

section \<open>struct tcphdr\<close>

record tcphdr =
  tcp_source :: u16
  tcp_dest :: u16
  tcp_seq :: u32
  tcp_ack_seq :: u32
  tcp_res1 :: "4 word"
  tcp_doff :: "4 word"
  tcp_flags :: u8
  tcp_window :: u16
  tcp_check :: u16
  tcp_urg_ptr :: u16

definition tcphdr_bytes :: "tcphdr \<Rightarrow> byte list" where
  "tcphdr_bytes h =
     le16 (tcp_source h) @ le16 (tcp_dest h) @ le32 (tcp_seq h) @ le32 (tcp_ack_seq h) @
     [nibbles (tcp_res1 h) (tcp_doff h), tcp_flags h] @ le16 (tcp_window h) @
     le16 (tcp_check h) @ le16 (tcp_urg_ptr h)"

definition tcphdr_of_bytes :: "byte list \<Rightarrow> tcphdr" where
  "tcphdr_of_bytes b =
     \<lparr>tcp_source = of_le16 (b ! 0) (b ! 1), tcp_dest = of_le16 (b ! 2) (b ! 3),
      tcp_seq = of_le32 (b ! 4) (b ! 5) (b ! 6) (b ! 7),
      tcp_ack_seq = of_le32 (b ! 8) (b ! 9) (b ! 10) (b ! 11),
      tcp_res1 = low_nibble (b ! 12), tcp_doff = high_nibble (b ! 12), tcp_flags = b ! 13,
      tcp_window = of_le16 (b ! 14) (b ! 15), tcp_check = of_le16 (b ! 16) (b ! 17),
      tcp_urg_ptr = of_le16 (b ! 18) (b ! 19)\<rparr>"

lemma length_tcphdr_bytes [simp, wire_simps]: "length (tcphdr_bytes h) = 20"
  by (simp add: tcphdr_bytes_def)

lemma tcphdr_of_bytes_bytes [simp, wire_simps]: "tcphdr_of_bytes (tcphdr_bytes h @ rest) = h"
  by (simp add: tcphdr_of_bytes_def tcphdr_bytes_def le16_def le32_def)

lemma tcphdr_bytes_of_bytes:
  assumes "20 \<le> length b"
  shows "tcphdr_bytes (tcphdr_of_bytes b) = take 20 b"
proof -
  have "tcphdr_bytes (tcphdr_of_bytes b) = map ((!) b) [0..<20]"
    by (simp add: tcphdr_of_bytes_def tcphdr_bytes_def upt_rec eval_nat_numeral)
  with assms show ?thesis by (simp only: map_nth_take)
qed

section \<open>A layout as an interface\<close>

text \<open>
  What the code that casts a pointer to a structure, or copies one out of a buffer, relies on: a
  structure occupies a fixed number of bytes, and reading it back from them gives it again.
\<close>

locale layout =
  fixes size_of :: nat
    and to_bytes :: "'a \<Rightarrow> byte list"
    and of_bytes :: "byte list \<Rightarrow> 'a"
  assumes length_to_bytes: "length (to_bytes x) = size_of"
    and of_bytes_to_bytes: "of_bytes (to_bytes x @ rest) = x"
    and to_bytes_of_bytes: "size_of \<le> length b \<Longrightarrow> to_bytes (of_bytes b) = take size_of b"
begin

lemma to_bytes_inj: "to_bytes x = to_bytes y \<longleftrightarrow> x = y"
  by (metis append_Nil2 of_bytes_to_bytes)

lemma load_stored:
  assumes "write_bytes buf off (to_bytes x) = Inr buf'"
  shows "bind_result (read_bytes buf' off size_of) (\<lambda>bs. Inr (of_bytes bs)) = Inr x"
proof -
  have le: "off + size_of \<le> length buf"
    and buf': "buf' = take off buf @ to_bytes x @ drop (off + size_of) buf"
    using assms by (auto simp: write_bytes_def length_to_bytes split: if_splits)
  then have "read_bytes buf' off size_of = Inr (to_bytes x)"
    by (simp add: read_bytes_def length_to_bytes)
  then show ?thesis using of_bytes_to_bytes [of x "[]"] by simp
qed

lemma of_bytes_take: "size_of \<le> length b \<Longrightarrow> of_bytes (take size_of b) = of_bytes b"
  by (metis append_Nil2 of_bytes_to_bytes to_bytes_of_bytes)

lemma of_bytes_eq_iff:
  "size_of \<le> length b \<Longrightarrow> of_bytes b = x \<longleftrightarrow> take size_of b = to_bytes x"
  by (metis append_Nil2 of_bytes_to_bytes to_bytes_of_bytes)

end

interpretation ip: layout 20 iphdr_bytes iphdr_of_bytes
  by unfold_locales (auto simp: iphdr_bytes_of_bytes)

interpretation udp: layout 8 udphdr_bytes udphdr_of_bytes
  by unfold_locales (auto simp: udphdr_bytes_of_bytes)

interpretation tcp: layout 20 tcphdr_bytes tcphdr_of_bytes
  by unfold_locales (auto simp: tcphdr_bytes_of_bytes)

end
