(* ===== verification/Checksum.thy ===== *)
theory Checksum
  imports Memory
begin

text \<open>
  The Internet checksum of src/src/utils/packetutils.cpp (PacketUtils::csum): the loop that adds
  16-bit words into a 64-bit long, the odd byte, the two folds and the complement, written as in the
  code, and the reference it has to agree with, the one's complement sum of RFC 1071 in which each
  addition wraps its carry around. The agreement needs the plain sum to stay below \<open>2 ^ 32\<close>,
  which holds for every length that fits the code's uses.
\<close>

unbundle bit_operations_syntax

section \<open>The code\<close>

fun csum_loop :: "byte list \<Rightarrow> int \<Rightarrow> u64 \<Rightarrow> u64 \<times> byte list \<times> int" where
  "csum_loop (a # b # ptr) nbytes sm =
     (if 1 < nbytes then csum_loop ptr (nbytes - 2) (sm + ucast (of_le16 a b))
      else (sm, a # b # ptr, nbytes))"
| "csum_loop ptr nbytes sm = (sm, ptr, nbytes)"

definition csum_fold :: "u64 \<Rightarrow> u16" where
  "csum_fold sum0 =
     (let sum1 = signed_drop_bit 16 sum0 + (sum0 AND 0xFFFF);
          sum2 = sum1 + signed_drop_bit 16 sum1
      in ucast (NOT sum2))"

definition csum :: "byte list \<Rightarrow> int \<Rightarrow> u16 result" where
  "csum ptr nbytes =
     (if int (length ptr) < nbytes then Inl (Undefined Out_of_bounds_read)
      else (let (sm, rest, n) = csum_loop ptr nbytes 0;
                sm = (if n = 1 then sm + ucast (hd rest) else sm)
            in Inr (csum_fold sm)))"

section \<open>The reference\<close>

text \<open>The 16-bit words of a buffer, an odd last byte padded with a zero byte.\<close>

fun words16 :: "byte list \<Rightarrow> nat list" where
  "words16 (a # b # bs) = unat (of_le16 a b) # words16 bs"
| "words16 [a] = [unat a]"
| "words16 [] = []"

definition oc_add :: "nat \<Rightarrow> nat \<Rightarrow> nat" where
  "oc_add a b = (if a + b < 65536 then a + b else a + b - 65535)"

definition oc_sum :: "nat list \<Rightarrow> nat" where
  "oc_sum ws = foldl oc_add 0 ws"

definition rfc1071 :: "byte list \<Rightarrow> nat" where
  "rfc1071 bs = 65535 - oc_sum (words16 bs)"

section \<open>The one's complement sum as a residue\<close>

definition oc_norm :: "nat \<Rightarrow> nat" where
  "oc_norm s = (if s = 0 then 0 else (s - 1) mod 65535 + 1)"

lemma oc_norm_le: "oc_norm s \<le> 65535"
  using mod_less_divisor [of 65535 "s - 1"] by (simp add: oc_norm_def del: mod_less_divisor)

lemma oc_norm_self: "s \<le> 65535 \<Longrightarrow> oc_norm s = s"
  by (auto simp: oc_norm_def)

lemma oc_norm_step: "65536 \<le> s \<Longrightarrow> oc_norm (s - 65535) = oc_norm s"
proof -
  assume s: "65536 \<le> s"
  then have "s - 1 = (s - 65535 - 1) + 65535" by simp
  then have "(s - 1) mod 65535 = (s - 65535 - 1) mod 65535" by (metis mod_add_self2)
  with s show ?thesis by (simp add: oc_norm_def)
qed

lemma oc_norm_add_multiple: "0 < s \<Longrightarrow> oc_norm (s + 65535 * q) = oc_norm s"
proof (induction q)
  case 0
  then show ?case by simp
next
  case (Suc q)
  then have "oc_norm (s + 65535 * Suc q) = oc_norm (s + 65535 * q)"
    using oc_norm_step [of "s + 65535 * Suc q"] by simp
  with Suc show ?case by simp
qed

lemma oc_norm_decompose: "\<exists>q. s = oc_norm s + 65535 * q"
proof (cases "s = 0")
  case True
  then show ?thesis by (simp add: oc_norm_def)
next
  case False
  then have "oc_norm s = (s - 1) mod 65535 + 1" by (simp add: oc_norm_def)
  moreover have "s - 1 = (s - 1) mod 65535 + 65535 * ((s - 1) div 65535)" by simp
  ultimately have "s = oc_norm s + 65535 * ((s - 1) div 65535)"
    using False by linarith
  then show ?thesis by blast
qed

lemma oc_add_norm: "w \<le> 65535 \<Longrightarrow> oc_add (oc_norm s) w = oc_norm (s + w)"
proof -
  assume w: "w \<le> 65535"
  obtain q where q: "s = oc_norm s + 65535 * q" using oc_norm_decompose by blast
  show ?thesis
  proof (cases "s = 0")
    case True
    then show ?thesis using w by (simp add: oc_add_def oc_norm_def [of 0] oc_norm_self)
  next
    case False
    then have pos: "0 < oc_norm s" by (simp add: oc_norm_def)
    have "s + w = oc_norm s + w + 65535 * q" using q by linarith
    then have "oc_norm (s + w) = oc_norm (oc_norm s + w + 65535 * q)" by (rule arg_cong)
    also have "\<dots> = oc_norm (oc_norm s + w)" using pos by (intro oc_norm_add_multiple) simp
    finally have e: "oc_norm (s + w) = oc_norm (oc_norm s + w)" .
    show ?thesis
    proof (cases "oc_norm s + w < 65536")
      case True
      then show ?thesis by (simp add: e oc_add_def oc_norm_self)
    next
      case False
      then have "oc_norm (oc_norm s + w) = oc_norm s + w - 65535"
        using w oc_norm_le [of s] oc_norm_step [of "oc_norm s + w"] by (simp add: oc_norm_self)
      with False show ?thesis by (simp add: e oc_add_def)
    qed
  qed
qed

lemma foldl_oc_add:
  "\<forall>w \<in> set ws. w \<le> 65535 \<Longrightarrow> foldl oc_add (oc_norm s) ws = oc_norm (s + sum_list ws)"
proof (induction ws arbitrary: s)
  case Nil
  then show ?case by simp
next
  case (Cons w ws)
  then show ?case by (simp add: oc_add_norm add.assoc)
qed

lemma oc_sum_norm: "\<forall>w \<in> set ws. w \<le> 65535 \<Longrightarrow> oc_sum ws = oc_norm (sum_list ws)"
  using foldl_oc_add [of ws 0] by (simp add: oc_sum_def oc_norm_def [of 0])

lemma words16_le: "w \<in> set (words16 bs) \<Longrightarrow> w \<le> 65535"
proof (induction bs rule: words16.induct)
  case (1 a b bs)
  then show ?case using unat_u16_less [of "of_le16 a b"] by auto
next
  case (2 a)
  then show ?case using unat_byte_less [of a] by simp
qed simp

lemma sum_list_words16_le: "sum_list (words16 bs) \<le> 65535 * ((length bs + 1) div 2)"
proof (induction bs rule: words16.induct)
  case (1 a b bs)
  then show ?case using unat_u16_less [of "of_le16 a b"] by simp
next
  case (2 a)
  then show ?case using unat_byte_less [of a] by simp
qed simp

section \<open>The folds compute the residue\<close>

lemma fold_carries:
  fixes s :: nat
  assumes "s < 2 ^ 32"
  shows "(let t = s div 65536 + s mod 65536 in (t + t div 65536) mod 65536) = oc_norm s"
proof -
  define t where "t = s div 65536 + s mod 65536"
  have "s div 65536 < 65536" using assms by (simp add: less_mult_imp_div_less)
  then have t_le: "t \<le> 131070"
    using mod_less_divisor [of 65536 s] unfolding t_def by linarith
  have s: "s = t + 65535 * (s div 65536)"
    unfolding t_def using mult_div_mod_eq [of 65536 s] by linarith
  have t0: "t = 0 \<longleftrightarrow> s = 0"
    by (metis add_is_0 div_eq_0_iff mod_0 mod_div_trivial mod_eq_self_iff_div_eq_0 t_def div_0)
  have norm: "oc_norm s = oc_norm t"
  proof (cases "t = 0")
    case True
    then show ?thesis using t0 by simp
  next
    case False
    then show ?thesis using s oc_norm_add_multiple [of t "s div 65536"] by simp
  qed
  show ?thesis
  proof (cases "t < 65536")
    case True
    then show ?thesis using norm by (simp add: t_def [symmetric] Let_def oc_norm_self)
  next
    case False
    then have d: "t div 65536 = 1" using t_le by (intro div_nat_eqI) simp_all
    have "(t + 1) mod 65536 = t - 65535" using False t_le by (simp add: mod_if)
    moreover have "oc_norm t = t - 65535"
      using False t_le oc_norm_step [of t] by (simp add: oc_norm_self)
    ultimately show ?thesis using norm d by (simp add: t_def [symmetric] Let_def)
  qed
qed

lemma signed_drop_bit_small:
  fixes w :: u64
  assumes "unat w < 2 ^ 63"
  shows "signed_drop_bit 16 w = drop_bit 16 w"
proof (rule bit_word_eqI)
  fix n assume n: "n < LENGTH(64)"
  have top: "\<not> bit w 63"
    using assms bit_unsigned_iff [where 'a = nat, of w 63] by (simp add: bit_iff_odd)
  show "bit (signed_drop_bit 16 w) n = bit (drop_bit 16 w) n"
  proof (cases "48 \<le> n")
    case True
    then have "\<not> bit w (16 + n)" using bit_imp_le_length [of w "16 + n"] by auto
    then show ?thesis using True n top by (simp add: bit_signed_drop_bit_iff bit_drop_bit_eq)
  next
    case False
    then show ?thesis by (simp add: bit_signed_drop_bit_iff bit_drop_bit_eq)
  qed
qed

lemma unat_low16: "unat (w AND 0xFFFF) = unat w mod 65536" for w :: u64
proof -
  have "w AND 0xFFFF = take_bit 16 w"
    by (simp add: take_bit_eq_mask mask_numeral)
  then show ?thesis
    using take_bit_eq_mod [of 16 "unat w"] by (simp add: unsigned_take_bit_eq)
qed

lemma unat_drop16: "unat (drop_bit 16 w) = unat w div 65536" for w :: u64
  using drop_bit_eq_div [of 16 "unat w"] by (simp add: unat_drop_bit_eq)

lemma unat_ucast_not: "unat (ucast (NOT w) :: u16) = 65535 - unat w mod 65536" for w :: u64
proof -
  have "ucast (NOT w) = NOT (ucast w :: u16)"
    by (rule bit_word_eqI) (auto simp: bit_simps)
  moreover have "NOT v = 65535 - v" for v :: u16
    by (simp add: not_eq_complement)
  moreover have "unat (65535 - v) = 65535 - unat v" for v :: u16
    using unat_u16_less [of v] by (simp add: unat_sub_if')
  moreover have "unat (ucast w :: u16) = unat w mod 65536"
    by (simp add: unsigned_ucast_eq take_bit_eq_mod)
  ultimately show ?thesis by simp
qed

lemma unat_csum_fold:
  assumes "unat s < 2 ^ 32"
  shows "unat (csum_fold s) = 65535 - oc_norm (unat s)"
proof -
  define t where "t = signed_drop_bit 16 s + (s AND 0xFFFF)"
  have s63: "unat s < 2 ^ 63" using assms by simp
  have div: "unat s div 65536 < 65536" using assms by (simp add: less_mult_imp_div_less)
  have ut: "unat t = unat s div 65536 + unat s mod 65536"
    using div mod_less_divisor [of 65536 "unat s"]
    unfolding t_def signed_drop_bit_small [OF s63]
    by (subst unat_word_ariths(1)) (simp add: unat_low16 unat_drop16 del: mod_less_divisor)
  then have t63: "unat t < 131072"
    using div mod_less_divisor [of 65536 "unat s"] by (simp del: mod_less_divisor)
  then have "unat (t + signed_drop_bit 16 t) = unat t + unat t div 65536"
    by (subst signed_drop_bit_small, simp, subst unat_word_ariths(1)) (simp add: unat_drop16)
  then show ?thesis
    using fold_carries [OF assms] ut
    by (simp add: csum_fold_def t_def [symmetric] Let_def unat_ucast_not)
qed

section \<open>The loop adds the words\<close>

lemma unat_ucast_u16: "unat (ucast w :: u64) = unat w" for w :: u16
  using unat_u16_less [of w] by (simp add: unsigned_ucast_eq take_bit_nat_eq_self_iff)

lemma unat_ucast_u8: "unat (ucast w :: u64) = unat w" for w :: byte
  using unat_byte_less [of w] by (simp add: unsigned_ucast_eq take_bit_nat_eq_self_iff)

lemma csum_loop_sum:
  assumes "n \<le> length ptr" "unat s + sum_list (words16 (take n ptr)) < 2 ^ 64"
    and "csum_loop ptr (int n) s = (t, rest, m)"
  shows "unat (if m = 1 then t + ucast (hd rest) else t) = unat s + sum_list (words16 (take n ptr))"
  using assms
proof (induction ptr "int n" s arbitrary: n rule: csum_loop.induct)
  case (1 a b ptr s)
  show ?case
  proof (cases "1 < n")
    case True
    then have "n = Suc (Suc (n - 2))" by arith
    then obtain k where k: "n = Suc (Suc k)" by blast
    have bound: "unat s + unat (of_le16 a b) + sum_list (words16 (take k ptr)) < 2 ^ 64"
      using "1.prems"(2) k by simp
    then have us: "unat (s + ucast (of_le16 a b)) = unat s + unat (of_le16 a b)"
      by (subst unat_word_ariths(1)) (simp add: unat_ucast_u16)
    have step: "csum_loop ptr (int k) (s + ucast (of_le16 a b)) = (t, rest, m)"
      using "1.prems"(3) k by simp
    have "unat (if m = 1 then t + ucast (hd rest) else t) =
        unat (s + ucast (of_le16 a b)) + sum_list (words16 (take k ptr))"
      using "1.hyps" [of k] True k "1.prems"(1) bound us step by simp
    then show ?thesis using k us by simp
  next
    case False
    then have "n = 0 \<or> n = 1" by arith
    then show ?thesis
      using "1.prems" by (auto simp: unat_word_ariths(1) unat_ucast_u8)
  qed
next
  case "2_1"
  then show ?case by simp
next
  case "2_2"
  then have "n = 0 \<or> n = 1" by auto
  then show ?case
    using "2_2.prems" by (auto simp: unat_word_ariths(1) unat_ucast_u8)
qed

text \<open>The checksum of the code is the reference on every buffer it is used on.\<close>

lemma csum_rfc1071:
  assumes "n \<le> length ptr" "n \<le> 131072"
  shows "\<exists>c. csum ptr (int n) = Inr c \<and> unat c = rfc1071 (take n ptr)"
proof -
  obtain t rest m where loop: "csum_loop ptr (int n) 0 = (t, rest, m)"
    by (metis prod_cases3)
  let ?S = "sum_list (words16 (take n ptr))"
  have "?S \<le> 65535 * ((n + 1) div 2)"
    using sum_list_words16_le [of "take n ptr"] assms(1) by simp
  also have "\<dots> \<le> 65535 * 65536" using assms(2) by simp
  finally have S: "?S < 2 ^ 32" by simp
  then have sum: "unat (if m = 1 then t + ucast (hd rest) else t) = ?S"
    using csum_loop_sum [OF assms(1) _ loop] by simp
  have "oc_norm ?S = oc_sum (words16 (take n ptr))"
    using words16_le oc_sum_norm by metis
  then show ?thesis
    using assms(1) loop sum S unat_csum_fold
    by (auto simp: csum_def rfc1071_def Let_def split: if_splits)
qed

section \<open>A checksum in its place cancels the sum\<close>

lemma words16_append:
  "even (length xs) \<Longrightarrow> words16 (xs @ ys) = words16 xs @ words16 ys"
proof (induction xs rule: words16.induct)
  case (1 a b bs)
  then show ?case by simp
qed auto

lemma sum_words16_field:
  "even (length pre) \<Longrightarrow>
   sum_list (words16 (pre @ le16 c @ post)) =
     sum_list (words16 pre) + unat c + sum_list (words16 post)"
  by (simp add: words16_append le16_def)

lemma oc_norm_complement: "oc_norm (s + (65535 - oc_norm s)) = 65535"
proof -
  obtain q where q: "s = oc_norm s + 65535 * q" using oc_norm_decompose by blast
  have "s + (65535 - oc_norm s) = 65535 + 65535 * q"
    using q oc_norm_le [of s] by linarith
  then have "oc_norm (s + (65535 - oc_norm s)) = oc_norm (65535 + 65535 * q)"
    by (rule arg_cong)
  also have "\<dots> = oc_norm 65535" by (rule oc_norm_add_multiple) simp
  finally show ?thesis by (simp add: oc_norm_self)
qed

lemma rfc1071_norm: "rfc1071 bs = 65535 - oc_norm (sum_list (words16 bs))"
  using words16_le oc_sum_norm by (metis rfc1071_def)

lemma rfc1071_complement:
  assumes "even (length pre)" "unat c = rfc1071 (pre @ le16 0 @ post)"
  shows "rfc1071 (pre @ le16 c @ post) = 0"
proof -
  let ?s = "sum_list (words16 pre) + sum_list (words16 post)"
  have "unat c = 65535 - oc_norm ?s"
    using assms sum_words16_field [of pre 0 post] by (simp add: rfc1071_norm)
  then have "sum_list (words16 (pre @ le16 c @ post)) = ?s + (65535 - oc_norm ?s)"
    using assms(1) by (simp add: sum_words16_field)
  then show ?thesis using oc_norm_complement [of ?s] by (simp add: rfc1071_norm)
qed

lemma csum_in_bounds: "n \<le> int (length ptr) \<Longrightarrow> \<exists>c. csum ptr n = Inr c"
  by (auto simp: csum_def Let_def split: prod.splits)

lemma csum_field_cancels:
  assumes "even (length pre)" "n = length (pre @ le16 0 @ post)" "n \<le> 131072"
    and "csum (pre @ le16 0 @ post @ slack) (int n) = Inr c"
  shows "csum (pre @ le16 c @ post @ slack) (int n) = Inr 0"
proof -
  obtain d where d: "csum (pre @ le16 0 @ post @ slack) (int n) = Inr d"
      "unat d = rfc1071 (take n (pre @ le16 0 @ post @ slack))"
    using csum_rfc1071 [of n "pre @ le16 0 @ post @ slack"] assms(2,3) by auto
  have cut: "take n (pre @ le16 v @ post @ slack) = pre @ le16 v @ post" for v
    using assms(2) by simp
  have "unat c = rfc1071 (pre @ le16 0 @ post)"
    using d assms(4) by (simp only: cut) simp
  then have zero: "rfc1071 (pre @ le16 c @ post) = 0"
    by (rule rfc1071_complement [OF assms(1)])
  obtain e where "csum (pre @ le16 c @ post @ slack) (int n) = Inr e"
      "unat e = rfc1071 (take n (pre @ le16 c @ post @ slack))"
    using csum_rfc1071 [of n "pre @ le16 c @ post @ slack"] assms(2,3) by auto
  then show ?thesis using zero by (simp only: cut) (simp add: unat_eq_0)
qed

text \<open>
  When a checksum was taken over more words than it is checked over: what is left out has to sum
  to a multiple of 65535 for the check to succeed.
\<close>

lemma oc_norm_full_iff: "oc_norm s = 65535 \<longleftrightarrow> 0 < s \<and> 65535 dvd s"
proof -
  obtain q where q: "s = oc_norm s + 65535 * q" using oc_norm_decompose by blast
  have "65535 dvd s \<longleftrightarrow> 65535 dvd oc_norm s"
    using q by (metis dvd_add_left_iff dvd_triv_left)
  moreover have "65535 dvd oc_norm s \<longleftrightarrow> oc_norm s = 0 \<or> oc_norm s = 65535"
    using oc_norm_le [of s] by (auto elim!: dvdE)
  moreover have "oc_norm s = 0 \<longleftrightarrow> s = 0" by (simp add: oc_norm_def)
  ultimately show ?thesis by auto
qed

lemma oc_norm_partial_check:
  assumes "0 < a"
  shows "oc_norm (a + (65535 - oc_norm (a + p))) = 65535 \<longleftrightarrow> 65535 dvd p"
proof -
  let ?x = "oc_norm (a + p)"
  obtain q where q: "a + p = ?x + 65535 * q" using oc_norm_decompose by blast
  have sum: "a + (65535 - ?x) + p = 65535 * (q + 1)"
    using q oc_norm_le [of "a + p"] by (simp add: algebra_simps)
  have "65535 dvd (a + (65535 - ?x)) \<longleftrightarrow> 65535 dvd p"
    using sum by (metis dvd_add_left_iff dvd_add_right_iff dvd_triv_left)
  then show ?thesis using assms by (simp add: oc_norm_full_iff)
qed

lemma csum_Inr_0_iff:
  assumes "n \<le> length ptr" "n \<le> 131072"
  shows "csum ptr (int n) = Inr 0 \<longleftrightarrow> oc_norm (sum_list (words16 (take n ptr))) = 65535"
proof -
  obtain c where "csum ptr (int n) = Inr c" "unat c = rfc1071 (take n ptr)"
    using csum_rfc1071 [OF assms] by blast
  then show ?thesis
    using oc_norm_le [of "sum_list (words16 (take n ptr))"]
    by (auto simp: rfc1071_norm unat_eq_0 [symmetric])
qed

text \<open>
  C23: The checksum of the code is the one of RFC 1071: on every buffer of up to 128 KiB it returns
  the complement of the one's complement sum of the buffer's 16-bit words, an odd last byte padded
  with zero; the two foldings of the 64-bit accumulator are enough for that length.
\<close>
theorem csum_is_rfc1071:
  assumes "n \<le> length ptr" "n \<le> 131072"
  shows "\<exists>c. csum ptr (int n) = Inr c \<and> unat c = rfc1071 (take n ptr)"
  by (rule csum_rfc1071 [OF assms])

theorem csum_is_rfc1071_witness:
  "\<exists>c. csum [1, 2, 3] 3 = Inr c \<and> unat c = rfc1071 [1, 2, 3]"
  using csum_is_rfc1071 [of 3 "[1, 2, 3]"] by simp

text \<open>
  A checksum stored in its own field verifies: when the field, at an even offset, is zero while
  the sum is taken and then holds the result, the sum over the same bytes is zero.
\<close>
lemma stored_checksum_verifies:
  assumes "even (length pre)" "n = length (pre @ le16 0 @ post)" "n \<le> 131072"
    and "csum (pre @ le16 0 @ post @ slack) (int n) = Inr c"
  shows "csum (pre @ le16 c @ post @ slack) (int n) = Inr 0"
  by (rule csum_field_cancels [OF assms])

end
