(* ===== verification/Numbers.thy ===== *)
theory Numbers
  imports Prelude
begin

text \<open>
  Numbers in text: std::to_string on the unsigned values the code prints, and std::stoi and
  std::stoul with the two exceptions they throw. Strings are lists of characters; a C string ends at
  the first zero character, which \<open>c_str\<close> cuts off.
\<close>

section \<open>Characters\<close>

definition char_code :: "char \<Rightarrow> nat" where
  "char_code c = of_char c"

definition is_digit :: "char \<Rightarrow> bool" where
  "is_digit c \<longleftrightarrow> 48 \<le> char_code c \<and> char_code c \<le> 57"

definition isspace :: "char \<Rightarrow> bool" where
  "isspace c \<longleftrightarrow> char_code c = 32 \<or> 9 \<le> char_code c \<and> char_code c \<le> 13"

definition digit_char :: "nat \<Rightarrow> char" where
  "digit_char d = char_of (48 + d)"

definition digit_value :: "char \<Rightarrow> nat" where
  "digit_value c = char_code c - 48"

definition c_str :: "string \<Rightarrow> string" where
  "c_str s = takeWhile (\<lambda>c. c \<noteq> CHR 0x00) s"

lemma char_code_digit_char [simp]: "d < 10 \<Longrightarrow> char_code (digit_char d) = 48 + d"
  by (simp add: char_code_def digit_char_def)

lemma is_digit_digit_char [simp]: "d < 10 \<Longrightarrow> is_digit (digit_char d)"
  by (simp add: is_digit_def)

lemma digit_value_digit_char [simp]: "d < 10 \<Longrightarrow> digit_value (digit_char d) = d"
  by (simp add: digit_value_def)

lemma digit_char_eq_iff [simp]: "d < 10 \<Longrightarrow> e < 10 \<Longrightarrow> digit_char d = digit_char e \<longleftrightarrow> d = e"
  by (metis digit_value_digit_char)

lemma digit_char_0: "digit_char 0 = CHR ''0''"
  by (simp add: digit_char_def char_of_eq_iff)

lemma digit_chars:
  "digit_char 0 = CHR ''0''" "digit_char 1 = CHR ''1''" "digit_char 2 = CHR ''2''"
  "digit_char 3 = CHR ''3''" "digit_char 4 = CHR ''4''" "digit_char 5 = CHR ''5''"
  "digit_char 6 = CHR ''6''" "digit_char 7 = CHR ''7''" "digit_char 8 = CHR ''8''"
  "digit_char 9 = CHR ''9''" "digit_char (Suc 0) = CHR ''1''"
  by (simp_all add: digit_char_def char_of_eq_iff)

lemma digit_not_space: "is_digit c \<Longrightarrow> \<not> isspace c"
  by (auto simp: is_digit_def isspace_def)

lemma digit_not_special:
  assumes "is_digit c"
  shows "c \<noteq> CHR 0x00" "c \<noteq> CHR ''-''" "c \<noteq> CHR ''+''" "c \<noteq> CHR ''.''" "c \<noteq> CHR '':''"
    "c \<noteq> CHR ''/''" "c \<noteq> CHR ''x''" "c \<noteq> CHR ''X''" "c \<noteq> CHR ''h''"
  using assms by (auto simp: is_digit_def char_code_def)

lemma c_str_id [simp]: "CHR 0x00 \<notin> set s \<Longrightarrow> c_str s = s"
  by (simp add: c_str_def takeWhile_eq_all_conv) metis

lemma c_str_no_nul: "CHR 0x00 \<notin> set (c_str s)"
  by (auto simp: c_str_def dest: set_takeWhileD)

section \<open>std::to_string\<close>

fun to_string :: "nat \<Rightarrow> string" where
  "to_string n =
     (if 10 \<le> n then to_string (n div 10) else []) @ [digit_char (n mod 10)]"

declare to_string.simps [simp del]

definition dec_value :: "string \<Rightarrow> nat" where
  "dec_value s = foldl (\<lambda>acc c. 10 * acc + digit_value c) 0 s"

lemma to_string_less_10: "n < 10 \<Longrightarrow> to_string n = [digit_char n]"
  by (simp add: to_string.simps)

lemma to_string_not_Nil [simp]: "to_string n \<noteq> []"
  by (subst to_string.simps) simp

lemma to_string_digits: "\<forall>c \<in> set (to_string n). is_digit c"
proof (induction n rule: to_string.induct)
  case (1 n)
  then show ?case by (subst to_string.simps) auto
qed

lemma to_string_no_char: "\<not> is_digit c \<Longrightarrow> c \<notin> set (to_string n)"
  using to_string_digits by blast

lemma dec_value_snoc: "dec_value (s @ [c]) = 10 * dec_value s + digit_value c"
  by (simp add: dec_value_def)

lemma dec_value_Nil [simp]: "dec_value [] = 0"
  by (simp add: dec_value_def)

lemma dec_value_to_string [simp]: "dec_value (to_string n) = n"
proof (induction n rule: to_string.induct)
  case (1 n)
  show ?case
  proof (cases "10 \<le> n")
    case True
    with 1 have "dec_value (to_string (n div 10)) = n div 10" by blast
    with True show ?thesis by (subst to_string.simps) (simp add: dec_value_snoc)
  next
    case False
    then show ?thesis by (subst to_string.simps) (simp add: dec_value_def)
  qed
qed

lemma to_string_inj [simp]: "to_string m = to_string n \<longleftrightarrow> m = n"
  by (metis dec_value_to_string)

lemma to_string_hd: "0 < n \<Longrightarrow> hd (to_string n) \<noteq> CHR ''0''"
proof (induction n rule: to_string.induct)
  case (1 n)
  show ?case
  proof (cases "10 \<le> n")
    case True
    then have "0 < n div 10" by simp
    with True 1 have "hd (to_string (n div 10)) \<noteq> CHR ''0''" by blast
    with True show ?thesis by (subst to_string.simps) simp
  next
    case False
    with "1.prems" have "digit_char n \<noteq> digit_char 0" by simp
    then show ?thesis
      using False by (simp add: to_string_less_10 digit_char_0)
  qed
qed

lemma to_string_0: "to_string 0 = ''0''"
  by (simp add: to_string_less_10 digit_char_0)

text \<open>std::to_string on a value of type int.\<close>

definition to_string_int :: "int \<Rightarrow> string" where
  "to_string_int n = (if n < 0 then CHR ''-'' # to_string (nat (- n)) else to_string (nat n))"

section \<open>std::stoi and std::stoul\<close>

text \<open>
  What strtol and strtoul accept in base ten: leading white space, an optional sign, then the
  longest run of digits. The text after it is ignored. \<open>None\<close> is "no conversion".
\<close>

definition scan_decimal :: "string \<Rightarrow> (bool \<times> nat) option" where
  "scan_decimal s =
     (let t = dropWhile isspace s;
          neg = (t \<noteq> [] \<and> hd t = CHR ''-'');
          u = (if t \<noteq> [] \<and> (hd t = CHR ''-'' \<or> hd t = CHR ''+'') then tl t else t);
          ds = takeWhile is_digit u
      in if ds = [] then None else Some (neg, dec_value ds))"

definition stoi :: "string \<Rightarrow> int result" where
  "stoi s = (case scan_decimal s of
       None \<Rightarrow> Inl (Throw Invalid_argument)
     | Some (neg, m) \<Rightarrow>
         (let v = (if neg then - int m else int m)
          in if - (2 ^ 31) \<le> v \<and> v < 2 ^ 31 then Inr v else Inl (Throw Out_of_range)))"

definition stoul :: "string \<Rightarrow> u64 result" where
  "stoul s = (case scan_decimal s of
       None \<Rightarrow> Inl (Throw Invalid_argument)
     | Some (neg, m) \<Rightarrow>
         (if m < 2 ^ 64 then Inr (if neg then - of_nat m else of_nat m)
          else Inl (Throw Out_of_range)))"

lemma scan_decimal_digits:
  assumes "ds \<noteq> []" "\<forall>c \<in> set ds. is_digit c" "rest = [] \<or> \<not> is_digit (hd rest)"
  shows "scan_decimal (ds @ rest) = Some (False, dec_value ds)"
proof -
  obtain d ds' where ds: "ds = d # ds'" using assms(1) by (cases ds) auto
  then have d: "is_digit d" using assms(2) by simp
  have "takeWhile is_digit (ds @ rest) = ds"
    using assms(2,3) by (rule takeWhile_append_stop)
  then show ?thesis
    using ds d digit_not_space [OF d] digit_not_special [OF d]
    by (simp add: scan_decimal_def Let_def)
qed

lemma scan_decimal_to_string:
  "rest = [] \<or> \<not> is_digit (hd rest) \<Longrightarrow> scan_decimal (to_string n @ rest) = Some (False, n)"
  by (simp add: scan_decimal_digits to_string_digits)

lemma stoi_to_string: "n < 2 ^ 31 \<Longrightarrow> stoi (to_string n) = Inr (int n)"
  using scan_decimal_to_string [of "[]" n] by (simp add: stoi_def)

lemma stoul_to_string:
  "rest = [] \<or> \<not> is_digit (hd rest) \<Longrightarrow> n < 2 ^ 64 \<Longrightarrow> stoul (to_string n @ rest) = Inr (of_nat n)"
  by (simp add: stoul_def scan_decimal_to_string)

lemma stoi_range: "stoi s = Inr v \<Longrightarrow> - (2 ^ 31) \<le> v \<and> v < 2 ^ 31"
  by (auto simp: stoi_def Let_def split: option.splits if_splits)

end
