(* ===== verification/Inet.thy ===== *)
theory Inet
  imports Memory Numbers
begin

text \<open>
  The two address conversions of the C library the program uses: inet_ntoa prints the four bytes of
  an address in memory order with dots between them, inet_addr reads one to four numbers in C
  notation, the last of which fills the bytes that are left, and answers INADDR_NONE for a text
  that is no address. Reading back what was printed gives the address for all 32-bit values.
\<close>

unbundle bit_operations_syntax

section \<open>inet_ntoa\<close>

definition inet_ntoa :: "u32 \<Rightarrow> string" where
  "inet_ntoa a =
     to_string (unat (ucast a :: byte)) @ ''.'' @
     to_string (unat (ucast (drop_bit 8 a) :: byte)) @ ''.'' @
     to_string (unat (ucast (drop_bit 16 a) :: byte)) @ ''.'' @
     to_string (unat (ucast (drop_bit 24 a) :: byte))"

section \<open>inet_addr\<close>

definition is_xdigit :: "char \<Rightarrow> bool" where
  "is_xdigit c \<longleftrightarrow> is_digit c \<or> 65 \<le> char_code c \<and> char_code c \<le> 70
     \<or> 97 \<le> char_code c \<and> char_code c \<le> 102"

definition is_odigit :: "char \<Rightarrow> bool" where
  "is_odigit c \<longleftrightarrow> 48 \<le> char_code c \<and> char_code c \<le> 55"

definition xdigit_value :: "char \<Rightarrow> nat" where
  "xdigit_value c =
     (if is_digit c then digit_value c
      else if char_code c \<le> 70 then char_code c - 55 else char_code c - 87)"

definition base_value :: "nat \<Rightarrow> string \<Rightarrow> nat" where
  "base_value base s = foldl (\<lambda>acc c. base * acc + xdigit_value c) 0 s"

text \<open>A number in C notation, hexadecimal, octal or decimal, and the text after it.\<close>

definition c_number :: "string \<Rightarrow> (nat \<times> string) option" where
  "c_number s =
     (if s = [] \<or> \<not> is_digit (hd s) then None
      else if hd s = CHR ''0'' \<and> 2 < length s \<and> (s ! 1 = CHR ''x'' \<or> s ! 1 = CHR ''X'')
              \<and> is_xdigit (s ! 2)
      then Some (base_value 16 (takeWhile is_xdigit (drop 2 s)), dropWhile is_xdigit (drop 2 s))
      else if hd s = CHR ''0''
      then Some (base_value 8 (takeWhile is_odigit s), dropWhile is_odigit s)
      else Some (dec_value (takeWhile is_digit s), dropWhile is_digit s))"

text \<open>
  The parts of an address: the numbers before a dot, each at most 255, and the last one. The first
  argument is how many dots may still come.
\<close>

fun inet_parts :: "nat \<Rightarrow> string \<Rightarrow> (nat list \<times> nat) option" where
  "inet_parts dots s =
     (case c_number s of
        None \<Rightarrow> None
      | Some (v, rest) \<Rightarrow>
          (if 2 ^ 32 \<le> v then None
           else if rest = [] \<or> isspace (hd rest) then Some ([], v)
           else if hd rest = CHR ''.'' \<and> 0 < dots \<and> v \<le> 255
           then (case inet_parts (dots - 1) (tl rest) of
                   None \<Rightarrow> None
                 | Some (vs, w) \<Rightarrow> Some (v # vs, w))
           else None))"

declare inet_parts.simps [simp del]

definition be_bytes :: "nat \<Rightarrow> nat \<Rightarrow> byte list" where
  "be_bytes n v = map (\<lambda>i. of_nat (v div 256 ^ (n - 1 - i))) [0..<n]"

definition inaddr_none :: u32 where
  "inaddr_none = 0xFFFFFFFF"

definition inet_addr :: "string \<Rightarrow> u32" where
  "inet_addr s =
     (case inet_parts 3 (c_str s) of
        None \<Rightarrow> inaddr_none
      | Some (vs, w) \<Rightarrow>
          (let n = 4 - length vs; bs = map of_nat vs @ be_bytes n w
           in if w < 256 ^ n then of_le32 (bs ! 0) (bs ! 1) (bs ! 2) (bs ! 3) else inaddr_none))"

section \<open>Reading back a printed address\<close>

lemma not_digit_dot: "\<not> is_digit CHR ''.''"
  by (simp add: is_digit_def char_code_def)

lemma not_space_dot: "\<not> isspace CHR ''.''"
  by (simp add: isspace_def char_code_def)

lemma base_value_dec: "\<forall>c \<in> set s. is_digit c \<Longrightarrow> base_value 10 s = dec_value s"
  by (induction s rule: rev_induct) (simp_all add: base_value_def dec_value_def xdigit_value_def)

lemma c_number_to_string:
  assumes "rest = [] \<or> hd rest = CHR ''.''"
  shows "c_number (to_string n @ rest) = Some (n, rest)"
proof (cases "n = 0")
  case True
  have rest: "rest = [] \<or> \<not> is_odigit (hd rest)" "rest = [] \<or> hd rest \<noteq> CHR ''x'' \<and> hd rest \<noteq> CHR ''X''"
    using assms by (auto simp: is_odigit_def char_code_def)
  have zero: "is_digit CHR ''0''" "is_odigit CHR ''0''" "xdigit_value CHR ''0'' = 0"
    by (simp_all add: is_digit_def is_odigit_def xdigit_value_def digit_value_def char_code_def)
  show ?thesis
    using rest zero True by (cases rest) (auto simp: to_string_0 c_number_def base_value_def)
next
  case False
  obtain c cs where s: "to_string n = c # cs" by (cases "to_string n") auto
  have "hd (to_string n) \<noteq> CHR ''0''" using to_string_hd [of n] False by simp
  moreover have "is_digit (hd (to_string n))"
    using to_string_digits [of n] s by simp
  moreover have stop: "rest = [] \<or> \<not> is_digit (hd rest)"
    using assms not_digit_dot by auto
  moreover have "takeWhile is_digit (to_string n @ rest) = to_string n"
    using to_string_digits stop by (rule takeWhile_append_stop)
  moreover have "dropWhile is_digit (to_string n @ rest) = rest"
    using to_string_digits stop by (rule dropWhile_append_stop)
  ultimately show ?thesis
    by (simp add: c_number_def)
qed

lemma inet_parts_last:
  "v < 2 ^ 32 \<Longrightarrow> inet_parts dots (to_string v) = Some ([], v)"
  using c_number_to_string [of "[]" v] by (simp add: inet_parts.simps)

lemma inet_parts_dot:
  assumes "v \<le> 255" "0 < dots"
  shows "inet_parts dots (to_string v @ CHR ''.'' # rest) =
    (case inet_parts (dots - 1) rest of None \<Rightarrow> None | Some (vs, w) \<Rightarrow> Some (v # vs, w))"
  using assms c_number_to_string [of "CHR ''.'' # rest" v]
  by (simp add: inet_parts.simps [of dots "to_string v @ CHR ''.'' # rest"] not_space_dot)

lemma unat_byte_le: "unat b \<le> 255" for b :: byte
  using unat_byte_less [of b] by simp

lemma inet_ntoa_no_nul: "CHR 0x00 \<notin> set (inet_ntoa a)"
  using digit_not_special(1) to_string_digits by (fastforce simp: inet_ntoa_def)

lemma inet_parts_ntoa:
  "inet_parts 3 (inet_ntoa a) =
     Some ([unat (ucast a :: byte), unat (ucast (drop_bit 8 a) :: byte),
            unat (ucast (drop_bit 16 a) :: byte)], unat (ucast (drop_bit 24 a) :: byte))"
proof -
  have small: "unat b < 2 ^ 32" for b :: byte
    using unat_byte_less [of b] by simp
  show ?thesis
    unfolding inet_ntoa_def
    by (simp add: inet_parts_dot unat_byte_le inet_parts_last small del: power_numeral)
qed

theorem inet_addr_ntoa: "inet_addr (inet_ntoa a) = a"
proof -
  have "inet_addr (inet_ntoa a) =
      of_le32 (ucast a) (ucast (drop_bit 8 a)) (ucast (drop_bit 16 a)) (ucast (drop_bit 24 a))"
    using unat_byte_less [of "ucast (drop_bit 24 a)"]
    by (simp add: inet_addr_def inet_parts_ntoa inet_ntoa_no_nul be_bytes_def Let_def)
  then show ?thesis by simp
qed

lemma inet_addr_empty: "inet_addr [] = inaddr_none"
  by (simp add: inet_addr_def inet_parts.simps c_number_def c_str_def)

end
