(* ===== verification/Packet_Utils.thy ===== *)
theory Packet_Utils
  imports Packet_Headers Checksum Inet
begin

text \<open>
  The class PacketUtils of src/src/utils/packetutils.cpp: address and port conversions, the
  functions that copy IP, UDP and TCP headers out of a packet, the header sizes, and
  forge_ip_udp_pkt, which writes a whole IP/UDP datagram into a buffer. Every copy is bounded by the
  object it goes to and the buffer it comes from, so the lengths taken from the packet itself
  (\<open>ihl\<close> and \<open>doff\<close>, in words of four bytes) can make a call undefined.
\<close>

unbundle bit_operations_syntax

section \<open>Constants\<close>

definition buffer_size :: nat where
  "buffer_size = 65536"

definition ip_hdr_len :: nat where
  "ip_hdr_len = 20"

definition udp_hdr_len :: nat where
  "udp_hdr_len = 8"

definition tcp_hdr_len :: nat where
  "tcp_hdr_len = 20"

lemmas header_lengths = ip_hdr_len_def udp_hdr_len_def tcp_hdr_len_def

section \<open>Addresses and ports\<close>

definition int_to_ip :: "u32 \<Rightarrow> string" where
  "int_to_ip ip_int = inet_ntoa ip_int"

definition ip_to_int :: "string \<Rightarrow> u32" where
  "ip_to_int ip_string = inet_addr ip_string"

definition retrieve_port :: "u16 \<Rightarrow> u16" where
  "retrieve_port port = htons port"

text \<open>
  What the rest of the program needs of the two address conversions: reading back a printed address
  gives it again. Everything that travels as text between a header and a connection's key rests on
  this law alone.
\<close>

locale address_text =
  fixes print_addr :: "u32 \<Rightarrow> string"
    and read_addr :: "string \<Rightarrow> u32"
  assumes read_print: "read_addr (print_addr a) = a"
begin

lemma print_inj: "print_addr a = print_addr b \<longleftrightarrow> a = b"
  by (metis read_print)

lemma print_read_print: "print_addr (read_addr (print_addr a)) = print_addr a"
  by (simp add: read_print)

end

interpretation ip_text: address_text int_to_ip ip_to_int
  by unfold_locales (simp add: int_to_ip_def ip_to_int_def inet_addr_ntoa)

section \<open>Copying headers out of a packet\<close>

definition retrieve_ip_header :: "byte list \<Rightarrow> iphdr result" where
  "retrieve_ip_header pkt =
     bind_result (memcpy (replicate ip_hdr_len 0) 0 pkt 0 ip_hdr_len) (\<lambda>raw.
     let ip_pkt_len = unat (ip_ihl (iphdr_of_bytes raw)) * 4
     in bind_result (memcpy (replicate ip_hdr_len 0) 0 pkt 0 ip_pkt_len) (\<lambda>h_ip.
     Inr (iphdr_of_bytes h_ip)))"

definition retrieve_ip_udp_header :: "byte list \<Rightarrow> (iphdr \<times> udphdr) result" where
  "retrieve_ip_udp_header pkt =
     bind_result (memcpy (replicate ip_hdr_len 0) 0 pkt 0 ip_hdr_len) (\<lambda>raw.
     let ip_pkt_len = unat (ip_ihl (iphdr_of_bytes raw)) * 4
     in bind_result (memcpy (replicate ip_hdr_len 0) 0 pkt 0 ip_pkt_len) (\<lambda>h_ip.
     bind_result (memcpy (replicate udp_hdr_len 0) 0 pkt ip_pkt_len udp_hdr_len) (\<lambda>h_udp.
     Inr (iphdr_of_bytes h_ip, udphdr_of_bytes h_udp))))"

definition retrieve_ip_tcp_header :: "byte list \<Rightarrow> (iphdr \<times> tcphdr) result" where
  "retrieve_ip_tcp_header pkt =
     bind_result (memcpy (replicate ip_hdr_len 0) 0 pkt 0 ip_hdr_len) (\<lambda>raw.
     let ip_pkt_len = unat (ip_ihl (iphdr_of_bytes raw)) * 4
     in bind_result (memcpy (replicate ip_hdr_len 0) 0 pkt 0 ip_pkt_len) (\<lambda>h_ip.
     bind_result (memcpy (replicate tcp_hdr_len 0) 0 pkt ip_pkt_len tcp_hdr_len) (\<lambda>tcp_raw.
     let tcp_pkt_len = unat (tcp_doff (tcphdr_of_bytes tcp_raw)) * 4
     in bind_result (memcpy (replicate tcp_hdr_len 0) 0 pkt ip_pkt_len tcp_pkt_len) (\<lambda>h_tcp.
     Inr (iphdr_of_bytes h_ip, tcphdr_of_bytes h_tcp)))))"

definition udp_packet_header_size :: "byte list \<Rightarrow> nat result" where
  "udp_packet_header_size pkt =
     bind_result (memcpy (replicate ip_hdr_len 0) 0 pkt 0 ip_hdr_len) (\<lambda>h_ip.
     let pkt_size = unat (ip_ihl (iphdr_of_bytes h_ip)) * 4
     in Inr (pkt_size + udp_hdr_len))"

definition tcp_packet_header_size :: "byte list \<Rightarrow> nat result" where
  "tcp_packet_header_size pkt =
     bind_result (memcpy (replicate ip_hdr_len 0) 0 pkt 0 ip_hdr_len) (\<lambda>h_ip.
     let pkt_size = unat (ip_ihl (iphdr_of_bytes h_ip)) * 4
     in bind_result (memcpy (replicate tcp_hdr_len 0) 0 pkt pkt_size tcp_hdr_len) (\<lambda>h_tcp.
     Inr (pkt_size + unat (tcp_doff (tcphdr_of_bytes h_tcp)) * 4)))"

section \<open>What the copies give\<close>

text \<open>The header length a packet claims, in bytes.\<close>

definition claimed_ip_len :: "byte list \<Rightarrow> nat" where
  "claimed_ip_len pkt = unat (low_nibble (pkt ! 0)) * 4"

lemma claimed_ip_len_bytes [simp]:
  "claimed_ip_len (iphdr_bytes h @ rest) = unat (ip_ihl h) * 4"
  by (simp add: claimed_ip_len_def iphdr_bytes_def)

lemma memcpy_front:
  "n \<le> length src \<Longrightarrow> memcpy (replicate n 0) 0 src 0 n = Inr (take n src)"
  by (simp add: memcpy_Inr_iff)

lemma ihl_of_bytes: "ip_ihl (iphdr_of_bytes b) = low_nibble (b ! 0)"
  by (simp add: iphdr_of_bytes_def)

lemma retrieve_ip_header_value:
  assumes "20 \<le> length pkt" "claimed_ip_len pkt = 20"
  shows "retrieve_ip_header pkt = Inr (iphdr_of_bytes pkt)"
  using assms
  by (simp add: retrieve_ip_header_def header_lengths memcpy_front claimed_ip_len_def
      ip.of_bytes_take ihl_of_bytes Let_def)

text \<open>
  A packet with IP options makes each of the three functions write past its 20-byte structure.
\<close>

lemma memcpy_overflow:
  "length dst < n \<Longrightarrow> n \<le> length src \<Longrightarrow> memcpy dst 0 src 0 n = Inl (Undefined Out_of_bounds_write)"
  by (simp add: memcpy_def read_bytes_def write_bytes_def)

lemma ip_options_overflow:
  assumes "20 < claimed_ip_len pkt" "claimed_ip_len pkt \<le> length pkt"
  shows "retrieve_ip_header pkt = Inl (Undefined Out_of_bounds_write)"
    and "retrieve_ip_udp_header pkt = Inl (Undefined Out_of_bounds_write)"
    and "retrieve_ip_tcp_header pkt = Inl (Undefined Out_of_bounds_write)"
  using assms
  by (simp_all add: retrieve_ip_header_def retrieve_ip_udp_header_def retrieve_ip_tcp_header_def
      header_lengths memcpy_front memcpy_overflow claimed_ip_len_def ihl_of_bytes Let_def)

lemma memcpy_at:
  "off + n \<le> length src \<Longrightarrow> memcpy (replicate n 0) 0 src off n = Inr (take n (drop off src))"
  by (simp add: memcpy_Inr_iff)

text \<open>A packet without IP options, as its bytes stand.\<close>

lemma ip_udp_header_plain:
  assumes "28 \<le> length pkt" "claimed_ip_len pkt = 20"
  shows "retrieve_ip_udp_header pkt = Inr (iphdr_of_bytes pkt, udphdr_of_bytes (drop 20 pkt))"
  using assms
  by (simp add: retrieve_ip_udp_header_def header_lengths memcpy_front memcpy_at claimed_ip_len_def
      ip.of_bytes_take udp.of_bytes_take ihl_of_bytes Let_def)

lemma memcpy_at_short:
  "n \<le> m \<Longrightarrow> off + n \<le> length src \<Longrightarrow>
   memcpy (replicate m 0) 0 src off n = Inr (take n (drop off src) @ replicate (m - n) 0)"
  by (simp add: memcpy_Inr_iff)

lemma memcpy_at_overflow:
  "length dst < n \<Longrightarrow> off + n \<le> length src \<Longrightarrow>
   memcpy dst 0 src off n = Inl (Undefined Out_of_bounds_write)"
  by (simp add: memcpy_def read_bytes_def write_bytes_def)

lemma ip_tcp_header_plain:
  assumes "claimed_ip_len pkt = 20" "40 \<le> length pkt"
    and "n = unat (tcp_doff (tcphdr_of_bytes (drop 20 pkt))) * 4" "20 + n \<le> length pkt"
  shows "retrieve_ip_tcp_header pkt =
    (if 20 < n then Inl (Undefined Out_of_bounds_write)
     else Inr (iphdr_of_bytes pkt, tcphdr_of_bytes (take n (drop 20 pkt) @ replicate (20 - n) 0)))"
  using assms
  by (simp add: retrieve_ip_tcp_header_def header_lengths memcpy_front memcpy_at claimed_ip_len_def
      ip.of_bytes_take tcp.of_bytes_take ihl_of_bytes memcpy_at_short memcpy_at_overflow Let_def)

lemma retrieve_ip_udp_header_layout:
  assumes "ip_ihl h = 5"
  shows "retrieve_ip_udp_header (iphdr_bytes h @ udphdr_bytes u @ rest) = Inr (h, u)"
  using assms udphdr_of_bytes_bytes [of u "[]"] iphdr_of_bytes_bytes [of h "[]"]
  by (simp add: retrieve_ip_udp_header_def header_lengths memcpy_at memcpy_front Let_def)

lemma retrieve_ip_tcp_header_layout:
  assumes "ip_ihl h = 5" "tcp_doff t = 5"
  shows "retrieve_ip_tcp_header (iphdr_bytes h @ tcphdr_bytes t @ rest) = Inr (h, t)"
  using assms tcphdr_of_bytes_bytes [of t "[]"] iphdr_of_bytes_bytes [of h "[]"]
  by (simp add: retrieve_ip_tcp_header_def header_lengths memcpy_at memcpy_front Let_def)

lemma retrieve_ip_header_layout:
  assumes "ip_ihl h = 5"
  shows "retrieve_ip_header (iphdr_bytes h @ rest) = Inr h"
  using assms by (simp add: retrieve_ip_header_value)

lemma udp_packet_header_size_layout:
  "udp_packet_header_size (iphdr_bytes h @ rest) = Inr (unat (ip_ihl h) * 4 + 8)"
  using iphdr_of_bytes_bytes [of h "[]"]
  by (simp add: udp_packet_header_size_def header_lengths memcpy_front Let_def)

lemma tcp_packet_header_size_layout:
  assumes "unat (ip_ihl h) * 4 = 20 + length opts"
  shows "tcp_packet_header_size (iphdr_bytes h @ opts @ tcphdr_bytes t @ rest) =
    Inr (unat (ip_ihl h) * 4 + unat (tcp_doff t) * 4)"
  using assms iphdr_of_bytes_bytes [of h "[]"] tcphdr_of_bytes_bytes [of t "[]"]
  by (simp add: tcp_packet_header_size_def header_lengths memcpy_front memcpy_at Let_def)

lemma udp_packet_header_size_bounds:
  "udp_packet_header_size pkt = Inr n \<Longrightarrow> 8 \<le> n \<and> n \<le> 68"
proof -
  assume "udp_packet_header_size pkt = Inr n"
  then obtain w :: "4 word" where "n = unat w * 4 + 8"
    by (auto simp: udp_packet_header_size_def bind_result_eq_Inr header_lengths Let_def)
  then show ?thesis using unat_nibble_less [of w] by simp
qed

text \<open>
  A claimed length below the structure's own leaves the members past it zero; the general form of
  the copy, on every packet that holds a header at all.
\<close>

lemma retrieve_ip_header_short:
  assumes "20 \<le> length pkt" "claimed_ip_len pkt \<le> 20"
  shows "retrieve_ip_header pkt =
    Inr (iphdr_of_bytes (take (claimed_ip_len pkt) pkt @ replicate (20 - claimed_ip_len pkt) 0))"
  using assms
  by (simp add: retrieve_ip_header_def header_lengths memcpy_front claimed_ip_len_def ihl_of_bytes
      memcpy_Inr_iff bind_result_eq_Inr Let_def)

lemma retrieve_ip_header_defined:
  assumes "20 \<le> length pkt"
  shows "(\<exists>h. retrieve_ip_header pkt = Inr h) \<longleftrightarrow> claimed_ip_len pkt \<le> 20"
proof
  assume "\<exists>h. retrieve_ip_header pkt = Inr h"
  then show "claimed_ip_len pkt \<le> 20"
    using assms
    by (auto simp: retrieve_ip_header_def header_lengths memcpy_front claimed_ip_len_def
        ihl_of_bytes memcpy_Inr_iff bind_result_eq_Inr Let_def)
next
  assume "claimed_ip_len pkt \<le> 20"
  then show "\<exists>h. retrieve_ip_header pkt = Inr h"
    using retrieve_ip_header_short [OF assms] by blast
qed

section \<open>Which packets can be read\<close>

text \<open>
  C40: What decides whether the headers of a packet can be read, for packets of at least 80 bytes whose
  IP header claims at least its 20 bytes. With IP options each of the three readers copies the header,
  at its full claimed length, into a structure of 20 bytes on the stack. Without, the IP reader and the
  UDP reader return the headers of the packet; the TCP reader does so when the TCP header has no options
  either, overflows its second structure when there are TCP options, and fills up with zeros a TCP
  header that claims less than its 20 bytes.
\<close>
theorem ip_header_read_iff:
  fixes pkt
  defines "iph \<equiv> iphdr_of_bytes pkt" and "segment \<equiv> drop 20 pkt"
    and "tcp_len \<equiv> unat (tcp_doff (tcphdr_of_bytes (drop 20 pkt))) * 4"
  assumes "80 \<le> length pkt" "20 \<le> claimed_ip_len pkt"
  shows "if claimed_ip_len pkt = 20
    then retrieve_ip_header pkt = Inr iph \<and>
      retrieve_ip_udp_header pkt = Inr (iph, udphdr_of_bytes segment) \<and>
      retrieve_ip_tcp_header pkt =
        (if 20 < tcp_len then Inl (Undefined Out_of_bounds_write)
         else if tcp_len = 20 then Inr (iph, tcphdr_of_bytes segment)
         else Inr (iph, tcphdr_of_bytes (take tcp_len segment @ replicate (20 - tcp_len) 0)))
    else retrieve_ip_header pkt = Inl (Undefined Out_of_bounds_write) \<and>
      retrieve_ip_udp_header pkt = Inl (Undefined Out_of_bounds_write) \<and>
      retrieve_ip_tcp_header pkt = Inl (Undefined Out_of_bounds_write)"
proof (cases "claimed_ip_len pkt = 20")
  case True
  have tcp: "tcp_len \<le> 60"
    using unat_nibble_less [of "tcp_doff (tcphdr_of_bytes (drop 20 pkt))"] by (simp add: tcp_len_def)
  show ?thesis
    using True assms(4) retrieve_ip_header_value [of pkt] ip_udp_header_plain [of pkt] ip_tcp_header_plain [of pkt] tcp
      tcp.of_bytes_take [of "drop 20 pkt"]
    unfolding iph_def segment_def tcp_len_def by simp
next
  case False
  have "claimed_ip_len pkt \<le> length pkt"
    using unat_nibble_less [of "low_nibble (pkt ! 0)"] assms(4) by (simp add: claimed_ip_len_def)
  moreover have "20 < claimed_ip_len pkt" using False assms(5) by simp
  ultimately show ?thesis using ip_options_overflow False by simp
qed

text \<open>A packet with IP options, and one with TCP options.\<close>

theorem ip_header_read_iff_witness:
  "retrieve_ip_header (0x46 # replicate 80 0) = Inl (Undefined Out_of_bounds_write) \<and>
   (\<exists>h t. ip_ihl h = 5 \<and> tcp_doff t = 6 \<and>
     retrieve_ip_tcp_header (iphdr_bytes h @ tcphdr_bytes t @ replicate 60 0) = Inl (Undefined Out_of_bounds_write))"
proof -
  let ?h = "iphdr_of_bytes (0x45 # replicate 19 0)"
  let ?t = "\<lparr> tcp_source = 0, tcp_dest = 0, tcp_seq = 0, tcp_ack_seq = 0, tcp_res1 = 0, tcp_doff = 6,
    tcp_flags = 0, tcp_window = 0, tcp_check = 0, tcp_urg_ptr = 0 \<rparr>"
  have h: "ip_ihl ?h = 5" by (simp add: ihl_of_bytes low_nibble_def)
  have "retrieve_ip_tcp_header (iphdr_bytes ?h @ tcphdr_bytes ?t @ replicate 60 0) =
      Inl (Undefined Out_of_bounds_write)"
    using ip_header_read_iff [of "iphdr_bytes ?h @ tcphdr_bytes ?t @ replicate 60 0"] h by simp
  moreover have "retrieve_ip_header (0x46 # replicate 80 0) = Inl (Undefined Out_of_bounds_write)"
    using ip_header_read_iff [of "0x46 # replicate 80 0"] by (simp add: claimed_ip_len_def low_nibble_def)
  ultimately show ?thesis using h by (intro conjI exI [of _ ?h] exI [of _ ?t]) simp_all
qed

text \<open>
  A TCP segment can be read exactly when its header has no options: otherwise the second copy, of
  the length that the data offset claims, overruns the 20-byte structure. A SYN of a common system
  carries options.
\<close>
lemma tcp_header_read_iff:
  assumes "ip_ihl h = 5" "40 \<le> length rest" "5 \<le> unat (tcp_doff t)"
  shows "retrieve_ip_tcp_header (iphdr_bytes h @ tcphdr_bytes t @ rest) =
    (if tcp_doff t = 5 then Inr (h, t) else Inl (Undefined Out_of_bounds_write))"
proof (cases "tcp_doff t = 5")
  case True
  then show ?thesis using retrieve_ip_tcp_header_layout [OF assms(1)] by simp
next
  case False
  let ?tail = "tcphdr_bytes t @ rest"
  have "unat (tcp_doff t) \<noteq> 5"
    using False by (simp add: word_unat_eq_iff)
  then have big: "20 < unat (tcp_doff t) * 4" using assms(3) by simp
  have small: "unat (tcp_doff t) * 4 \<le> length ?tail"
    using unat_nibble_less [of "tcp_doff t"] assms(2) by simp
  have "memcpy (replicate 20 0) 0 (iphdr_bytes h @ ?tail) 20 (unat (tcp_doff t) * 4) =
      Inl (Undefined Out_of_bounds_write)"
    using big small by (simp add: memcpy_def read_bytes_def write_bytes_def)
  then show ?thesis
    using False assms(1) iphdr_of_bytes_bytes [of h "[]"] tcphdr_of_bytes_bytes [of t "[]"]
    by (simp add: retrieve_ip_tcp_header_def header_lengths memcpy_front memcpy_at Let_def)
qed

end
