(* ===== verification/Address.thy ===== *)
theory Address
  imports Packet_Utils
begin

text \<open>
  The address of a service, src/src/db/utils/address.h and address.cpp: the two constructors, the
  parser of \<open>host:port\<close> and the URL. Positions in a string are 64-bit and npos is the largest of
  them, so the sums and differences of the parser wrap as they do in the code.
\<close>

section \<open>std::string\<close>

definition npos :: u64 where
  "npos = - 1"

definition find_first_of :: "string \<Rightarrow> char \<Rightarrow> u64" where
  "find_first_of s c = (if c \<in> set s then of_nat (length (takeWhile (\<lambda>x. x \<noteq> c) s)) else npos)"

definition substr :: "string \<Rightarrow> u64 \<Rightarrow> u64 \<Rightarrow> string result" where
  "substr s pos n =
     (if length s < unat pos then Inl (Throw Out_of_range)
      else Inr (take (unat n) (drop (unat pos) s)))"

section \<open>Addresses\<close>

definition path_separator :: char where
  "path_separator = CHR ''/''"

definition port_separator :: char where
  "port_separator = CHR '':''"

definition http_prefix :: string where
  "http_prefix = ''http://''"

record address =
  addr_text :: string
  addr_port :: u16
  has_http_prefix :: bool

text \<open>strncmp on the first seven characters of the C string.\<close>

definition prefix_check :: "string \<Rightarrow> bool" where
  "prefix_check addr \<longleftrightarrow> take (length http_prefix) (c_str addr) = http_prefix"

definition address_parse :: "bool \<Rightarrow> string \<Rightarrow> address result" where
  "address_parse http url =
     (let found = find_first_of url port_separator
      in bind_result (substr url 0 found) (\<lambda>host.
         let found1 = find_first_of url path_separator
         in bind_result (substr url (found + 1) (found1 - found - 1)) (\<lambda>port_text.
            bind_result (stoul port_text) (\<lambda>n.
            Inr \<lparr> addr_text = host, addr_port = ucast n, has_http_prefix = http \<rparr>))))"

definition address_of_host_port :: "string \<Rightarrow> u16 \<Rightarrow> address" where
  "address_of_host_port host port =
     \<lparr> addr_text = host, addr_port = port, has_http_prefix = prefix_check host \<rparr>"

definition address_of_string :: "string \<Rightarrow> address result" where
  "address_of_string complete =
     (if \<not> prefix_check complete then address_parse False complete
      else (let found = find_first_of complete path_separator
            in bind_result (substr complete 0 found) (\<lambda>protocol.
               bind_result (substr complete (found + 3) npos) (\<lambda>url_new.
               address_parse True url_new))))"

definition get_port :: "address \<Rightarrow> int" where
  "get_port a = uint (addr_port a)"

definition get_address :: "address \<Rightarrow> string" where
  "get_address a = addr_text a"

definition get_URL :: "address \<Rightarrow> string" where
  "get_URL a =
     (if \<not> has_http_prefix a then http_prefix else []) @ addr_text a @ [port_separator] @
     to_string (unat (addr_port a)) @ [path_separator]"

section \<open>Finding and cutting\<close>

lemmas separators = path_separator_def port_separator_def http_prefix_def

lemma unat_npos: "unat npos = 2 ^ 64 - 1"
  by (simp add: npos_def unsigned_minus_1_eq_mask mask_eq_exp_minus_1)

lemma find_first_of_absent: "c \<notin> set s \<Longrightarrow> find_first_of s c = npos"
  by (simp add: find_first_of_def)

lemma find_first_of_append:
  "c \<notin> set xs \<Longrightarrow> find_first_of (xs @ c # ys) c = of_nat (length xs)"
  by (auto simp: find_first_of_def takeWhile_append)

lemma substr_0: "substr s 0 n = Inr (take (unat n) s)"
  by (simp add: substr_def)

lemma substr_from:
  "n < 2 ^ 64 \<Longrightarrow> n \<le> length s \<Longrightarrow> substr s (of_nat n) m = Inr (take (unat m) (drop n s))"
  by (simp add: substr_def unat_of_nat)

text \<open>
  Parsing \<open>host:port\<close>: what follows the port is ignored when it starts with a slash, and the number
  is cut to 16 bits.
\<close>

lemma port_text_len:
  assumes "length host + length port_text + 1 < 2 ^ 63" "CHR ''/'' \<notin> set host"
    "CHR ''/'' \<notin> set port_text" "rest = [] \<or> hd rest = CHR ''/''"
  defines "url \<equiv> host @ CHR '':'' # port_text @ rest"
  shows "take (unat (find_first_of url CHR ''/'' - of_nat (length host) - 1)) (port_text @ rest)
    = port_text"
proof (cases rest)
  case Nil
  have "CHR ''/'' \<notin> set url" using assms Nil by simp
  then have "find_first_of url CHR ''/'' - of_nat (length host) - 1 =
      of_nat (2 ^ 64 - 2 - length host)"
    using assms(1) by (simp add: find_first_of_absent npos_def of_nat_diff)
  moreover have "unat (of_nat (2 ^ 64 - 2 - length host) :: u64) = 2 ^ 64 - 2 - length host"
    by (simp add: unat_of_nat)
  ultimately show ?thesis using assms(1) Nil by simp
next
  case (Cons c cs)
  then have url: "url = (host @ CHR '':'' # port_text) @ CHR ''/'' # cs"
    using assms(4) by (simp add: url_def)
  have "find_first_of url CHR ''/'' = of_nat (length (host @ CHR '':'' # port_text))"
    unfolding url using assms(2,3) by (intro find_first_of_append) simp
  then have "find_first_of url CHR ''/'' - of_nat (length host) - 1 = of_nat (length port_text)"
    by simp
  moreover have "unat (of_nat (length port_text) :: u64) = length port_text"
    using assms(1) by (simp add: unat_of_nat)
  ultimately show ?thesis by simp
qed

lemma address_parse_host_port:
  assumes "length host + length (to_string p) + 1 < 2 ^ 63" "p < 2 ^ 64"
    "CHR '':'' \<notin> set host" "CHR ''/'' \<notin> set host" "rest = [] \<or> hd rest = CHR ''/''"
  shows "address_parse http (host @ CHR '':'' # to_string p @ rest) =
    Inr \<lparr> addr_text = host, addr_port = of_nat p, has_http_prefix = http \<rparr>"
proof -
  let ?url = "host @ CHR '':'' # to_string p @ rest"
  have slash: "CHR ''/'' \<notin> set (to_string p)"
    by (rule to_string_no_char) (simp add: is_digit_def char_code_def)
  have found: "find_first_of ?url CHR '':'' = of_nat (length host)"
    by (rule find_first_of_append [OF assms(3)])
  have host: "unat (of_nat (length host) :: u64) = length host"
    "unat (1 + of_nat (length host) :: u64) = Suc (length host)"
    using assms(1) unat_of_nat [of "Suc (length host)", where 'a = 64]
    by (simp_all add: unat_of_nat)
  have "substr ?url (of_nat (length host) + 1)
      (find_first_of ?url CHR ''/'' - of_nat (length host) - 1) = Inr (to_string p)"
    using port_text_len [OF assms(1,4) slash assms(5)] host by (simp add: substr_def add.commute)
  moreover have "stoul (to_string p) = Inr (of_nat p)"
    using stoul_to_string [of "[]"] assms(2) by simp
  moreover have "ucast (of_nat p :: u64) = (of_nat p :: u16)"
    by (rule bit_word_eqI) (simp add: bit_simps)
  ultimately show ?thesis
    using found host by (simp add: address_parse_def separators substr_0 Let_def)
qed

text \<open>What has the prefix starts with it; \<open>host:port\<close> with a port in digits never does.\<close>

lemma c_str_prefix: "\<exists>z. s = c_str s @ z"
  unfolding c_str_def by (metis takeWhile_dropWhile_id)

lemma prefix_check_iff: "prefix_check s \<longleftrightarrow> (\<exists>z. s = ''http://'' @ z)"
proof
  assume pc: "prefix_check s"
  obtain z where z: "s = c_str s @ z" using c_str_prefix by blast
  have seven: "take 7 (c_str s) = ''http://''"
    using pc by (simp add: prefix_check_def separators numeral_eq_Suc)
  have "c_str s = take 7 (c_str s) @ drop 7 (c_str s)" by (rule append_take_drop_id [symmetric])
  also have "\<dots> = ''http://'' @ drop 7 (c_str s)" by (simp only: seven)
  finally have "s = ''http://'' @ (drop 7 (c_str s) @ z)" using z by (metis append_assoc)
  then show "\<exists>z. s = ''http://'' @ z" by blast
next
  assume "\<exists>z. s = ''http://'' @ z"
  then show "prefix_check s" by (auto simp: prefix_check_def separators c_str_def)
qed

lemma no_prefix_host_port:
  assumes "CHR '':'' \<notin> set host" "is_digit d"
  shows "\<not> prefix_check (host @ CHR '':'' # d # rest)"
proof
  assume "prefix_check (host @ CHR '':'' # d # rest)"
  then obtain z where z: "host @ CHR '':'' # d # rest = ''http'' @ CHR '':'' # ''//'' @ z"
    by (auto simp: prefix_check_iff)
  have "takeWhile (\<lambda>c. c \<noteq> CHR '':'') (host @ CHR '':'' # d # rest) = host"
    using assms(1) by (intro takeWhile_append_stop) auto
  moreover have "takeWhile (\<lambda>c. c \<noteq> CHR '':'') (''http'' @ CHR '':'' # ''//'' @ z) = ''http''"
    by simp
  ultimately have "host = ''http''" using z by simp
  then show False using z assms(2) digit_not_special(6) by simp
qed

section \<open>What the constructors accept\<close>

lemma port_values:
  "unat (of_nat p :: u16) = p mod 2 ^ 16" "uint (of_nat p :: u16) = int (p mod 2 ^ 16)"
  by (simp_all add: unsigned_of_nat take_bit_eq_mod zmod_int)

lemma parsed_address:
  assumes "a = \<lparr> addr_text = host, addr_port = of_nat p, has_http_prefix = http \<rparr>"
  shows "get_address a = host" "get_port a = int (p mod 2 ^ 16)"
    "get_URL a = (if http then [] else ''http://'') @ host @ '':'' @ to_string (p mod 2 ^ 16) @ ''/''"
  using port_values [of p] by (simp_all add: assms get_address_def get_port_def get_URL_def separators)

text \<open>
  A service named \<open>host:port\<close>, with or without a path after it, is read as that host and that
  port (cut to 16 bits), and its URL is http://host:port/ again.
\<close>
lemma address_of_host_port_text:
  assumes "length host + length (to_string p) + 1 < 2 ^ 63" "p < 2 ^ 64"
    "CHR '':'' \<notin> set host" "CHR ''/'' \<notin> set host" "rest = [] \<or> hd rest = CHR ''/''"
  shows "\<exists>a. address_of_string (host @ CHR '':'' # to_string p @ rest) = Inr a \<and>
    get_address a = host \<and> get_port a = int (p mod 2 ^ 16) \<and>
    get_URL a = ''http://'' @ host @ '':'' @ to_string (p mod 2 ^ 16) @ ''/''"
proof -
  obtain d ds where d: "to_string p = d # ds" "is_digit d"
    using to_string_digits [of p] by (cases "to_string p") auto
  have "\<not> prefix_check (host @ CHR '':'' # to_string p @ rest)"
    using no_prefix_host_port [OF assms(3) d(2)] by (simp add: d(1))
  then have "address_of_string (host @ CHR '':'' # to_string p @ rest) =
      Inr \<lparr> addr_text = host, addr_port = of_nat p, has_http_prefix = False \<rparr>"
    using address_parse_host_port [OF assms] unfolding address_of_string_def by presburger
  then show ?thesis using parsed_address [OF refl, of host p False] by auto
qed

text \<open>
  C33: An address http://host:port, with or without a path, is parsed with a host that has lost its
  first character: the first slash found is one of the scheme, and the three characters skipped from
  there are one too many. The URL of the address is that shortened host and its port, without the
  scheme. Here the host has no colon and no slash, and the port follows it, cut to 16 bits.
\<close>
theorem address_with_scheme_loses_first_char:
  assumes "length host + length (to_string p) + 1 < 2 ^ 63" "p < 2 ^ 64"
    "CHR '':'' \<notin> set host" "CHR ''/'' \<notin> set host" "rest = [] \<or> hd rest = CHR ''/''"
  shows "\<exists>a. address_of_string (''http://'' @ c # host @ CHR '':'' # to_string p @ rest) = Inr a \<and>
    get_address a = host \<and> get_port a = int (p mod 2 ^ 16) \<and>
    get_URL a = host @ '':'' @ to_string (p mod 2 ^ 16) @ ''/''"
proof -
  let ?tail = "host @ CHR '':'' # to_string p @ rest"
  let ?s = "''http://'' @ c # ?tail"
  have pc: "prefix_check ?s" by (auto simp: prefix_check_iff)
  have found: "find_first_of ?s CHR ''/'' = 5" by (simp add: find_first_of_def)
  have "substr ?s (5 + 3) npos = Inr (take (2 ^ 64 - 1) ?tail)"
    using unat_npos by (simp add: substr_def)
  moreover obtain n where "take (2 ^ 64 - 1) ?tail = host @ CHR '':'' # to_string p @ take n rest"
  proof -
    let ?A = "host @ CHR '':'' # to_string p"
    have "take (2 ^ 64 - 1) (?A @ rest) = take (2 ^ 64 - 1) ?A @ take (2 ^ 64 - 1 - length ?A) rest"
      by (rule take_append)
    moreover have "take (2 ^ 64 - 1) ?A = ?A" using assms(1) by (intro take_all) simp
    ultimately show thesis using that by (metis append.assoc append_Cons)
  qed
  moreover have "take n rest = [] \<or> hd (take n rest) = CHR ''/''"
    using assms(5) by (cases n; cases rest) auto
  ultimately have "address_of_string ?s =
      Inr \<lparr> addr_text = host, addr_port = of_nat p, has_http_prefix = True \<rparr>"
    using address_parse_host_port [OF assms(1-4)] pc found
    unfolding address_of_string_def path_separator_def Let_def substr_0 by simp
  then show ?thesis using parsed_address [OF refl, of host p True] by auto
qed

theorem address_with_scheme_loses_first_char_witness:
  "\<exists>a. address_of_string (''http://'' @ CHR ''r'' # ''oulette'' @ CHR '':'' # to_string 57 @ ''/db'') = Inr a \<and>
     get_address a = ''oulette'' \<and> get_port a = 57 \<and> get_URL a = ''oulette:57/''"
proof -
  have "to_string 57 = ''57''" by (simp add: to_string.simps [of 57] to_string.simps [of 5] digit_chars)
  then show ?thesis
    using address_with_scheme_loses_first_char [of "''oulette''" 57 "''/db''" "CHR ''r''"] by simp
qed

text \<open>
  A host without a port is not refused: the position after "not found" wraps to the start, and
  the number the host itself begins with is taken for the port. Only a host that starts with no
  number is an error, of the number conversion.
\<close>
lemma address_without_port:
  assumes "length s < 2 ^ 63" "CHR '':'' \<notin> set s" "CHR ''/'' \<notin> set s"
  shows "address_of_string s =
    bind_result (stoul s) (\<lambda>n. Inr \<lparr> addr_text = s, addr_port = ucast n, has_http_prefix = False \<rparr>)"
proof -
  have "\<not> prefix_check s" using assms(2) by (auto simp: prefix_check_iff)
  moreover have "take (unat npos) s = s" using assms(1) unat_npos by simp
  moreover have "npos + 1 = 0" by (simp add: npos_def)
  moreover have "npos - npos - 1 = npos" by (simp add: npos_def)
  ultimately show ?thesis
    using assms(2,3) by (simp add: address_of_string_def address_parse_def separators substr_def
        find_first_of_absent Let_def)
qed

end
