(* ===== verification/Url_Builder.thy ===== *)
theory Url_Builder
  imports Address
begin

text \<open>
  The builder of URLs, src/src/db/utils/urlbuilder.h and urlbuilder.cpp. add_path looks at the last
  character of the last piece, paths[n - 1][size() - 1]; when that piece is empty the index is
  SIZE_MAX and the access is outside the string. A path is a C string, so it ends at a zero
  character.
\<close>

section \<open>The builder\<close>

record url_builder =
  ub_url :: string
  ub_paths :: "string list"

definition new_url_builder :: url_builder where
  "new_url_builder = \<lparr> ub_url = [], ub_paths = [] \<rparr>"

definition set_address :: "address \<Rightarrow> url_builder \<Rightarrow> url_builder" where
  "set_address a b = b \<lparr> ub_url := ub_url b @ get_URL a \<rparr>"

definition first_char :: "string \<Rightarrow> char" where
  "first_char path = (case path of [] \<Rightarrow> CHR 0x00 | c # _ \<Rightarrow> c)"

definition add_path_c :: "string \<Rightarrow> url_builder \<Rightarrow> url_builder result" where
  "add_path_c path b =
     (if ub_paths b = [] then Inr (b \<lparr> ub_paths := ub_paths b @ [path] \<rparr>)
      else if last (ub_paths b) = [] then Inl (Undefined Out_of_bounds_read)
      else (let to_add = (if last (last (ub_paths b)) \<noteq> path_separator \<and>
                             first_char path \<noteq> path_separator
                          then [path_separator] else []) @ path
            in Inr (b \<lparr> ub_paths := ub_paths b @ [to_add] \<rparr>)))"

definition add_path :: "string \<Rightarrow> url_builder \<Rightarrow> url_builder result" where
  "add_path path = add_path_c (c_str path)"

definition build_url :: "url_builder \<Rightarrow> string" where
  "build_url b = ub_url b @ concat (ub_paths b)"

text \<open>A chain of calls \<open>.add_path(p).add_path(q)...\<close>\<close>

fun add_paths :: "string list \<Rightarrow> url_builder \<Rightarrow> url_builder result" where
  "add_paths [] b = Inr b"
| "add_paths (p # ps) b = bind_result (add_path p b) (add_paths ps)"

section \<open>The URL that comes out\<close>

text \<open>A segment: not empty, without a zero character and without a slash.\<close>

definition segment :: "string \<Rightarrow> bool" where
  "segment p \<longleftrightarrow> p \<noteq> [] \<and> CHR 0x00 \<notin> set p \<and> CHR ''/'' \<notin> set p"

fun slash_join :: "string list \<Rightarrow> string" where
  "slash_join [] = []"
| "slash_join [p] = p"
| "slash_join (p # q # ps) = p @ ''/'' @ slash_join (q # ps)"

lemma slash_join_Cons: "ps \<noteq> [] \<Longrightarrow> slash_join (p # ps) = p @ CHR ''/'' # slash_join ps"
  by (cases ps) simp_all

lemma add_path_segment:
  assumes "segment p" "ub_paths b = qs @ [q]" "q \<noteq> []"
  shows "add_path p b = Inr (b \<lparr> ub_paths := ub_paths b @
    [(if last q = CHR ''/'' then [] else ''/'') @ p] \<rparr>)"
proof -
  have "first_char p \<noteq> CHR ''/''" using assms(1) by (cases p) (auto simp: first_char_def segment_def)
  then show ?thesis
    using assms by (simp add: add_path_def add_path_c_def separators segment_def Let_def)
qed

lemma add_paths_join:
  assumes "\<forall>p \<in> set ps. segment p" "ub_paths b = qs @ [q]" "q \<noteq> []" "last q \<noteq> CHR ''/''"
  shows "\<exists>b'. add_paths ps b = Inr b' \<and>
    build_url b' = build_url b @ concat (map (\<lambda>p. CHR ''/'' # p) ps)"
  using assms
proof (induction ps arbitrary: b qs q)
  case (Cons p ps)
  let ?b = "b \<lparr> ub_paths := ub_paths b @ [''/'' @ p] \<rparr>"
  have step: "add_path p b = Inr ?b"
    using add_path_segment [of p b qs q] Cons.prems by simp
  have p: "segment p" using Cons.prems(1) by simp
  then have "last (''/'' @ p) \<noteq> CHR ''/''" by (auto simp: segment_def dest: last_in_set)
  moreover have "ub_paths ?b = (qs @ [q]) @ [''/'' @ p]" using Cons.prems(2) by simp
  ultimately obtain b' where "add_paths ps ?b = Inr b'"
      "build_url b' = build_url ?b @ concat (map (\<lambda>p. CHR ''/'' # p) ps)"
    using Cons.IH [of ?b "qs @ [q]" "''/'' @ p"] Cons.prems(1) by auto
  then show ?case using step by (simp add: build_url_def)
qed simp

lemma slash_join_concat:
  "slash_join (p # ps) = p @ concat (map (\<lambda>q. CHR ''/'' # q) ps)"
  by (induction ps arbitrary: p) (simp_all add: slash_join_Cons)

lemma add_paths_prefix:
  assumes "\<forall>p \<in> set ps. segment p" "CHR 0x00 \<notin> set prefix" "prefix \<noteq> []" "last prefix = CHR ''/''"
    and "ub_paths b0 = []"
  shows "\<exists>b'. add_paths (prefix # ps) b0 = Inr b' \<and> build_url b' = ub_url b0 @ prefix @ slash_join ps"
proof -
  let ?b1 = "b0 \<lparr> ub_paths := [prefix] \<rparr>"
  have first: "add_path prefix b0 = Inr ?b1"
    using assms(2,5) by (simp add: add_path_def add_path_c_def)
  show ?thesis
  proof (cases ps)
    case Nil
    then show ?thesis using first by (simp add: build_url_def)
  next
    case (Cons p qs)
    let ?b2 = "?b1 \<lparr> ub_paths := [prefix, p] \<rparr>"
    have p: "segment p" "last p \<noteq> CHR ''/''" "p \<noteq> []"
      using assms(1) Cons by (auto simp: segment_def dest: last_in_set)
    have second: "add_path p ?b1 = Inr ?b2"
      using add_path_segment [OF p(1), of ?b1 "[]" prefix] assms(3,4) by simp
    obtain b' where "add_paths qs ?b2 = Inr b'"
        "build_url b' = build_url ?b2 @ concat (map (\<lambda>p. CHR ''/'' # p) qs)"
      using add_paths_join [of qs ?b2 "[prefix]" p] assms(1) Cons p by auto
    then show ?thesis
      using first second Cons slash_join_concat [of p qs] by (simp add: build_url_def)
  qed
qed

text \<open>
  A builder that is given a prefix that ends with a slash and then segments is defined and gives
  the address, the prefix and the segments with single slashes between them.
\<close>
lemma url_of_segments:
  assumes "\<forall>p \<in> set ps. segment p" "CHR 0x00 \<notin> set prefix" "prefix \<noteq> []" "last prefix = CHR ''/''"
  shows "\<exists>b'. add_paths (prefix # ps) (set_address a new_url_builder) = Inr b' \<and>
    build_url b' = get_URL a @ prefix @ slash_join ps"
  using add_paths_prefix [OF assms, of "set_address a new_url_builder"]
  by (simp add: set_address_def new_url_builder_def)

text \<open>
  An empty piece is a trap: it is accepted after a slash, but the next piece, whatever it is,
  makes the builder read outside the empty string.
\<close>
lemma empty_piece_reads_outside:
  assumes "prefix \<noteq> []" "last prefix = CHR ''/''" "CHR 0x00 \<notin> set prefix"
  shows "add_paths (prefix # [] # p # ps) (set_address a new_url_builder) =
    Inl (Undefined Out_of_bounds_read)"
  using assms
  by (simp add: add_path_def add_path_c_def set_address_def new_url_builder_def separators)

text \<open>Segments can be read back: a path names the list it was built from.\<close>

lemma slash_join_inj:
  assumes "\<forall>p \<in> set ps. segment p" "\<forall>p \<in> set qs. segment p" "ps \<noteq> []" "qs \<noteq> []"
    and "slash_join ps = slash_join qs"
  shows "ps = qs"
  using assms
proof (induction ps arbitrary: qs)
  case (Cons p ps)
  obtain q qs' where qs: "qs = q # qs'" using Cons.prems(4) by (cases qs) auto
  let ?rest = "\<lambda>xs. concat (map (\<lambda>q. CHR ''/'' # q) xs)"
  have pq: "p @ ?rest ps = q @ ?rest qs'"
    using Cons.prems(5) unfolding qs slash_join_concat by simp
  have hd: "?rest xs = [] \<or> hd (?rest xs) = CHR ''/''" for xs
    by (cases xs) auto
  have "takeWhile (\<lambda>c. c \<noteq> CHR ''/'') (r @ ?rest xs) = r" if "segment r" for r xs
    using that hd [of xs] by (intro takeWhile_append_stop) (auto simp: segment_def)
  then have p: "p = q" using pq Cons.prems(1,2) qs by (metis list.set_intros(1))
  then have rest: "?rest ps = ?rest qs'" using pq by simp
  show ?case
  proof (cases "ps = [] \<or> qs' = []")
    case True
    then have "ps = qs'" using rest by auto
    then show ?thesis using p qs by simp
  next
    case False
    then have "slash_join ps = slash_join qs'"
      using rest by (cases ps; cases qs') (auto simp: slash_join_concat)
    then show ?thesis using Cons.IH [of qs'] Cons.prems(1,2) False p qs by auto
  qed
qed simp

end
