(* ===== verification/Db_Query.thy ===== *)
theory Db_Query
  imports Db_Types Url_Builder
begin

text \<open>
  The client of the route service, src/src/db/dbquery.h and dbquery.cpp: endpoints, queries and
  their builder, and the five requests. The JSON library and the HTTP library are not part of the
  repository. The first is an argument \<open>J\<close>, a record of the functions of Json::Value and of its reader
  that the code calls; the second is an argument \<open>H\<close>, which says for every list of requests sent so
  far what the last one returned. Strings that are handed over as C strings end at a zero character.
\<close>

section \<open>Constants of the protocol\<close>

definition ENDPOINT_PREFIX :: string where "ENDPOINT_PREFIX = ''endpoints/''"
definition ROUTE_PREFIX :: string where "ROUTE_PREFIX = ''routes/''"
definition INGRESS :: string where "INGRESS = ''ingress''"
definition EGRESS :: string where "EGRESS = ''egress''"

definition SRC_IP :: string where "SRC_IP = ''ipSrc''"
definition DST_IP :: string where "DST_IP = ''ipDst''"
definition SRC_PORT :: string where "SRC_PORT = ''portSrc''"
definition DST_PORT :: string where "DST_PORT = ''portDst''"
definition SFC_ID :: string where "SFC_ID = ''idSfc''"
definition PROTOCOL :: string where "PROTOCOL = ''protocol''"
definition SOCK_EGRESS :: string where "SOCK_EGRESS = ''socketIdEgress''"
definition SOCK_INGRESS :: string where "SOCK_INGRESS = ''socketIdIngress''"
definition EGRESS_IP :: string where "EGRESS_IP = ''ipEgress''"
definition INGRESS_IP :: string where "INGRESS_IP = ''ipIngress''"

definition ROUTE_SI :: string where "ROUTE_SI = ''si''"
definition ROUTE_ADDRESS :: string where "ROUTE_ADDRESS = ''url''"
definition ROUTE_PORT :: string where "ROUTE_PORT = ''port''"

definition REPLY_RESULT :: string where "REPLY_RESULT = ''result''"
definition REPLY_OK :: string where "REPLY_OK = ''ok''"
definition REPLY_CONTENT :: string where "REPLY_CONTENT = ''content''"

lemmas json_keys = SRC_IP_def DST_IP_def SRC_PORT_def DST_PORT_def SFC_ID_def PROTOCOL_def
  SOCK_EGRESS_def SOCK_INGRESS_def EGRESS_IP_def INGRESS_IP_def

lemmas url_words = ENDPOINT_PREFIX_def ROUTE_PREFIX_def INGRESS_def EGRESS_def

section \<open>Endpoints and queries\<close>

record db_endpoint =
  ep_ip :: string
  ep_socket_id :: string
  ep_type :: endpoint_type

text \<open>The constructor and the getters of an endpoint.\<close>

definition new_db_endpoint :: "string \<Rightarrow> string \<Rightarrow> endpoint_type \<Rightarrow> db_endpoint" where
  "new_db_endpoint ip socket_id t = \<lparr> ep_ip = ip, ep_socket_id = socket_id, ep_type = t \<rparr>"

definition get_ip :: "db_endpoint \<Rightarrow> string" where
  "get_ip e = ep_ip e"

definition get_socket_id :: "db_endpoint \<Rightarrow> string" where
  "get_socket_id e = ep_socket_id e"

definition get_endpoint_typology :: "db_endpoint \<Rightarrow> endpoint_type" where
  "get_endpoint_typology e = ep_type e"

lemmas db_endpoint_simps [simp] =
  new_db_endpoint_def get_ip_def get_socket_id_def get_endpoint_typology_def

text \<open>
  A query. The constructor that takes endpoints leaves the member type_ uninitialised, which is
  \<open>None\<close> here.
\<close>

record query =
  q_item_id :: string
  q_ip_src :: string
  q_ip_dst :: string
  q_port_src :: u16
  q_port_dst :: u16
  q_prt :: protocol_type
  q_id_sfc :: string
  q_endpoints :: "db_endpoint list"
  q_type :: "endpoint_type option"

text \<open>The two constructors: the one takes the endpoints, the other a type and no endpoint.\<close>

definition new_query :: "string \<Rightarrow> string \<Rightarrow> string \<Rightarrow> u16 \<Rightarrow> u16 \<Rightarrow> protocol_type \<Rightarrow> string \<Rightarrow>
    db_endpoint list \<Rightarrow> query" where
  "new_query item_id src dst psrc pdst prt sfc endpoints =
     \<lparr> q_item_id = item_id, q_ip_src = src, q_ip_dst = dst, q_port_src = psrc, q_port_dst = pdst,
       q_prt = prt, q_id_sfc = sfc, q_endpoints = endpoints, q_type = None \<rparr>"

definition new_query_of_type :: "string \<Rightarrow> string \<Rightarrow> string \<Rightarrow> u16 \<Rightarrow> u16 \<Rightarrow> protocol_type \<Rightarrow> string \<Rightarrow>
    endpoint_type \<Rightarrow> query" where
  "new_query_of_type item_id src dst psrc pdst prt sfc t =
     \<lparr> q_item_id = item_id, q_ip_src = src, q_ip_dst = dst, q_port_src = psrc, q_port_dst = pdst,
       q_prt = prt, q_id_sfc = sfc, q_endpoints = [], q_type = Some t \<rparr>"

record query_builder =
  b_item_id :: string
  b_ip_src :: string
  b_ip_dst :: string
  b_port_src :: u16
  b_port_dst :: u16
  b_prt :: protocol_type
  b_id_sfc :: string
  b_type :: endpoint_type
  b_endpoints :: "db_endpoint list"

text \<open>\<open>Builder()\<close> is value-initialised: the defaulted constructor zeroes the members first.\<close>

definition new_builder :: query_builder where
  "new_builder =
     \<lparr> b_item_id = [], b_ip_src = [], b_ip_dst = [], b_port_src = 0, b_port_dst = 0, b_prt = TCP,
       b_id_sfc = [], b_type = INGRESS_T, b_endpoints = [] \<rparr>"

definition set_item_id :: "string \<Rightarrow> query_builder \<Rightarrow> query_builder" where
  "set_item_id x b = b \<lparr> b_item_id := x \<rparr>"

definition set_ip_src :: "string \<Rightarrow> query_builder \<Rightarrow> query_builder" where
  "set_ip_src x b = b \<lparr> b_ip_src := x \<rparr>"

definition set_ip_dst :: "string \<Rightarrow> query_builder \<Rightarrow> query_builder" where
  "set_ip_dst x b = b \<lparr> b_ip_dst := x \<rparr>"

definition set_port_src :: "u16 \<Rightarrow> query_builder \<Rightarrow> query_builder" where
  "set_port_src x b = b \<lparr> b_port_src := x \<rparr>"

definition set_port_dst :: "u16 \<Rightarrow> query_builder \<Rightarrow> query_builder" where
  "set_port_dst x b = b \<lparr> b_port_dst := x \<rparr>"

definition set_protocol :: "protocol_type \<Rightarrow> query_builder \<Rightarrow> query_builder" where
  "set_protocol x b = b \<lparr> b_prt := x \<rparr>"

definition set_id_sfc :: "string \<Rightarrow> query_builder \<Rightarrow> query_builder" where
  "set_id_sfc x b = b \<lparr> b_id_sfc := x \<rparr>"

definition set_endpoint_type :: "endpoint_type \<Rightarrow> query_builder \<Rightarrow> query_builder" where
  "set_endpoint_type x b = b \<lparr> b_type := x \<rparr>"

text \<open>The first endpoint of the same type is erased, then the new one goes to the end.\<close>

fun replace_endpoint :: "db_endpoint \<Rightarrow> db_endpoint list \<Rightarrow> db_endpoint list \<Rightarrow> db_endpoint list" where
  "replace_endpoint e seen [] = seen @ [e]"
| "replace_endpoint e seen (d # ds) =
     (if get_endpoint_typology d = get_endpoint_typology e then seen @ ds @ [e] else replace_endpoint e (seen @ [d]) ds)"

definition set_endpoint :: "db_endpoint \<Rightarrow> query_builder \<Rightarrow> query_builder" where
  "set_endpoint e b = b \<lparr> b_endpoints := replace_endpoint e [] (b_endpoints b) \<rparr>"

definition build_query :: "query_builder \<Rightarrow> query" where
  "build_query b =
     (if b_endpoints b \<noteq> []
      then new_query (b_item_id b) (b_ip_src b) (b_ip_dst b) (b_port_src b) (b_port_dst b) (b_prt b)
        (b_id_sfc b) (b_endpoints b)
      else new_query_of_type (b_item_id b) (b_ip_src b) (b_ip_dst b) (b_port_src b) (b_port_dst b)
        (b_prt b) (b_id_sfc b) (b_type b))"

lemma build_query_fields:
  "build_query b =
     \<lparr> q_item_id = b_item_id b, q_ip_src = b_ip_src b, q_ip_dst = b_ip_dst b,
       q_port_src = b_port_src b, q_port_dst = b_port_dst b, q_prt = b_prt b,
       q_id_sfc = b_id_sfc b, q_endpoints = b_endpoints b,
       q_type = (if b_endpoints b \<noteq> [] then None else Some (b_type b)) \<rparr>"
  by (simp add: build_query_def new_query_def new_query_of_type_def)

fun find_endpoint :: "endpoint_type \<Rightarrow> db_endpoint list \<Rightarrow> db_endpoint result" where
  "find_endpoint t [] = Inl (Throw (Endpoint_not_found ''Endpoint not found''))"
| "find_endpoint t (e # es) = (if get_endpoint_typology e = t then Inr e else find_endpoint t es)"

definition get_endpoint :: "query \<Rightarrow> endpoint_type \<Rightarrow> db_endpoint result" where
  "get_endpoint q t = find_endpoint t (q_endpoints q)"

text \<open>The getters of a query; the program itself calls none of them.\<close>

definition query_ip_src :: "query \<Rightarrow> string" where
  "query_ip_src q = q_ip_src q"

definition query_ip_dst :: "query \<Rightarrow> string" where
  "query_ip_dst q = q_ip_dst q"

definition query_port_src :: "query \<Rightarrow> u16" where
  "query_port_src q = q_port_src q"

definition query_port_dst :: "query \<Rightarrow> u16" where
  "query_port_dst q = q_port_dst q"

definition query_protocol_type :: "query \<Rightarrow> protocol_type" where
  "query_protocol_type q = q_prt q"

definition query_id_sfc :: "query \<Rightarrow> string" where
  "query_id_sfc q = q_id_sfc q"

definition get_all_endpoints :: "query \<Rightarrow> db_endpoint list" where
  "get_all_endpoints q = q_endpoints q"

lemmas query_getters = query_ip_src_def query_ip_dst_def query_port_src_def query_port_dst_def
  query_protocol_type_def query_id_sfc_def get_all_endpoints_def

text \<open>A query that is built is read back as it was put together.\<close>

lemma built_query_reads_back:
  "query_ip_src (build_query b) = b_ip_src b" "query_ip_dst (build_query b) = b_ip_dst b"
  "query_port_src (build_query b) = b_port_src b" "query_port_dst (build_query b) = b_port_dst b"
  "query_protocol_type (build_query b) = b_prt b" "query_id_sfc (build_query b) = b_id_sfc b"
  "get_all_endpoints (build_query b) = b_endpoints b"
  by (simp_all add: query_getters build_query_fields)

section \<open>Exceptions\<close>

text \<open>
  what() of the three classes under src/db/exceptions: the C string of the message, which the caller
  reads up to its first zero. The text of the exceptions of the libraries is theirs.
\<close>

definition failure_what :: "string \<Rightarrow> string" where
  "failure_what err = c_str err"

definition query_ambiguous_what :: "string \<Rightarrow> string" where
  "query_ambiguous_what err = c_str err"

definition endpoint_not_found_what :: "string \<Rightarrow> string" where
  "endpoint_not_found_what err = c_str err"

fun exn_what :: "exn \<Rightarrow> string option" where
  "exn_what (Failure err) = Some (failure_what err)"
| "exn_what (Query_ambiguous err) = Some (query_ambiguous_what err)"
| "exn_what (Endpoint_not_found err) = Some (endpoint_not_found_what err)"
| "exn_what _ = None"

text \<open>A query that lacks an endpoint says so.\<close>

lemma missing_endpoint_what:
  "find_endpoint t es = Inl f \<Longrightarrow> (case f of Throw x \<Rightarrow> exn_what x | _ \<Rightarrow> None) = Some ''Endpoint not found''"
  by (induction es) (auto simp: endpoint_not_found_what_def c_str_def split: if_splits)

section \<open>The two libraries\<close>

text \<open>
  What the code calls of Json::Value: the null value, values of a string and of an unsigned number,
  operator[] as an assignment and as an access, the comparison with a string, the two conversions,
  the iteration over an array, toStyledString, and the parse of a text by a CharReader. An access
  or a conversion on a value of the wrong kind throws.
\<close>

record 'j json_lib =
  j_null :: 'j
  j_string :: "string \<Rightarrow> 'j"
  j_uint :: "nat \<Rightarrow> 'j"
  j_set :: "'j \<Rightarrow> string \<Rightarrow> 'j \<Rightarrow> 'j"
  j_index :: "'j \<Rightarrow> string \<Rightarrow> 'j result"
  j_eq_string :: "'j \<Rightarrow> string \<Rightarrow> bool"
  j_as_string :: "'j \<Rightarrow> string result"
  j_as_uint :: "'j \<Rightarrow> u32 result"
  j_elements :: "'j \<Rightarrow> 'j list"
  j_styled :: "'j \<Rightarrow> string"
  j_parse :: "string \<Rightarrow> bool \<times> 'j"

record http_request =
  req_method :: string
  req_url :: string
  req_content_type :: "string option"
  req_body :: "string option"

text \<open>
  curl_easy_init after some requests, and curl_easy_perform: \<open>None\<close> is a code other than CURLE_OK,
  \<open>Some cs\<close> the pieces of the body that the write callback is given.
\<close>

record http_lib =
  h_init :: "http_request list \<Rightarrow> bool"
  h_perform :: "http_request list \<Rightarrow> string list option"

text \<open>What the requests leave behind: the ones sent, and the library's objects not yet freed.\<close>

record http_state =
  sent :: "http_request list"
  easy_handles :: nat
  header_lists :: nat

definition no_http :: http_state where
  "no_http = \<lparr> sent = [], easy_handles = 0, header_lists = 0 \<rparr>"

section \<open>Bodies and paths\<close>

definition sanitize :: "string \<Rightarrow> string" where
  "sanitize s = map (\<lambda>c. if c = CHR 0x00 then CHR '' '' else c) s"

definition endpoint_to_json :: "'j json_lib \<Rightarrow> db_endpoint \<Rightarrow> string" where
  "endpoint_to_json J e =
     (let json = (if ep_type e = INGRESS_T
                  then j_set J (j_set J (j_null J) INGRESS_IP (j_string J (ep_ip e)))
                         SOCK_INGRESS (j_string J (ep_socket_id e))
                  else j_set J (j_set J (j_null J) EGRESS_IP (j_string J (ep_ip e)))
                         SOCK_EGRESS (j_string J (ep_socket_id e)))
      in sanitize (j_styled J json))"

definition json_add_endpoint :: "'j json_lib \<Rightarrow> 'j \<Rightarrow> db_endpoint \<Rightarrow> 'j" where
  "json_add_endpoint J json e =
     (if get_endpoint_typology e = INGRESS_T
      then j_set J (j_set J json SOCK_INGRESS (j_string J (get_socket_id e)))
             INGRESS_IP (j_string J (get_ip e))
      else j_set J (j_set J json SOCK_EGRESS (j_string J (get_socket_id e)))
             EGRESS_IP (j_string J (get_ip e)))"

definition query_json :: "'j json_lib \<Rightarrow> query \<Rightarrow> 'j" where
  "query_json J q =
     (let j1 = j_set J (j_null J) SRC_IP (j_string J (q_ip_src q));
          j2 = j_set J j1 DST_IP (j_string J (q_ip_dst q));
          j3 = j_set J j2 SRC_PORT (j_uint J (unat (q_port_src q)));
          j4 = j_set J j3 DST_PORT (j_uint J (unat (q_port_dst q)));
          j5 = j_set J j4 SFC_ID (j_string J (q_id_sfc q));
          j6 = j_set J j5 PROTOCOL (j_string J (if q_prt q = TCP then ''tcp'' else ''udp''))
      in foldl (json_add_endpoint J) j6 (q_endpoints q))"

definition query_to_json :: "'j json_lib \<Rightarrow> query \<Rightarrow> string" where
  "query_to_json J q = sanitize (j_styled J (query_json J q))"

definition query_tail :: "query \<Rightarrow> string list" where
  "query_tail q =
     [q_ip_src q, q_ip_dst q, to_string (unat (q_port_src q)), to_string (unat (q_port_dst q)),
      q_id_sfc q, if q_prt q = TCP then ''tcp'' else ''udp'']"

definition to_url :: "query \<Rightarrow> string result" where
  "to_url q =
     bind_result (add_path ENDPOINT_PREFIX new_url_builder) (\<lambda>b.
     case q_endpoints q of
       [] \<Rightarrow>
         (case q_type q of
            None \<Rightarrow> Inl (Undefined Indeterminate_read)
          | Some t \<Rightarrow>
              bind_result (add_paths ((if t = INGRESS_T then ''ingress'' else ''egress'') #
                query_tail q) b) (\<lambda>b'. Inr (build_url b')))
     | [e] \<Rightarrow>
         bind_result (add_paths ((if get_endpoint_typology e = INGRESS_T then EGRESS else INGRESS) #
           query_tail q @ [get_ip e, get_socket_id e]) b) (\<lambda>b'. Inr (build_url b'))
     | _ \<Rightarrow>
         Inl (Throw (Query_ambiguous
           ''More than one endpoint for thisquery: which shouldI use?'')))"

section \<open>Requests\<close>

type_synonym 'a http = "(http_state, 'a) action"

text \<open>The callback appends size * nmemb bytes, a product of 64 bits.\<close>

definition curl_callback :: "string \<Rightarrow> u64 \<Rightarrow> u64 \<Rightarrow> string \<Rightarrow> u64 \<times> string" where
  "curl_callback ptr size1 nmemb data = (size1 * nmemb, data @ take (unat (size1 * nmemb)) ptr)"

definition receive_body :: "string list \<Rightarrow> string" where
  "receive_body chunks = foldl (\<lambda>data c. snd (curl_callback c 1 (of_nat (length c)) data)) [] chunks"

definition perform_request :: "http_lib \<Rightarrow> http_request \<Rightarrow> string option http" where
  "perform_request H r w =
     (let rs = sent w @ [r]
      in (Inr (map_option receive_body (h_perform H rs)), w \<lparr> sent := rs \<rparr>))"

text \<open>The handle is cleaned up after the request only if the request does not throw.\<close>

definition init_local_res :: "http_lib \<Rightarrow> unit http" where
  "init_local_res H w =
     (if h_init H (sent w) then (Inr (), w \<lparr> easy_handles := easy_handles w + 1 \<rparr>)
      else (Inl (Exit_process 1), w))"

definition clear_local_res :: "unit http" where
  "clear_local_res w = (Inr (), w \<lparr> easy_handles := easy_handles w - 1 \<rparr>)"

definition curl_req_handle :: "http_lib \<Rightarrow> 'a http \<Rightarrow> 'a http" where
  "curl_req_handle H req =
     bind_action (init_local_res H) (\<lambda>_.
     bind_action req (\<lambda>res.
     bind_action clear_local_res (\<lambda>_. return_action res)))"

lemma curl_req_handle_apply:
  "curl_req_handle H req w =
     (if \<not> h_init H (sent w) then (Inl (Exit_process 1), w)
      else bind_action req (\<lambda>x w'. (Inr x, w' \<lparr> easy_handles := easy_handles w' - 1 \<rparr>))
             (w \<lparr> easy_handles := easy_handles w + 1 \<rparr>))"
  by (simp add: curl_req_handle_def init_local_res_def clear_local_res_def bind_action_def
      split: prod.split sum.split)

definition slist_append :: "unit http" where
  "slist_append w = (Inr (), w \<lparr> header_lists := header_lists w + 1 \<rparr>)"

definition slist_free_all :: "unit http" where
  "slist_free_all w = (Inr (), w \<lparr> header_lists := header_lists w - 1 \<rparr>)"

definition is_op_ok :: "'j json_lib \<Rightarrow> string \<Rightarrow> bool result" where
  "is_op_ok J req =
     (case j_parse J req of (read_ok, response) \<Rightarrow>
        if read_ok
        then bind_result (j_index J response REPLY_RESULT) (\<lambda>r. Inr (j_eq_string J r REPLY_OK))
        else Inl (Throw (Failure ''Error while parsing the JSON reply'')))"

definition handle_req :: "string option \<Rightarrow> (string \<Rightarrow> bool result) \<Rightarrow> bool result" where
  "handle_req res cb =
     (case res of
        None \<Rightarrow> Inl (Throw (Failure ''Error while making the requestto route backend''))
      | Some body \<Rightarrow> cb body)"

definition service_url :: "address \<Rightarrow> string list \<Rightarrow> string result" where
  "service_url a paths =
     bind_result (add_paths paths (set_address a new_url_builder)) (\<lambda>b. Inr (build_url b))"

definition make_request :: "string \<Rightarrow> string \<Rightarrow> string option \<Rightarrow> string option \<Rightarrow> http_request" where
  "make_request verb url ctype body =
     \<lparr> req_method = verb, req_url = c_str url, req_content_type = ctype,
       req_body = map_option c_str body \<rparr>"

definition json_header :: "string option" where
  "json_header = Some ''Content-Type: application/json''"

definition create_entry :: "'j json_lib \<Rightarrow> http_lib \<Rightarrow> address \<Rightarrow> query \<Rightarrow> string http" where
  "create_entry J H roulette q =
     curl_req_handle H
      (bind_action (lift_result (service_url roulette [ENDPOINT_PREFIX])) (\<lambda>url.
       bind_action slist_append (\<lambda>_.
       bind_action (perform_request H (make_request ''PUT'' url json_header
         (Some (query_to_json J q)))) (\<lambda>res.
       bind_action slist_free_all (\<lambda>_.
       bind_action (lift_result (handle_req res (is_op_ok J))) (\<lambda>ok.
       if ok
       then lift_result
         (bind_result (j_index J (snd (j_parse J (the res))) REPLY_CONTENT) (\<lambda>content.
          bind_result (j_index J content ''id'') (\<lambda>v.
          j_as_string J v)))
       else return_action []))))))"

definition update_endpoint ::
    "'j json_lib \<Rightarrow> http_lib \<Rightarrow> address \<Rightarrow> query \<Rightarrow> db_endpoint \<Rightarrow> bool http" where
  "update_endpoint J H roulette q to_add =
     curl_req_handle H
      (bind_action (lift_result (to_url q)) (\<lambda>path.
       bind_action (lift_result (service_url roulette [path])) (\<lambda>url.
       bind_action slist_append (\<lambda>_.
       bind_action (perform_request H (make_request ''PUT'' url json_header
         (Some (endpoint_to_json J to_add)))) (\<lambda>res.
       lift_result (handle_req res (is_op_ok J)))))))"

text \<open>The content of a reply as an entry: both endpoints, in this order.\<close>

definition decode_entry :: "'j json_lib \<Rightarrow> 'j \<Rightarrow> query result" where
  "decode_entry J response =
     (let str_at = (\<lambda>j k. bind_result (j_index J j k) (j_as_string J));
          uint_at = (\<lambda>j k. bind_result (j_index J j k) (j_as_uint J))
      in bind_result (j_index J response REPLY_CONTENT) (\<lambda>content.
         bind_result (j_index J content PROTOCOL) (\<lambda>p.
         bind_result (str_at content INGRESS_IP) (\<lambda>iip.
         bind_result (str_at content SOCK_INGRESS) (\<lambda>isock.
         bind_result (str_at content EGRESS_IP) (\<lambda>eip.
         bind_result (str_at content SOCK_EGRESS) (\<lambda>esock.
         bind_result (bind_result (j_index J content ''_id'') (\<lambda>i. str_at i ''$oid'')) (\<lambda>oid.
         bind_result (str_at content SFC_ID) (\<lambda>sfc.
         bind_result (str_at content SRC_IP) (\<lambda>src.
         bind_result (str_at content DST_IP) (\<lambda>dst.
         bind_result (uint_at content SRC_PORT) (\<lambda>psrc.
         bind_result (uint_at content DST_PORT) (\<lambda>pdst.
         let prt = (if j_eq_string J p ''tcp'' then TCP else UDP);
             ingress = new_db_endpoint iip isock INGRESS_T;
             egress = new_db_endpoint eip esock EGRESS_T
         in Inr (build_query (set_endpoint egress (set_endpoint ingress (set_protocol prt
              (set_port_dst (ucast pdst) (set_port_src (ucast psrc) (set_ip_dst dst
              (set_ip_src src (set_id_sfc sfc (set_item_id oid new_builder)))))))))))))))))))))))"

definition get_entry :: "'j json_lib \<Rightarrow> http_lib \<Rightarrow> address \<Rightarrow> string \<Rightarrow> query http" where
  "get_entry J H roulette entry_id =
     curl_req_handle H
      (bind_action (lift_result (service_url roulette [ENDPOINT_PREFIX, entry_id])) (\<lambda>url.
       bind_action (perform_request H (make_request ''GET'' url None None)) (\<lambda>res.
       bind_action (lift_result (handle_req res (is_op_ok J))) (\<lambda>ok.
       if ok then lift_result (decode_entry J (snd (j_parse J (the res))))
       else return_action (build_query new_builder)))))"

definition delete_db_entry :: "'j json_lib \<Rightarrow> http_lib \<Rightarrow> address \<Rightarrow> string \<Rightarrow> bool http" where
  "delete_db_entry J H roulette entry_id =
     curl_req_handle H
      (bind_action (lift_result (service_url roulette [ENDPOINT_PREFIX, entry_id])) (\<lambda>url.
       bind_action (perform_request H (make_request ''DELETE'' url None None)) (\<lambda>res.
       lift_result (handle_req res (is_op_ok J)))))"

fun decode_routes :: "'j json_lib \<Rightarrow> 'j list \<Rightarrow> address list \<Rightarrow> address list result" where
  "decode_routes J [] routes = Inr routes"
| "decode_routes J (a # as) routes =
     bind_result (bind_result (j_index J a ROUTE_ADDRESS) (j_as_string J)) (\<lambda>host.
     bind_result (bind_result (j_index J a ROUTE_PORT) (j_as_uint J)) (\<lambda>port.
     decode_routes J as (routes @ [address_of_host_port host (ucast port)])))"

definition get_route_list ::
    "'j json_lib \<Rightarrow> http_lib \<Rightarrow> address \<Rightarrow> u32 \<Rightarrow> address list http" where
  "get_route_list J H roulette p_id =
     curl_req_handle H
      (bind_action (lift_result (service_url roulette [ROUTE_PREFIX, to_string (unat p_id)])) (\<lambda>url.
       bind_action (perform_request H (make_request ''GET'' url None None)) (\<lambda>res.
       bind_action (lift_result (handle_req res (is_op_ok J))) (\<lambda>ok.
       if ok
       then lift_result
         (bind_result (j_index J (snd (j_parse J (the res))) REPLY_CONTENT) (\<lambda>content.
          bind_result (j_index J content ROUTE_SI) (\<lambda>si. decode_routes J (j_elements J si) [])))
       else return_action []))))"

section \<open>Endpoints of a query\<close>

lemma replace_endpoint_filter:
  "distinct (map ep_type ds) \<Longrightarrow>
     replace_endpoint e seen ds = seen @ filter (\<lambda>d. ep_type d \<noteq> ep_type e) ds @ [e]"
proof (induction e seen ds rule: replace_endpoint.induct)
  case (2 e seen d ds)
  have "filter (\<lambda>x. ep_type x \<noteq> ep_type e) ds = ds" if "ep_type d = ep_type e"
    using 2(2) that by (auto simp: filter_id_conv image_iff)
  then show ?case using 2 by auto
qed simp

text \<open>A builder's endpoints: at most one of each type, so at most two.\<close>

definition one_per_type :: "query_builder \<Rightarrow> bool" where
  "one_per_type b \<longleftrightarrow> distinct (map ep_type (b_endpoints b))"

lemma one_per_type_new [simp]: "one_per_type new_builder"
  by (simp add: one_per_type_def new_builder_def)

lemma endpoint_types: "set (map ep_type es) \<subseteq> {INGRESS_T, EGRESS_T}"
  using endpoint_type.exhaust by blast

lemma find_endpoint_iff:
  "distinct (map ep_type es) \<Longrightarrow> find_endpoint t es = Inr e \<longleftrightarrow> e \<in> set es \<and> ep_type e = t"
  by (induction es) (auto simp: rev_image_eqI)

lemma find_endpoint_filter:
  "t \<noteq> ep_type e \<Longrightarrow>
     find_endpoint t (filter (\<lambda>d. ep_type d \<noteq> ep_type e) ds @ [e]) = find_endpoint t ds"
  by (induction ds) auto

text \<open>
  A query builder holds at most one endpoint of each type: setting one replaces the one of its
  type, keeps the other, and makes it what get_endpoint finds in the query that is built.
\<close>
lemma set_endpoint_replaces:
  assumes "one_per_type b"
  shows "one_per_type (set_endpoint e b) \<and> length (b_endpoints (set_endpoint e b)) \<le> 2 \<and>
    get_endpoint (build_query (set_endpoint e b)) (ep_type e) = Inr e \<and>
    (\<forall>t. t \<noteq> ep_type e \<longrightarrow>
       get_endpoint (build_query (set_endpoint e b)) t = get_endpoint (build_query b) t)"
proof -
  let ?ds = "filter (\<lambda>d. ep_type d \<noteq> ep_type e) (b_endpoints b)"
  have dist: "distinct (map ep_type (b_endpoints b))" using assms by (simp add: one_per_type_def)
  have eps: "b_endpoints (set_endpoint e b) = ?ds @ [e]"
    using replace_endpoint_filter [OF dist, of e "[]"] by (simp add: set_endpoint_def)
  have new: "distinct (map ep_type (?ds @ [e]))"
    using dist by (auto simp: distinct_map_filter)
  have "card (set (map ep_type (?ds @ [e]))) \<le> card {INGRESS_T, EGRESS_T}"
    by (intro card_mono endpoint_types) simp
  then have "length (?ds @ [e]) \<le> 2"
    using distinct_card [OF new] by simp
  moreover have "find_endpoint (ep_type e) (?ds @ [e]) = Inr e"
    using find_endpoint_iff [OF new] by simp
  moreover have "find_endpoint t (?ds @ [e]) = find_endpoint t (b_endpoints b)"
    if "t \<noteq> ep_type e" for t
    using that by (rule find_endpoint_filter)
  ultimately show ?thesis
    using new by (simp add: one_per_type_def eps get_endpoint_def build_query_fields)
qed

section \<open>The path of a query\<close>

text \<open>A query whose text fields can stand in a path.\<close>

definition plain_query :: "query \<Rightarrow> bool" where
  "plain_query q \<longleftrightarrow> segment (q_ip_src q) \<and> segment (q_ip_dst q) \<and> segment (q_id_sfc q) \<and>
     (\<forall>e \<in> set (q_endpoints q). segment (ep_ip e) \<and> segment (ep_socket_id e))"

text \<open>The segments after the prefix.\<close>

definition url_segments :: "query \<Rightarrow> string list" where
  "url_segments q =
     (case q_endpoints q of
        [] \<Rightarrow> (if q_type q = Some INGRESS_T then INGRESS else EGRESS) # query_tail q
      | e # _ \<Rightarrow> (if ep_type e = INGRESS_T then EGRESS else INGRESS) # query_tail q @
                 [ep_ip e, ep_socket_id e])"

lemma segment_to_string [simp]: "segment (to_string n)"
proof -
  have "\<not> is_digit CHR 0x00" "\<not> is_digit CHR ''/''" by (simp_all add: is_digit_def char_code_def)
  then show ?thesis by (simp add: segment_def to_string_no_char)
qed

lemma segment_words [simp]:
  "segment ''tcp''" "segment ''udp''" "segment ''ingress''" "segment ''egress''"
  by (simp_all add: segment_def)

lemma segment_url_segments: "plain_query q \<Longrightarrow> \<forall>p \<in> set (url_segments q). segment p"
  by (auto simp: url_segments_def query_tail_def plain_query_def url_words split: list.splits)

lemma url_segments_not_Nil: "url_segments q \<noteq> []"
  by (simp add: url_segments_def split: list.splits)

lemma to_url_segments:
  assumes "plain_query q" "length (q_endpoints q) \<le> 1" "q_endpoints q = [] \<longrightarrow> q_type q \<noteq> None"
  shows "to_url q = Inr (ENDPOINT_PREFIX @ slash_join (url_segments q))"
proof -
  obtain b' where b': "add_paths (ENDPOINT_PREFIX # url_segments q) new_url_builder = Inr b'"
      "build_url b' = ENDPOINT_PREFIX @ slash_join (url_segments q)"
    using add_paths_prefix [OF segment_url_segments [OF assms(1)], of ENDPOINT_PREFIX new_url_builder]
    by (auto simp: new_url_builder_def url_words)
  from b'(1) obtain b where b: "add_path ENDPOINT_PREFIX new_url_builder = Inr b"
      "add_paths (url_segments q) b = Inr b'"
    by (auto simp: bind_result_eq_Inr)
  show ?thesis
  proof (cases "q_endpoints q")
    case Nil
    then obtain t where "q_type q = Some t" using assms(3) by auto
    then have "url_segments q = (if t = INGRESS_T then ''ingress'' else ''egress'') # query_tail q"
      using Nil by (simp add: url_segments_def url_words)
    then show ?thesis using b b'(2) Nil \<open>q_type q = Some t\<close> by (simp add: to_url_def)
  next
    case (Cons e es)
    then have "es = []" using assms(2) by simp
    with Cons have "url_segments q =
        (if ep_type e = INGRESS_T then EGRESS else INGRESS) # query_tail q @ [ep_ip e, ep_socket_id e]"
      by (simp add: url_segments_def)
    then show ?thesis using b b'(2) Cons \<open>es = []\<close> by (simp add: to_url_def)
  qed
qed

text \<open>
  C27: The path of a query names its connection, when the addresses, the chain and the strings of the
  endpoint are not empty and have no slash and no NUL in them (plain_query): two such queries that
  to_url accepts (no endpoint, or one) with the same path agree on the addresses, the ports, the
  chain, the protocol, and the endpoint or, without one, the kind of endpoint asked for.
\<close>
theorem to_url_identifies_connection:
  assumes "plain_query q" "plain_query r"
    and "length (q_endpoints q) \<le> 1" "length (q_endpoints r) \<le> 1"
    and "q_endpoints q = [] \<longrightarrow> q_type q \<noteq> None" "q_endpoints r = [] \<longrightarrow> q_type r \<noteq> None"
    and "to_url q = to_url r"
  shows "q_ip_src q = q_ip_src r \<and> q_ip_dst q = q_ip_dst r \<and> q_port_src q = q_port_src r \<and>
    q_port_dst q = q_port_dst r \<and> q_id_sfc q = q_id_sfc r \<and> q_prt q = q_prt r \<and>
    q_endpoints q = q_endpoints r \<and> (q_endpoints q = [] \<longrightarrow> q_type q = q_type r)"
proof -
  have "slash_join (url_segments q) = slash_join (url_segments r)"
    using assms(7) to_url_segments [OF assms(1,3,5)] to_url_segments [OF assms(2,4,6)] by simp
  then have eq: "url_segments q = url_segments r"
    by (rule slash_join_inj [OF segment_url_segments [OF assms(1)] segment_url_segments [OF assms(2)]
      url_segments_not_Nil url_segments_not_Nil])
  have prt: "q_prt q = q_prt r" if "(q_prt q = TCP) = (q_prt r = TCP)"
    using that by (cases "q_prt q"; cases "q_prt r") auto
  have tyeq: "t = u" if "(t = INGRESS_T) = (u = INGRESS_T)" for t u :: endpoint_type
    using that by (cases t; cases u) auto
  show ?thesis
  proof (cases "q_endpoints q")
    case Nil
    then have "q_endpoints r = []" using eq by (auto simp: url_segments_def query_tail_def split: list.splits)
    moreover obtain t u where "q_type q = Some t" "q_type r = Some u"
      using assms(5,6) Nil calculation by auto
    ultimately show ?thesis
      using eq Nil prt tyeq [of t u]
      by (auto simp: url_segments_def query_tail_def url_words word_unat_eq_iff split: if_splits)
  next
    case (Cons e es)
    then obtain f fs where r: "q_endpoints r = f # fs"
      using eq by (auto simp: url_segments_def query_tail_def split: list.splits)
    have "es = []" "fs = []" using assms(3,4) Cons r by simp_all
    moreover have "e = f"
      using eq Cons r tyeq [of "ep_type e" "ep_type f"]
      by (cases e; cases f) (auto simp: url_segments_def query_tail_def url_words split: if_splits)
    ultimately show ?thesis
      using eq Cons r prt
      by (auto simp: url_segments_def query_tail_def word_unat_eq_iff split: if_splits)
  qed
qed

theorem to_url_identifies_connection_witness:
  "\<exists>q r. to_url q = to_url r \<and> q \<noteq> r \<and> q_port_src q = q_port_src r \<and> q_port_src q = 4242"
proof -
  let ?q = "build_query (set_port_src 4242 (set_ip_src ''10.0.0.1'' (set_ip_dst ''10.0.0.2''
    (set_id_sfc ''0'' new_builder))))"
  let ?r = "?q \<lparr> q_item_id := ''7'' \<rparr>"
  note unfold = build_query_fields set_port_src_def set_ip_src_def set_ip_dst_def set_id_sfc_def
    new_builder_def
  have plain: "plain_query ?q" "plain_query ?r"
    by (simp_all add: plain_query_def segment_def unfold)
  have "to_url ?q = to_url ?r" by (simp add: to_url_def query_tail_def unfold)
  then have "q_port_src ?q = q_port_src ?r"
    using to_url_identifies_connection [OF plain] by (simp add: unfold)
  then show ?thesis
    using \<open>to_url ?q = to_url ?r\<close>
    by (intro exI [of _ ?q] exI [of _ ?r]) (simp add: unfold)
qed

end
