(* ===== verification/Db_Requests.thy ===== *)
theory Db_Requests
  imports Db_Query
begin

text \<open>
  What the requests of Db_Query do: the body that carries a query reads back as that query, the
  route list keeps the service's order, an entry is deleted under its own path, and every request
  that throws leaves a handle of the HTTP library behind. The laws assumed of the JSON library are
  \<open>json_laws\<close>; \<open>sample_json\<close> is a library that has them, for the witnesses.
\<close>

section \<open>Laws of the JSON library\<close>

inductive_set built :: "'j json_lib \<Rightarrow> 'j set" for J where
  built_null: "j_null J \<in> built J"
| built_set: "v \<in> built J \<Longrightarrow> j_set J v k x \<in> built J"

definition json_laws :: "'j json_lib \<Rightarrow> bool" where
  "json_laws J \<longleftrightarrow>
     (\<forall>v \<in> built J. \<forall>k x. j_index J (j_set J v k x) k = Inr x) \<and>
     (\<forall>v \<in> built J. \<forall>k k' x. k \<noteq> k' \<longrightarrow> j_index J (j_set J v k x) k' = j_index J v k') \<and>
     (\<forall>s. j_as_string J (j_string J s) = Inr s) \<and>
     (\<forall>n. n < 2 ^ 32 \<longrightarrow> j_as_uint J (j_uint J n) = Inr (of_nat n)) \<and>
     (\<forall>s t. j_eq_string J (j_string J s) t \<longleftrightarrow> s = t)"

lemma json_lawsD:
  assumes "json_laws J"
  shows "v \<in> built J \<Longrightarrow> j_index J (j_set J v k x) k = Inr x"
    and "v \<in> built J \<Longrightarrow> k \<noteq> k' \<Longrightarrow> j_index J (j_set J v k x) k' = j_index J v k'"
    and "j_as_string J (j_string J s) = Inr s"
    and "n < 2 ^ 32 \<Longrightarrow> j_as_uint J (j_uint J n) = Inr (of_nat n)"
    and "j_eq_string J (j_string J s) t \<longleftrightarrow> s = t"
  using assms by (auto simp: json_laws_def)

datatype json = JNull | JString string | JUint nat | JObject "(string \<times> json) list" | JArray "json list"

fun sample_set :: "json \<Rightarrow> string \<Rightarrow> json \<Rightarrow> json" where
  "sample_set (JObject kvs) k x = JObject ((k, x) # kvs)"
| "sample_set v k x = JObject [(k, x)]"

fun sample_index :: "json \<Rightarrow> string \<Rightarrow> json result" where
  "sample_index (JObject kvs) k = Inr (case map_of kvs k of None \<Rightarrow> JNull | Some x \<Rightarrow> x)"
| "sample_index JNull k = Inr JNull"
| "sample_index _ k = Inl (Throw Json_logic_error)"

fun sample_as_string :: "json \<Rightarrow> string result" where
  "sample_as_string (JString s) = Inr s"
| "sample_as_string JNull = Inr []"
| "sample_as_string (JUint n) = Inr (to_string n)"
| "sample_as_string _ = Inl (Throw Json_logic_error)"

fun sample_as_uint :: "json \<Rightarrow> u32 result" where
  "sample_as_uint (JUint n) = (if n < 2 ^ 32 then Inr (of_nat n) else Inl (Throw Json_logic_error))"
| "sample_as_uint JNull = Inr 0"
| "sample_as_uint _ = Inl (Throw Json_logic_error)"

fun sample_elements :: "json \<Rightarrow> json list" where
  "sample_elements (JArray vs) = vs"
| "sample_elements _ = []"

definition sample_json :: "(string \<Rightarrow> bool \<times> json) \<Rightarrow> json json_lib" where
  "sample_json parse =
     \<lparr> j_null = JNull, j_string = JString, j_uint = JUint, j_set = sample_set,
       j_index = sample_index, j_eq_string = (\<lambda>v s. v = JString s),
       j_as_string = sample_as_string, j_as_uint = sample_as_uint,
       j_elements = sample_elements, j_styled = (\<lambda>_. ''{}''), j_parse = parse \<rparr>"

lemma sample_built: "v \<in> built (sample_json p) \<Longrightarrow> v = JNull \<or> (\<exists>kvs. v = JObject kvs)"
proof (induction rule: built.induct)
  case (built_set v k x)
  then show ?case by (auto simp: sample_json_def)
qed (simp add: sample_json_def)

lemma json_laws_sample: "json_laws (sample_json p)"
proof -
  have "sample_index (sample_set v k x) k = Inr x"
    "k \<noteq> k' \<Longrightarrow> sample_index (sample_set v k x) k' = sample_index v k'"
    if "v \<in> built (sample_json p)" for v k k' x
    using sample_built [OF that] by auto
  then show ?thesis unfolding json_laws_def by (auto simp: sample_json_def)
qed

section \<open>A query and the entry read back\<close>

lemmas built_intros [simp] = built_null built_set

text \<open>The content of a reply that holds a query's own JSON and an identifier.\<close>

definition stored_content :: "'j json_lib \<Rightarrow> query \<Rightarrow> string \<Rightarrow> 'j" where
  "stored_content J q oid =
     j_set J (query_json J q) ''_id'' (j_set J (j_null J) ''$oid'' (j_string J oid))"

lemma rebuild_query:
  assumes "q_endpoints q = [i, e]" "ep_type i = INGRESS_T" "ep_type e = EGRESS_T"
  shows "build_query (set_endpoint e (set_endpoint i (set_protocol (q_prt q)
      (set_port_dst (q_port_dst q) (set_port_src (q_port_src q) (set_ip_dst (q_ip_dst q)
      (set_ip_src (q_ip_src q) (set_id_sfc (q_id_sfc q) (set_item_id oid new_builder))))))))) =
    q \<lparr> q_item_id := oid, q_type := None \<rparr>"
  using assms
  by (cases q) (simp add: build_query_fields set_endpoint_def set_protocol_def set_port_dst_def
      set_port_src_def set_ip_dst_def set_ip_src_def set_id_sfc_def set_item_id_def new_builder_def)

lemma port_via_u32: "unat p < 2 ^ 32" "ucast (ucast p :: u32) = p" for p :: u16
  using unat_u16_less [of p] by (simp, intro bit_word_eqI, simp add: bit_simps)

text \<open>
  C26: What create_entry sends for a connection with both endpoints, the one of Ingress and then the
  one of Egress, is what get_entry reads back, when the service returns it as it was sent with an
  identifier of its own: every field, the two endpoints and the ports included, for any JSON library
  whose objects return what was put in them.
\<close>
theorem entry_roundtrip:
  assumes "json_laws J" "q_endpoints q = [i, e]" "ep_type i = INGRESS_T" "ep_type e = EGRESS_T"
    and "j_index J response REPLY_CONTENT = Inr (stored_content J q oid)"
  shows "decode_entry J response = Inr (q \<lparr> q_item_id := oid, q_type := None \<rparr>)"
proof -
  note laws = json_lawsD [OF assms(1)]
  have ends: "\<lparr> ep_ip = ep_ip i, ep_socket_id = ep_socket_id i, ep_type = INGRESS_T \<rparr> = i"
    "\<lparr> ep_ip = ep_ip e, ep_socket_id = ep_socket_id e, ep_type = EGRESS_T \<rparr> = e"
    using assms(3,4) by simp_all
  show ?thesis
    using rebuild_query [OF assms(2-4), of oid] assms(5) port_via_u32
    by (cases "q_prt q") (simp_all add: assms(2-4) decode_entry_def stored_content_def query_json_def
        json_add_endpoint_def json_keys laws ends Let_def)
qed

theorem entry_roundtrip_witness:
  "\<exists>q r. decode_entry (sample_json (\<lambda>_. (True, JNull))) r =
    Inr (q \<lparr> q_item_id := ''9'', q_type := None \<rparr>) \<and> q_port_dst q = 443"
proof -
  let ?J = "sample_json (\<lambda>_. (True, JNull))"
  let ?i = "\<lparr> ep_ip = ''10.0.0.1:8000'', ep_socket_id = ''4'', ep_type = INGRESS_T \<rparr>"
  let ?e = "\<lparr> ep_ip = ''10.0.0.2:8001'', ep_socket_id = ''5'', ep_type = EGRESS_T \<rparr>"
  let ?q = "build_query (set_endpoint ?e (set_endpoint ?i (set_port_dst 443 new_builder)))"
  let ?r = "JObject [(''content'', stored_content ?J ?q ''9'')]"
  have q: "q_endpoints ?q = [?i, ?e]" "q_port_dst ?q = 443"
    by (simp_all add: build_query_fields set_endpoint_def set_port_dst_def new_builder_def)
  have "j_index ?J ?r REPLY_CONTENT = Inr (stored_content ?J ?q ''9'')"
    by (simp add: sample_json_def REPLY_CONTENT_def)
  then have "decode_entry ?J ?r = Inr (?q \<lparr> q_item_id := ''9'', q_type := None \<rparr>)"
    by (intro entry_roundtrip [OF json_laws_sample q(1)]) simp_all
  with q(2) show ?thesis by blast
qed

section \<open>Handles\<close>

lemma keeps_if [intro]: "keeps P m \<Longrightarrow> keeps P n \<Longrightarrow> keeps P (if c then m else n)"
  by simp

lemma keeps_perform [intro, simp]: "keeps (\<lambda>w. easy_handles w = n) (perform_request H r)"
  by (simp add: keeps_def perform_request_def Let_def)

lemma keeps_slist [intro, simp]:
  "keeps (\<lambda>w. easy_handles w = n) slist_append" "keeps (\<lambda>w. easy_handles w = n) slist_free_all"
  by (simp_all add: keeps_def slist_append_def slist_free_all_def)

lemma curl_req_handle_balance:
  assumes "\<And>n. keeps (\<lambda>w. easy_handles w = n) req" "h_init H (sent w)"
  shows "easy_handles (snd (curl_req_handle H req w)) =
    easy_handles w + (if isl (fst (curl_req_handle H req w)) then 1 else 0)"
proof -
  let ?w = "w \<lparr> easy_handles := easy_handles w + 1 \<rparr>"
  have "easy_handles (snd (req ?w)) = easy_handles w + 1"
    using keepsD [OF assms(1), of ?w "easy_handles w + 1"] by simp
  then show ?thesis
    using assms(2)
    by (cases "req ?w"; cases "fst (req ?w)") (simp_all add: curl_req_handle_apply bind_action_def)
qed

text \<open>
  C36: When curl gives a handle, a request that returns has given its handle back; one that throws
  (the service cannot be reached, its reply is no JSON or has the wrong shape, the query is
  ambiguous) has not, for any of the five requests.
\<close>
theorem handles_leak_on_throw:
  assumes "h_init H (sent w)"
  shows
    "easy_handles (snd (create_entry J H a q w)) =
       easy_handles w + (if isl (fst (create_entry J H a q w)) then 1 else 0) \<and>
     easy_handles (snd (update_endpoint J H a q e w)) =
       easy_handles w + (if isl (fst (update_endpoint J H a q e w)) then 1 else 0) \<and>
     easy_handles (snd (get_entry J H a i w)) =
       easy_handles w + (if isl (fst (get_entry J H a i w)) then 1 else 0) \<and>
     easy_handles (snd (delete_db_entry J H a i w)) =
       easy_handles w + (if isl (fst (delete_db_entry J H a i w)) then 1 else 0) \<and>
     easy_handles (snd (get_route_list J H a p w)) =
       easy_handles w + (if isl (fst (get_route_list J H a p w)) then 1 else 0)"
  unfolding create_entry_def update_endpoint_def get_entry_def delete_db_entry_def get_route_list_def
  by (intro conjI curl_req_handle_balance assms keeps_bind keeps_lift keeps_return keeps_perform
      keeps_slist keeps_if)

definition silent_service :: http_lib where
  "silent_service = \<lparr> h_init = (\<lambda>_. True), h_perform = (\<lambda>_. None) \<rparr>"

definition home_address :: address where
  "home_address = \<lparr> addr_text = ''h'', addr_port = 80, has_http_prefix = False \<rparr>"

theorem handles_leak_on_throw_witness:
  "easy_handles (snd (delete_db_entry (sample_json (\<lambda>_. (True, JNull))) silent_service home_address
    ''7'' no_http)) = 1"
proof -
  let ?J = "sample_json (\<lambda>_. (True, JNull))"
  have ok: "h_init silent_service (sent no_http)" by (simp add: silent_service_def)
  have "isl (fst (delete_db_entry ?J silent_service home_address ''7'' no_http))"
    by (simp add: delete_db_entry_def curl_req_handle_apply service_url_def add_path_def add_path_c_def
        silent_service_def perform_request_def handle_req_def bind_action_def url_words
        set_address_def new_url_builder_def separators no_http_def Let_def)
  then show ?thesis
    using handles_leak_on_throw [OF ok, of ?J home_address undefined undefined "''7''" 0]
    by (simp add: no_http_def)
qed

section \<open>Single requests\<close>

lemma service_url_segments:
  assumes "\<forall>p \<in> set ps. segment p" "prefix = ENDPOINT_PREFIX \<or> prefix = ROUTE_PREFIX"
  shows "service_url a (prefix # ps) = Inr (get_URL a @ prefix @ slash_join ps)"
proof -
  have prefix: "CHR 0x00 \<notin> set prefix" "prefix \<noteq> []" "last prefix = CHR ''/''"
    using assms(2) by (auto simp: url_words)
  obtain b' where "add_paths (prefix # ps) (set_address a new_url_builder) = Inr b'"
      "build_url b' = get_URL a @ prefix @ slash_join ps"
    using add_paths_prefix [OF assms(1) prefix, of "set_address a new_url_builder"]
    by (auto simp: set_address_def new_url_builder_def)
  then show ?thesis by (simp add: service_url_def del: add_paths.simps)
qed

text \<open>The value of a reply that is read: \<open>True\<close> exactly for a result "ok".\<close>

definition reply_value :: "'j json_lib \<Rightarrow> http_lib \<Rightarrow> http_request list \<Rightarrow> bool result" where
  "reply_value J H rs = handle_req (map_option receive_body (h_perform H rs)) (is_op_ok J)"

lemma receive_body_concat:
  assumes "\<forall>c \<in> set cs. length c < 2 ^ 64"
  shows "receive_body cs = concat cs"
proof -
  have "foldl (\<lambda>data c. snd (curl_callback c 1 (of_nat (length c)) data)) d cs = d @ concat cs" for d
    using assms
    by (induction cs arbitrary: d) (simp_all add: curl_callback_def unsigned_of_nat take_bit_nat_eq_self)
  then show ?thesis by (simp add: receive_body_def)
qed

lemma delete_request:
  assumes "entry_id = [] \<or> segment entry_id" "h_init H (sent w)" "CHR 0x00 \<notin> set (addr_text a)"
  shows "\<exists>r. req_method r = ''DELETE'' \<and> req_url r = get_URL a @ ''endpoints/'' @ entry_id \<and>
    fst (delete_db_entry J H a entry_id w) = reply_value J H (sent w @ [r]) \<and>
    sent (snd (delete_db_entry J H a entry_id w)) = sent w @ [r]"
proof -
  let ?url = "get_URL a @ ''endpoints/'' @ entry_id"
  let ?r = "make_request ''DELETE'' ?url None None"
  have url: "service_url a [ENDPOINT_PREFIX, entry_id] = Inr ?url"
  proof (cases "entry_id = []")
    case True
    then show ?thesis
      by (simp add: service_url_def add_path_def add_path_c_def url_words set_address_def
          new_url_builder_def separators build_url_def)
  next
    case False
    then show ?thesis
      using assms(1) service_url_segments [of "[entry_id]" ENDPOINT_PREFIX a] by (simp add: url_words)
  qed
  have "CHR 0x00 \<notin> set ?url"
    using assms(1,3) segment_to_string [of "unat (addr_port a)"]
    by (auto simp: get_URL_def separators segment_def)
  from c_str_id [OF this] have r: "req_url ?r = ?url"
    by (simp only: make_request_def http_request.simps)
  have "delete_db_entry J H a entry_id w =
      (case reply_value J H (sent w @ [?r]) of
         Inl f \<Rightarrow> (Inl f, w \<lparr> sent := sent w @ [?r], easy_handles := easy_handles w + 1 \<rparr>)
       | Inr b \<Rightarrow> (Inr b, w \<lparr> sent := sent w @ [?r], easy_handles := easy_handles w \<rparr>))"
    using assms(2) url
    by (simp add: delete_db_entry_def curl_req_handle_apply perform_request_def reply_value_def
        bind_action_def Let_def split: sum.split)
  then show ?thesis
    using r by (intro exI [of _ ?r]) (simp add: make_request_def split: sum.split)
qed

section \<open>The route of a chain\<close>

definition route_node :: "'j json_lib \<Rightarrow> 'j \<Rightarrow> string \<times> u32 \<Rightarrow> bool" where
  "route_node J v hp \<longleftrightarrow>
     bind_result (j_index J v ROUTE_ADDRESS) (j_as_string J) = Inr (fst hp) \<and>
     bind_result (j_index J v ROUTE_PORT) (j_as_uint J) = Inr (snd hp)"

lemma decode_routes_nodes:
  assumes "list_all2 (route_node J) vs hps"
  shows "decode_routes J vs rs =
    Inr (rs @ map (\<lambda>(h, p). address_of_host_port h (ucast p)) hps)"
  using assms
proof (induction vs hps arbitrary: rs rule: list_all2_induct)
  case (Cons v vs hp hps)
  then show ?case by (cases hp) (simp add: route_node_def)
qed simp

text \<open>A reply whose text parses to an object with result "ok" and a content.\<close>

definition ok_reply :: "'j json_lib \<Rightarrow> string \<Rightarrow> 'j \<Rightarrow> bool" where
  "ok_reply J body content \<longleftrightarrow>
     (\<exists>response r. j_parse J body = (True, response) \<and>
        j_index J response REPLY_RESULT = Inr r \<and> j_eq_string J r REPLY_OK \<and>
        j_index J response REPLY_CONTENT = Inr content)"

lemma ok_reply_value:
  assumes "h_perform H rs = Some cs" "ok_reply J (receive_body cs) content"
  shows "reply_value J H rs = Inr True"
  using assms by (auto simp: reply_value_def handle_req_def is_op_ok_def ok_reply_def)

text \<open>
  Asking for the route of chain p sends one GET of routes/p and returns the nodes of the reply in
  the service's order, each with its host and with its port cut to 16 bits.
\<close>
lemma route_list_of_reply:
  assumes "h_init H (sent w)" "CHR 0x00 \<notin> set (addr_text a)"
    and "\<And>r. req_url r = get_URL a @ ''routes/'' @ to_string (unat p) \<Longrightarrow>
      h_perform H (sent w @ [r]) = Some cs"
    and "ok_reply J (receive_body cs) content"
    and "j_index J content ROUTE_SI = Inr si" "list_all2 (route_node J) (j_elements J si) hps"
  shows "fst (get_route_list J H a p w) =
    Inr (map (\<lambda>(h, n). address_of_host_port h (ucast n)) hps)"
proof -
  let ?url = "get_URL a @ ''routes/'' @ to_string (unat p)"
  let ?r = "make_request ''GET'' ?url None None"
  have url: "service_url a [ROUTE_PREFIX, to_string (unat p)] = Inr ?url"
    using service_url_segments [of "[to_string (unat p)]" ROUTE_PREFIX a] by (simp add: url_words)
  have "CHR 0x00 \<notin> set ?url"
    using assms(2) segment_to_string [of "unat (addr_port a)"] segment_to_string [of "unat p"]
    by (auto simp: get_URL_def separators segment_def)
  from c_str_id [OF this] have r: "req_url ?r = ?url"
    by (simp only: make_request_def http_request.simps)
  have perform: "h_perform H (sent w @ [?r]) = Some cs" by (rule assms(3) [OF r])
  obtain response where resp: "j_parse J (receive_body cs) = (True, response)"
      "j_index J response REPLY_CONTENT = Inr content"
    using assms(4) by (auto simp: ok_reply_def)
  have "handle_req (Some (receive_body cs)) (is_op_ok J) = Inr True"
    using ok_reply_value [OF perform assms(4)] perform by (simp add: reply_value_def)
  then show ?thesis
    using assms(1,5) url perform resp decode_routes_nodes [OF assms(6), of "[]"]
    by (simp add: get_route_list_def curl_req_handle_apply perform_request_def bind_action_def Let_def)
qed

definition sample_route_reply :: json where
  "sample_route_reply = JObject [(''result'', JString ''ok''), (''content'', JObject [(''si'', JArray
     [JObject [(''url'', JString ''10.1.0.1''), (''port'', JUint 57)],
      JObject [(''url'', JString ''10.1.0.2''), (''port'', JUint 65594)]])])]"

end
