(* ===== verification/Std_Map.thy ===== *)
theory Std_Map
  imports Prelude "HOL-Library.Tree"
begin

text \<open>
  std::map with a caller's comparator, as far as the program uses it: find, at, insert, the
  subscript and erase by key. A map is a search tree; every operation descends it by the comparator
  alone, as the library's red-black tree does, and names a position in the order of the entries.
  The shape the tree has after an insertion or a removal is the library's business: it is the
  argument \<open>reb\<close>, of which only \<open>rebalances\<close> is used, that it keeps the entries and their
  order. Nothing here assumes that the comparator is an order. What a map promises is proved inside
  the locale \<open>map_order\<close>, for keys on which it is one.
\<close>

section \<open>Positions\<close>

type_synonym ('k, 'v) std_map = "('k \<times> 'v) tree"
type_synonym ('k, 'v) shape = "('k, 'v) std_map \<Rightarrow> ('k \<times> 'v) list \<Rightarrow> ('k, 'v) std_map"
type_synonym 'k less = "'k \<Rightarrow> 'k \<Rightarrow> bool"

definition rebalances :: "('k, 'v) shape \<Rightarrow> bool" where
  "rebalances reb \<longleftrightarrow> (\<forall>t xs. inorder (reb t xs) = xs)"

definition key_at :: "('k, 'v) std_map \<Rightarrow> nat \<Rightarrow> 'k" where
  "key_at t i = fst (inorder t ! i)"

fun lower_bound :: "'k less \<Rightarrow> ('k, 'v) std_map \<Rightarrow> 'k \<Rightarrow> nat" where
  "lower_bound lt Leaf k = 0"
| "lower_bound lt (Node l (a, v) r) k =
     (if lt a k then size l + 1 + lower_bound lt r k else lower_bound lt l k)"

fun upper_bound :: "'k less \<Rightarrow> ('k, 'v) std_map \<Rightarrow> 'k \<Rightarrow> nat" where
  "upper_bound lt Leaf k = 0"
| "upper_bound lt (Node l (a, v) r) k =
     (if lt k a then upper_bound lt l k else size l + 1 + upper_bound lt r k)"

fun equal_range :: "'k less \<Rightarrow> ('k, 'v) std_map \<Rightarrow> 'k \<Rightarrow> nat \<times> nat" where
  "equal_range lt Leaf k = (0, 0)"
| "equal_range lt (Node l (a, v) r) k =
     (if lt a k then (let (lo, hi) = equal_range lt r k in (size l + 1 + lo, size l + 1 + hi))
      else if lt k a then equal_range lt l k
      else (lower_bound lt l k, size l + 1 + upper_bound lt r k))"

section \<open>Operations\<close>

definition map_find :: "'k less \<Rightarrow> ('k, 'v) std_map \<Rightarrow> 'k \<Rightarrow> ('k \<times> 'v) option" where
  "map_find lt t k =
     (let i = lower_bound lt t k
      in if i < size t \<and> \<not> lt k (key_at t i) then Some (inorder t ! i) else None)"

definition map_at :: "'k less \<Rightarrow> ('k, 'v) std_map \<Rightarrow> 'k \<Rightarrow> 'v result" where
  "map_at lt t k = (case map_find lt t k of None \<Rightarrow> Inl (Throw Out_of_range) | Some e \<Rightarrow> Inr (snd e))"

text \<open>
  Where a new entry goes: its position and \<open>True\<close>, or the position of an entry that counts as
  equal and \<open>False\<close>.
\<close>

definition insert_unique_pos :: "'k less \<Rightarrow> ('k, 'v) std_map \<Rightarrow> 'k \<Rightarrow> nat \<times> bool" where
  "insert_unique_pos lt t k =
     (let p = upper_bound lt t k
      in if p = 0 \<or> lt (key_at t (p - 1)) k then (p, True) else (p - 1, False))"

definition insert_at :: "nat \<Rightarrow> 'a \<Rightarrow> 'a list \<Rightarrow> 'a list" where
  "insert_at p x xs = take p xs @ x # drop p xs"

definition map_insert ::
    "'k less \<Rightarrow> ('k, 'v) shape \<Rightarrow> ('k, 'v) std_map \<Rightarrow> 'k \<Rightarrow> 'v \<Rightarrow> ('k, 'v) std_map" where
  "map_insert lt reb t k v =
     (case insert_unique_pos lt t k of
        (p, fresh) \<Rightarrow> if fresh then reb t (insert_at p (k, v) (inorder t)) else t)"

text \<open>
  The subscript finds the lower bound and, if that is not the key, inserts a default value with the
  bound as a hint; the hint is taken when the comparator agrees with it on both sides.
\<close>

definition hint_pos :: "'k less \<Rightarrow> ('k, 'v) std_map \<Rightarrow> nat \<Rightarrow> 'k \<Rightarrow> nat \<times> bool" where
  "hint_pos lt t i k =
     (if i = size t
      then (if 0 < size t \<and> lt (key_at t (i - 1)) k then (i, True) else insert_unique_pos lt t k)
      else if i = 0 \<or> lt (key_at t (i - 1)) k then (i, True)
      else insert_unique_pos lt t k)"

definition map_subscript ::
    "'k less \<Rightarrow> ('k, 'v) shape \<Rightarrow> 'v \<Rightarrow> ('k, 'v) std_map \<Rightarrow> 'k \<Rightarrow> ('k, 'v) std_map \<times> nat" where
  "map_subscript lt reb d t k =
     (let i = lower_bound lt t k
      in if i < size t \<and> \<not> lt k (key_at t i) then (t, i)
         else (case hint_pos lt t i k of
                 (p, fresh) \<Rightarrow> (if fresh then reb t (insert_at p (k, d) (inorder t)) else t, p)))"

fun set_value :: "('k, 'v) std_map \<Rightarrow> nat \<Rightarrow> 'v \<Rightarrow> ('k, 'v) std_map" where
  "set_value Leaf i v = Leaf"
| "set_value (Node l (a, w) r) i v =
     (if i < size l then Node (set_value l i v) (a, w) r
      else if i = size l then Node l (a, v) r
      else Node l (a, w) (set_value r (i - size l - 1) v))"

definition map_assign ::
    "'k less \<Rightarrow> ('k, 'v) shape \<Rightarrow> 'v \<Rightarrow> ('k, 'v) std_map \<Rightarrow> 'k \<Rightarrow> 'v \<Rightarrow> ('k, 'v) std_map" where
  "map_assign lt reb d t k v = (case map_subscript lt reb d t k of (t', i) \<Rightarrow> set_value t' i v)"

definition map_get ::
    "'k less \<Rightarrow> ('k, 'v) shape \<Rightarrow> 'v \<Rightarrow> ('k, 'v) std_map \<Rightarrow> 'k \<Rightarrow> 'v \<times> ('k, 'v) std_map" where
  "map_get lt reb d t k = (case map_subscript lt reb d t k of (t', i) \<Rightarrow> (snd (inorder t' ! i), t'))"

definition map_erase ::
    "'k less \<Rightarrow> ('k, 'v) shape \<Rightarrow> ('k, 'v) std_map \<Rightarrow> 'k \<Rightarrow> ('k, 'v) std_map" where
  "map_erase lt reb t k =
     (case equal_range lt t k of
        (lo, hi) \<Rightarrow> if lo = hi then t else reb t (take lo (inorder t) @ drop hi (inorder t)))"

text \<open>A shape to evaluate with: the entries in a chain to the right.\<close>

fun chain :: "'a list \<Rightarrow> 'a tree" where
  "chain [] = Leaf"
| "chain (x # xs) = Node Leaf x (chain xs)"

definition chain_shape :: "('k, 'v) shape" where
  "chain_shape t xs = chain xs"

lemma inorder_chain [simp]: "inorder (chain xs) = xs"
  by (induction xs) auto

lemma rebalances_chain: "rebalances chain_shape"
  by (simp add: rebalances_def chain_shape_def)

lemma inorder_shape: "rebalances reb \<Longrightarrow> inorder (reb t xs) = xs"
  by (simp add: rebalances_def)

section \<open>Facts that need no order\<close>

lemma length_inorder_size [simp]: "length (inorder t) = size t"
  by (rule length_inorder)

lemma lower_bound_le: "lower_bound lt t k \<le> size t"
  by (induction lt t k rule: lower_bound.induct) auto

lemma upper_bound_le: "upper_bound lt t k \<le> size t"
  by (induction lt t k rule: upper_bound.induct) auto

lemma key_at_Node:
  "key_at (Node l (a, v) r) i =
     (if i < size l then key_at l i else if i = size l then a else key_at r (i - size l - 1))"
  by (auto simp: key_at_def nth_append nth_Cons')

lemma lower_bound_not_less:
  "lower_bound lt t k < size t \<Longrightarrow> \<not> lt (key_at t (lower_bound lt t k)) k"
proof (induction lt t k rule: lower_bound.induct)
  case (2 lt l a v r k)
  show ?case
  proof (cases "lt a k")
    case True
    with 2 show ?thesis by (simp add: key_at_Node)
  next
    case False
    with 2 lower_bound_le [of lt l k] show ?thesis
      by (cases "lower_bound lt l k = size l") (simp_all add: key_at_Node)
  qed
qed simp

text \<open>
  A comparator under which any two different keys are ordered one way or the other never makes find
  answer with another key's entry, whatever the tree looks like. (It may miss the key.)
\<close>

lemma map_find_sound:
  assumes "\<And>a b. a \<noteq> b \<Longrightarrow> lt a b \<or> lt b a" "map_find lt t k = Some e"
  shows "e \<in> set (inorder t) \<and> fst e = k"
proof -
  let ?i = "lower_bound lt t k"
  have i: "?i < size t" "\<not> lt k (key_at t ?i)" "e = inorder t ! ?i"
    using assms(2) by (auto simp: map_find_def Let_def split: if_splits)
  then have "key_at t ?i = k"
    using lower_bound_not_less [of lt t k] assms(1) by metis
  moreover have "e \<in> set (inorder t)"
    using i nth_mem [of ?i "inorder t"] by simp
  ultimately show ?thesis using i by (simp add: key_at_def)
qed

lemma inorder_set_value:
  "inorder (set_value t i v) = (if i < size t then (inorder t)[i := (key_at t i, v)] else inorder t)"
proof (induction t i v rule: set_value.induct)
  case (2 l a w r i v)
  consider "i < size l" | "i = size l" | j where "i = size l + 1 + j"
    by (metis add.assoc add.commute less_linear less_iff_Suc_add plus_1_eq_Suc)
  then show ?case
    using 2 by cases (simp_all add: list_update_append key_at_Node)
qed simp

text \<open>Whatever the comparator, an insertion adds its own entry at most and a removal adds none.\<close>

lemma map_insert_subset:
  "rebalances reb \<Longrightarrow> set (inorder (map_insert lt reb t k v)) \<subseteq> insert (k, v) (set (inorder t))"
  by (auto simp: map_insert_def insert_at_def inorder_shape simp del: set_inorder
      split: prod.split dest: in_set_takeD in_set_dropD)

lemma map_erase_subset:
  "rebalances reb \<Longrightarrow> set (inorder (map_erase lt reb t k)) \<subseteq> set (inorder t)"
  by (auto simp: map_erase_def inorder_shape simp del: set_inorder
      split: prod.split dest: in_set_takeD in_set_dropD)

text \<open>The map of a list of entries with distinct keys, around one of them.\<close>

lemma map_of_absent: "k \<notin> fst ` set A \<Longrightarrow> map_of A k = None"
  by (simp add: map_of_eq_None_iff)

lemma map_of_insert_mid:
  "k \<notin> fst ` set A \<Longrightarrow> map_of (A @ (k, v) # B) = (map_of (A @ B))(k \<mapsto> v)"
  by (induction A) (auto simp: fun_eq_iff)

lemma map_of_remove_mid:
  "k \<notin> fst ` set A \<Longrightarrow> k \<notin> fst ` set B \<Longrightarrow>
     map_of (A @ B) = (map_of (A @ (k, w) # B))(k := None)"
  using map_of_absent [of k "A @ B"]
  by (simp add: map_of_insert_mid fun_upd_idem image_Un del: map_of_append)

text \<open>
  What a comparator that puts each of two keys below the other does to a map that holds the first:
  the second goes to the left of the first and is then searched to its right. The shape assumed is
  that a second entry is added as a leaf of the first, as in every red-black tree, where a root with
  one child is balanced.
\<close>

definition second_is_leaf :: "('k, 'v) shape \<Rightarrow> bool" where
  "second_is_leaf reb \<longleftrightarrow>
     (\<forall>e f. e \<noteq> f \<longrightarrow>
            reb (Node Leaf e Leaf) [f, e] = Node (Node Leaf f Leaf) e Leaf \<and>
            reb (Node Leaf e Leaf) [e, f] = Node Leaf e (Node Leaf f Leaf))"

lemma singleton_shape:
  assumes "rebalances reb"
  shows "reb t [e] = Node Leaf e Leaf"
proof -
  have one: "inorder (reb t [e]) = [e]" using assms by (simp add: rebalances_def)
  then obtain l r where "reb t [e] = Node l e r" "inorder l = []" "inorder r = []"
    by (cases "reb t [e]") (auto simp: append_eq_Cons_conv)
  then show ?thesis by simp
qed

lemma mutual_insert_lost:
  assumes "lt a b" "lt b a" "\<not> lt a a" "\<not> lt b b" "rebalances reb" "second_is_leaf reb"
    and "m = map_insert lt reb (map_insert lt reb Leaf a u) b v"
  shows "map_find lt m b = None" "map_find lt m a = Some (a, u)"
proof -
  have one: "map_insert lt reb Leaf a u = Node Leaf (a, u) Leaf"
    by (simp add: map_insert_def insert_unique_pos_def insert_at_def singleton_shape [OF assms(5)])
  have "(a, u) \<noteq> (b, v)" using assms(1,3) by auto
  then have "m = Node (Node Leaf (b, v) Leaf) (a, u) Leaf"
    unfolding assms(7) one using assms(2,6)
    by (simp add: map_insert_def insert_unique_pos_def insert_at_def second_is_leaf_def)
  then show "map_find lt m b = None" "map_find lt m a = Some (a, u)"
    using assms(1-4) by (simp_all add: map_find_def key_at_def)
qed

text \<open>A shape that adds entries as leaves and never rotates.\<close>

fun leaf_shape :: "('k, 'v) shape" where
  "leaf_shape (Node Leaf e Leaf) [f, g] =
     (if g = e then Node (Node Leaf f Leaf) e Leaf else Node Leaf f (Node Leaf g Leaf))"
| "leaf_shape t xs = chain xs"

lemma rebalances_leaf_shape: "rebalances leaf_shape"
  unfolding rebalances_def
proof (intro allI)
  fix t :: "('a, 'b) std_map" and xs
  show "inorder (leaf_shape t xs) = xs"
    by (induction t xs rule: leaf_shape.induct) auto
qed

lemma second_is_leaf_shape: "second_is_leaf leaf_shape"
  by (simp add: second_is_leaf_def)

section \<open>Keys on which the comparator is a strict order\<close>

locale map_order =
  fixes lt :: "'k less"
    and K :: "'k set"
  assumes irrefl: "a \<in> K \<Longrightarrow> \<not> lt a a"
    and trans: "a \<in> K \<Longrightarrow> b \<in> K \<Longrightarrow> c \<in> K \<Longrightarrow> lt a b \<Longrightarrow> lt b c \<Longrightarrow> lt a c"
    and total: "a \<in> K \<Longrightarrow> b \<in> K \<Longrightarrow> a \<noteq> b \<Longrightarrow> lt a b \<or> lt b a"
begin

lemma asym: "a \<in> K \<Longrightarrow> b \<in> K \<Longrightarrow> lt a b \<Longrightarrow> \<not> lt b a"
  using irrefl trans by blast

definition ordered :: "('k, 'v) std_map \<Rightarrow> bool" where
  "ordered t \<longleftrightarrow> sorted_wrt lt (map fst (inorder t)) \<and> fst ` set (inorder t) \<subseteq> K"

lemma ordered_Leaf [simp]: "ordered Leaf"
  by (simp add: ordered_def)

lemma ordered_Node:
  "ordered (Node l (a, v) r) \<longleftrightarrow> ordered l \<and> ordered r \<and> a \<in> K \<and>
     (\<forall>e \<in> set (inorder l). lt (fst e) a) \<and> (\<forall>e \<in> set (inorder r). lt a (fst e)) \<and>
     (\<forall>e \<in> set (inorder l). \<forall>f \<in> set (inorder r). lt (fst e) (fst f))"
  by (auto simp: ordered_def sorted_wrt_append)

lemma lower_bound_takeWhile:
  assumes "ordered t" "k \<in> K"
  shows "lower_bound lt t k = length (takeWhile (\<lambda>e. lt (fst e) k) (inorder t))"
  using assms
proof (induction t)
  case (Node l e r)
  obtain a v where e: "e = (a, v)" by (cases e)
  have sub: "ordered l" "ordered r" "a \<in> K" and left: "\<forall>e \<in> set (inorder l). lt (fst e) a"
    using Node.prems by (auto simp: e ordered_Node)
  show ?case
  proof (cases "lt a k")
    case True
    have "\<forall>e \<in> set (inorder l). lt (fst e) k"
      using left sub True Node.prems(2) trans unfolding ordered_def by blast
    then have "takeWhile (\<lambda>e. lt (fst e) k) (inorder l) = inorder l" by simp
    with True Node.IH(2) [OF sub(2) Node.prems(2)] show ?thesis
      by (simp add: e takeWhile_append)
  next
    case False
    with Node.IH(1) [OF sub(1) Node.prems(2)] show ?thesis
      by (simp add: e takeWhile_tail)
  qed
qed simp

lemma upper_bound_takeWhile:
  assumes "ordered t" "k \<in> K"
  shows "upper_bound lt t k = length (takeWhile (\<lambda>e. \<not> lt k (fst e)) (inorder t))"
  using assms
proof (induction t)
  case (Node l e r)
  obtain a v where e: "e = (a, v)" by (cases e)
  have sub: "ordered l" "ordered r" "a \<in> K" and left: "\<forall>e \<in> set (inorder l). lt (fst e) a"
    using Node.prems by (auto simp: e ordered_Node)
  show ?case
  proof (cases "lt k a")
    case True
    with Node.IH(1) [OF sub(1) Node.prems(2)] show ?thesis
      by (simp add: e takeWhile_tail)
  next
    case False
    have "\<forall>e \<in> set (inorder l). \<not> lt k (fst e)"
      using left sub False Node.prems(2) trans unfolding ordered_def by blast
    then have "takeWhile (\<lambda>e. \<not> lt k (fst e)) (inorder l) = inorder l" by simp
    with False Node.IH(2) [OF sub(2) Node.prems(2)] show ?thesis
      by (simp add: e takeWhile_append)
  qed
qed simp

lemma equal_range_bounds:
  assumes "ordered t" "k \<in> K"
  shows "equal_range lt t k = (lower_bound lt t k, upper_bound lt t k)"
  using assms
proof (induction t)
  case (Node l e r)
  obtain a v where e: "e = (a, v)" by (cases e)
  have "ordered l" "ordered r" "a \<in> K" using Node.prems by (auto simp: e ordered_Node)
  then show ?case using Node asym [of a k] by (auto simp: e)
qed simp

text \<open>The entries below and above a key, and the one at it if there is one.\<close>

lemma entries_cases:
  assumes "ordered t" "k \<in> K"
  obtains (absent) A B where "inorder t = A @ B" "k \<notin> fst ` set (inorder t)"
      "lower_bound lt t k = length A" "upper_bound lt t k = length A"
      "\<forall>e \<in> set A. lt (fst e) k" "\<forall>e \<in> set B. lt k (fst e)"
  | (present) A w B where "inorder t = A @ (k, w) # B" "k \<notin> fst ` set A" "k \<notin> fst ` set B"
      "lower_bound lt t k = length A" "upper_bound lt t k = Suc (length A)"
      "\<forall>e \<in> set A. lt (fst e) k" "\<forall>e \<in> set B. lt k (fst e)"
proof -
  let ?P = "\<lambda>e. lt (fst e) k"
  define A where "A = takeWhile ?P (inorder t)"
  define D where "D = dropWhile ?P (inorder t)"
  have split: "inorder t = A @ D" by (simp add: A_def D_def)
  have keys: "\<And>e. e \<in> set A \<union> set D \<Longrightarrow> fst e \<in> K"
    and srt: "sorted_wrt (\<lambda>e f. lt (fst e) (fst f)) (A @ D)"
    using assms(1) unfolding ordered_def split sorted_wrt_map by auto
  have A: "\<forall>e \<in> set A. lt (fst e) k" by (auto simp: A_def dest: set_takeWhileD)
  have A': "\<forall>e \<in> set A. \<not> lt k (fst e)"
    using A keys asym [OF _ assms(2)] by blast
  have lo: "lower_bound lt t k = length A"
    using lower_bound_takeWhile [OF assms] by (simp add: A_def)
  have hi: "upper_bound lt t k = length (takeWhile (\<lambda>e. \<not> lt k (fst e)) (A @ D))"
    using upper_bound_takeWhile [OF assms] split by simp
  have kA: "k \<notin> fst ` set A" using A irrefl [OF assms(2)] by auto
  have head: "\<And>e D'. D = e # D' \<Longrightarrow> \<not> lt (fst e) k"
    unfolding D_def by (metis (mono_tags, lifting) dropWhile_eq_Cons_conv)
  show thesis
  proof (cases D)
    case Nil
    have "upper_bound lt t k = length A" using A' Nil hi takeWhile_append1 by (metis (mono_tags, lifting) append_Nil2 takeWhile_eq_all_conv)
    moreover have "k \<notin> fst ` set (inorder t)" using kA split Nil by simp
    ultimately show thesis using absent [of A "[]"] lo A split Nil by simp
  next
    case (Cons e D')
    have ek: "\<not> lt (fst e) k" and eK: "fst e \<in> K" using head keys Cons by auto
    have DK: "\<And>f. f \<in> set D' \<Longrightarrow> fst f \<in> K" using keys Cons by auto
    have above: "\<forall>f \<in> set D'. lt (fst e) (fst f)"
      using srt Cons by (simp add: sorted_wrt_append)
    show thesis
    proof (cases "fst e = k")
      case True
      have B: "\<forall>f \<in> set D'. lt k (fst f)" using above True by simp
      have kD: "k \<notin> fst ` set D'" using B irrefl [OF assms(2)] by auto
      have "takeWhile (\<lambda>e. \<not> lt k (fst e)) (A @ e # D') = A @ [e]"
        using A' B True irrefl [OF assms(2)] by (cases D') (auto simp: takeWhile_append)
      then have up: "upper_bound lt t k = Suc (length A)" using hi Cons by simp
      have "inorder t = A @ (k, snd e) # D'" using split Cons True by auto
      then show thesis using present [OF _ kA kD lo up A B] by blast
    next
      case False
      have ke: "lt k (fst e)" using total [OF assms(2) eK] False ek by auto
      have B: "\<forall>f \<in> set D. lt k (fst f)"
        using ke above trans [OF assms(2) eK DK] Cons by auto
      have kD: "k \<notin> fst ` set D" using B irrefl [OF assms(2)] by auto
      have "takeWhile (\<lambda>e. \<not> lt k (fst e)) (A @ D) = A"
        using A' ke Cons by (auto simp: takeWhile_append takeWhile_eq_all_conv)
      then have up: "upper_bound lt t k = length A" using hi by simp
      have "k \<notin> fst ` set (inorder t)" using kA kD split by auto
      then show thesis using absent [OF split _ lo up A B] by blast
    qed
  qed
qed

text \<open>The map of keys to values that a tree stands for, and what each operation makes of it.\<close>

lemma ordered_entries:
  assumes "\<forall>e \<in> set A. lt (fst e) k" "\<forall>e \<in> set B. lt k (fst e)" "k \<in> K"
    and "inorder t = A @ (k, v) # B"
    and "sorted_wrt lt (map fst (A @ B))" "fst ` set (A @ B) \<subseteq> K"
  shows "ordered t"
  using assms by (auto simp: ordered_def sorted_wrt_append sorted_wrt_map)

lemma find_ordered:
  assumes "ordered t" "k \<in> K"
  shows "map_find lt t k = map_option (Pair k) (map_of (inorder t) k)"
  using assms
proof (cases rule: entries_cases)
  case (absent A B)
  have "map_find lt t k = None"
  proof (cases B)
    case Nil
    have "size t = length A" using absent(1) Nil by (metis append_Nil2 length_inorder_size)
    then show ?thesis using absent(3) by (simp add: map_find_def)
  next
    case (Cons e B')
    then show ?thesis using absent(1,3,6) by (simp add: map_find_def key_at_def)
  qed
  moreover have "map_of (inorder t) k = None"
    using absent(2) by (simp add: map_of_eq_None_iff)
  ultimately show ?thesis by simp
next
  case (present A w B)
  have "length A < size t" using present(1) by (metis length_inorder_size length_append
    length_Cons less_add_Suc1 add_Suc_right)
  moreover have "key_at t (length A) = k" "inorder t ! length A = (k, w)"
    using present(1) by (simp_all add: key_at_def)
  ultimately have "map_find lt t k = Some (k, w)"
    using present(4) irrefl [OF assms(2)] by (simp add: map_find_def)
  moreover have "map_of (inorder t) k = Some w"
    using present(1) by (simp add: map_of_insert_mid [OF present(2)] del: map_of_append)
  ultimately show ?thesis by simp
qed

lemma at_ordered:
  assumes "ordered t" "k \<in> K"
  shows "map_at lt t k =
    (case map_of (inorder t) k of None \<Rightarrow> Inl (Throw Out_of_range) | Some v \<Rightarrow> Inr v)"
  by (simp add: map_at_def find_ordered [OF assms] split: option.split)

lemma insert_pos_absent:
  assumes "inorder t = A @ B" "upper_bound lt t k = length A" "\<forall>e \<in> set A. lt (fst e) k"
  shows "insert_unique_pos lt t k = (length A, True)"
proof (cases A rule: rev_cases)
  case (snoc A' e)
  then have "key_at t (length A - 1) = fst e" using assms(1) by (simp add: key_at_def)
  with snoc assms show ?thesis by (simp add: insert_unique_pos_def)
qed (use assms in \<open>simp add: insert_unique_pos_def\<close>)

lemma insert_pos_present:
  assumes "inorder t = A @ (k, w) # B" "upper_bound lt t k = Suc (length A)" "k \<in> K"
  shows "insert_unique_pos lt t k = (length A, False)"
  using assms irrefl by (simp add: insert_unique_pos_def key_at_def)

lemma insert_ordered:
  assumes "ordered t" "k \<in> K" "rebalances reb"
  shows "ordered (map_insert lt reb t k v)"
    and "map_of (inorder (map_insert lt reb t k v)) =
      (if map_of (inorder t) k = None then (map_of (inorder t))(k \<mapsto> v) else map_of (inorder t))"
proof -
  have "ordered (map_insert lt reb t k v) \<and> map_of (inorder (map_insert lt reb t k v)) =
      (if map_of (inorder t) k = None then (map_of (inorder t))(k \<mapsto> v) else map_of (inorder t))"
    using assms(1,2)
  proof (cases rule: entries_cases)
    case (absent A B)
    have new: "inorder (map_insert lt reb t k v) = A @ (k, v) # B"
      using insert_pos_absent [OF absent(1,4,5)] absent(1)
      by (simp add: map_insert_def insert_at_def inorder_shape [OF assms(3)])
    have "ordered (map_insert lt reb t k v)"
      using ordered_entries [OF absent(5,6) assms(2) new] assms(1) absent(1)
      by (simp add: ordered_def)
    moreover have "map_of (inorder t) k = None" using absent(2) by (simp add: map_of_eq_None_iff)
    moreover have "map_of (A @ (k, v) # B) = (map_of (A @ B))(k \<mapsto> v)"
      using absent(1,2) by (intro map_of_insert_mid) auto
    ultimately show ?thesis using new absent(1) by simp
  next
    case (present A w B)
    have "map_insert lt reb t k v = t"
      using insert_pos_present [OF present(1,5) assms(2)] by (simp add: map_insert_def)
    moreover have "map_of (inorder t) k \<noteq> None"
      using present(1) by (simp add: map_of_eq_None_iff)
    ultimately show ?thesis using assms(1) by auto
  qed
  then show "ordered (map_insert lt reb t k v)"
    and "map_of (inorder (map_insert lt reb t k v)) =
      (if map_of (inorder t) k = None then (map_of (inorder t))(k \<mapsto> v) else map_of (inorder t))"
    by auto
qed

text \<open>
  The subscript gives a position that holds the key, in a tree with the same entries and perhaps
  the new one.
\<close>

lemma subscript_ordered:
  assumes "ordered t" "k \<in> K" "rebalances reb"
  obtains t' A w B where "map_subscript lt reb d t k = (t', length A)"
    "inorder t' = A @ (k, w) # B" "ordered t'" "k \<notin> fst ` set A" "k \<notin> fst ` set B"
    "w = (case map_of (inorder t) k of None \<Rightarrow> d | Some u \<Rightarrow> u)"
    "\<And>j. j \<noteq> k \<Longrightarrow> map_of (inorder t) j = map_of (A @ B) j"
    "sorted_wrt lt (map fst (A @ B))" "fst ` set (A @ B) \<subseteq> K"
    "\<forall>e \<in> set A. lt (fst e) k" "\<forall>e \<in> set B. lt k (fst e)"
  using assms(1,2)
proof (cases rule: entries_cases)
  case (absent A B)
  let ?t = "reb t (insert_at (length A) (k, d) (inorder t))"
  have new: "inorder ?t = A @ (k, d) # B"
    using absent(1) by (simp add: insert_at_def inorder_shape [OF assms(3)])
  have size: "size t = length A + length B" using absent(1) by (metis length_inorder_size length_append)
  have miss: "\<not> (length A < size t \<and> \<not> lt k (key_at t (length A)))"
  proof (cases B)
    case (Cons e B')
    then show ?thesis using absent(1,6) by (simp add: key_at_def)
  qed (use size in simp)
  have "hint_pos lt t (length A) k = (length A, True)"
  proof (cases A rule: rev_cases)
    case Nil
    then show ?thesis
      using insert_pos_absent [OF absent(1,4,5)] size by (simp add: hint_pos_def)
  next
    case (snoc A' e)
    then have "key_at t (length A - 1) = fst e" using absent(1) by (simp add: key_at_def)
    then show ?thesis using snoc absent(5) size by (simp add: hint_pos_def)
  qed
  then have sub: "map_subscript lt reb d t k = (?t, length A)"
    using absent(3) miss by (auto simp: map_subscript_def Let_def)
  have srt: "sorted_wrt lt (map fst (A @ B))" "fst ` set (A @ B) \<subseteq> K"
    using assms(1) absent(1) by (auto simp: ordered_def)
  have "map_of (inorder t) k = None" using absent(2) by (simp add: map_of_eq_None_iff)
  moreover have "k \<notin> fst ` set A" "k \<notin> fst ` set B" using absent(1,2) by auto
  ultimately show thesis
    using that [OF sub new] ordered_entries [OF absent(5,6) assms(2) new srt] absent(1,5,6) srt
    by (metis (no_types, lifting) option.simps(4))
next
  case (present A w B)
  have "length A < size t" using present(1) by (metis length_inorder_size length_append
    length_Cons less_add_Suc1 add_Suc_right)
  then have sub: "map_subscript lt reb d t k = (t, length A)"
    using present(1,4) irrefl [OF assms(2)] by (simp add: map_subscript_def key_at_def)
  have srt: "sorted_wrt lt (map fst (A @ B))" "fst ` set (A @ B) \<subseteq> K"
    using assms(1) present(1) by (auto simp: ordered_def sorted_wrt_append)
  have "map_of (inorder t) k = Some w"
    using present(1) by (simp add: map_of_insert_mid [OF present(2)] del: map_of_append)
  moreover have "\<And>j. j \<noteq> k \<Longrightarrow> map_of (inorder t) j = map_of (A @ B) j"
    using present(1) by (simp add: map_of_insert_mid [OF present(2)] del: map_of_append)
  ultimately show thesis
    using that [OF sub present(1) assms(1) present(2,3)] srt present(6,7) by simp
qed

lemma assign_ordered:
  assumes "ordered t" "k \<in> K" "rebalances reb"
  shows "ordered (map_assign lt reb d t k v) \<and>
    map_of (inorder (map_assign lt reb d t k v)) = (map_of (inorder t))(k \<mapsto> v)"
proof -
  obtain t' A w B where sub: "map_subscript lt reb d t k = (t', length A)"
      "inorder t' = A @ (k, w) # B" "k \<notin> fst ` set A"
      "\<And>j. j \<noteq> k \<Longrightarrow> map_of (inorder t) j = map_of (A @ B) j"
      "sorted_wrt lt (map fst (A @ B))" "fst ` set (A @ B) \<subseteq> K"
      "\<forall>e \<in> set A. lt (fst e) k" "\<forall>e \<in> set B. lt k (fst e)"
    using subscript_ordered [OF assms, of d] by metis
  have "length A < size t'" using sub(2) by (metis length_inorder_size length_append
    length_Cons less_add_Suc1 add_Suc_right)
  then have new: "inorder (map_assign lt reb d t k v) = A @ (k, v) # B"
    using sub(1,2) by (simp add: map_assign_def inorder_set_value key_at_def list_update_append)
  have "map_of (A @ (k, v) # B) = (map_of (inorder t))(k \<mapsto> v)"
    using sub(4) by (simp add: map_of_insert_mid [OF sub(3)] fun_eq_iff del: map_of_append)
  then show ?thesis
    using new ordered_entries [OF sub(7,8) assms(2) new sub(5,6)] by simp
qed

lemma get_ordered:
  assumes "ordered t" "k \<in> K" "rebalances reb"
  shows "fst (map_get lt reb d t k) = (case map_of (inorder t) k of None \<Rightarrow> d | Some u \<Rightarrow> u) \<and>
    ordered (snd (map_get lt reb d t k)) \<and>
    map_of (inorder (snd (map_get lt reb d t k))) =
      (map_of (inorder t))(k \<mapsto> fst (map_get lt reb d t k))"
proof -
  obtain t' A w B where sub: "map_subscript lt reb d t k = (t', length A)"
      "inorder t' = A @ (k, w) # B" "ordered t'" "k \<notin> fst ` set A"
      "w = (case map_of (inorder t) k of None \<Rightarrow> d | Some u \<Rightarrow> u)"
      "\<And>j. j \<noteq> k \<Longrightarrow> map_of (inorder t) j = map_of (A @ B) j"
    using subscript_ordered [OF assms, of d] by metis
  have get: "map_get lt reb d t k = (w, t')" using sub(1,2) by (simp add: map_get_def)
  have "map_of (A @ (k, w) # B) = (map_of (inorder t))(k \<mapsto> w)"
    using sub(6) by (simp add: map_of_insert_mid [OF sub(4)] fun_eq_iff del: map_of_append)
  then show ?thesis using get sub by simp
qed

lemma erase_ordered:
  assumes "ordered t" "k \<in> K" "rebalances reb"
  shows "ordered (map_erase lt reb t k) \<and>
    map_of (inorder (map_erase lt reb t k)) = (map_of (inorder t))(k := None)"
  using assms(1,2)
proof (cases rule: entries_cases)
  case (absent A B)
  have "map_erase lt reb t k = t"
    using equal_range_bounds [OF assms(1,2)] absent(3,4) by (simp add: map_erase_def)
  moreover have "map_of (inorder t) k = None" using absent(2) by (simp add: map_of_eq_None_iff)
  ultimately show ?thesis using assms(1) by (simp add: fun_upd_idem)
next
  case (present A w B)
  have new: "inorder (map_erase lt reb t k) = A @ B"
    using equal_range_bounds [OF assms(1,2)] present(1,4,5)
    by (simp add: map_erase_def inorder_shape [OF assms(3)])
  have "map_of (A @ B) = (map_of (inorder t))(k := None)"
    using map_of_remove_mid [OF present(2,3)] present(1) by simp
  moreover have "ordered (map_erase lt reb t k)"
    using assms(1) new present(1) by (auto simp: ordered_def sorted_wrt_append)
  ultimately show ?thesis using new by simp
qed

end

end
