(* ===== verification/Connection_Entry.thy ===== *)
theory Connection_Entry
  imports Db_Types Std_Map
begin

text \<open>
  The key of the connection tables, src/src/endpoint/connectionentry.h and connectionentry.cpp,
  with its two comparisons. operator< is the disjunction of the comparisons of the six fields: it
  tells any two different keys apart, but it is not an order, since two keys can each be less than
  the other. Where it is one, on keys that are comparable field by field, the laws of the tables
  come from the locale of Std_Map.
\<close>

section \<open>The key\<close>

record connection_entry =
  ce_ip_src :: string
  ce_ip_dst :: string
  ce_port_src :: u16
  ce_port_dst :: u16
  ce_sfcid :: string
  ce_prt :: protocol_type

definition new_entry ::
    "string \<Rightarrow> string \<Rightarrow> u16 \<Rightarrow> u16 \<Rightarrow> string \<Rightarrow> protocol_type \<Rightarrow> connection_entry" where
  "new_entry src dst psrc pdst sfc p =
     \<lparr> ce_ip_src = src, ce_ip_dst = dst, ce_port_src = psrc, ce_port_dst = pdst,
       ce_sfcid = sfc, ce_prt = p \<rparr>"

text \<open>The getters.\<close>

definition get_ip_src :: "connection_entry \<Rightarrow> string" where
  "get_ip_src ce = ce_ip_src ce"

definition get_ip_dst :: "connection_entry \<Rightarrow> string" where
  "get_ip_dst ce = ce_ip_dst ce"

definition get_port_src :: "connection_entry \<Rightarrow> u16" where
  "get_port_src ce = ce_port_src ce"

definition get_port_dst :: "connection_entry \<Rightarrow> u16" where
  "get_port_dst ce = ce_port_dst ce"

definition get_sfcid :: "connection_entry \<Rightarrow> string" where
  "get_sfcid ce = ce_sfcid ce"

definition get_protocol_type :: "connection_entry \<Rightarrow> protocol_type" where
  "get_protocol_type ce = ce_prt ce"

lemmas entry_getters [simp] = get_ip_src_def get_ip_dst_def get_port_src_def get_port_dst_def
  get_sfcid_def get_protocol_type_def

definition ce_eq :: "connection_entry \<Rightarrow> connection_entry \<Rightarrow> bool" where
  "ce_eq a b \<longleftrightarrow>
     ce_prt a = ce_prt b \<and> ce_ip_src a = ce_ip_src b \<and> ce_ip_dst a = ce_ip_dst b \<and>
     ce_port_src a = ce_port_src b \<and> ce_port_dst a = ce_port_dst b \<and> ce_sfcid a = ce_sfcid b"

definition ce_less :: "connection_entry \<Rightarrow> connection_entry \<Rightarrow> bool" where
  "ce_less a b \<longleftrightarrow>
     ce_prt a < ce_prt b \<or> ce_ip_src a < ce_ip_src b \<or> ce_ip_dst a < ce_ip_dst b \<or>
     ce_port_src a < ce_port_src b \<or> ce_port_dst a < ce_port_dst b \<or> ce_sfcid a < ce_sfcid b"

section \<open>What the comparisons are\<close>

lemma ce_eq_iff: "ce_eq a b \<longleftrightarrow> a = b"
  by (cases a; cases b) (auto simp: ce_eq_def)

text \<open>One key is below another in every field.\<close>

definition ce_below :: "connection_entry \<Rightarrow> connection_entry \<Rightarrow> bool" where
  "ce_below a b \<longleftrightarrow>
     ce_prt a \<le> ce_prt b \<and> ce_ip_src a \<le> ce_ip_src b \<and> ce_ip_dst a \<le> ce_ip_dst b \<and>
     ce_port_src a \<le> ce_port_src b \<and> ce_port_dst a \<le> ce_port_dst b \<and> ce_sfcid a \<le> ce_sfcid b"

lemma ce_less_not_below: "ce_less a b \<longleftrightarrow> \<not> ce_below b a"
  by (auto simp: ce_less_def ce_below_def not_le)

lemma ce_below_refl [simp]: "ce_below a a"
  by (simp add: ce_below_def)

lemma ce_below_trans: "ce_below a b \<Longrightarrow> ce_below b c \<Longrightarrow> ce_below a c"
  unfolding ce_below_def by (meson order_trans)

lemma ce_below_antisym: "ce_below a b \<Longrightarrow> ce_below b a \<Longrightarrow> a = b"
  by (cases a; cases b) (auto simp: ce_below_def)

lemma ce_less_irrefl [simp]: "\<not> ce_less a a"
  by (simp add: ce_less_not_below)

lemma ce_less_total: "a \<noteq> b \<Longrightarrow> ce_less a b \<or> ce_less b a"
  unfolding ce_less_not_below using ce_below_antisym by blast

text \<open>
  The two comparisons of connection entries agree: neither of two entries is less than the
  other exactly when operator== holds of them, which is when all six fields are the same. So a map
  keyed by entries never takes one connection for another.
\<close>
lemma entry_equivalence_is_equality:
  "(\<not> ce_less a b \<and> \<not> ce_less b a \<longleftrightarrow> ce_eq a b) \<and> (ce_eq a b \<longleftrightarrow> a = b)"
  using ce_less_total ce_eq_iff by auto

section \<open>Keys on which it is an order\<close>

definition comparable :: "connection_entry set \<Rightarrow> bool" where
  "comparable K \<longleftrightarrow> (\<forall>a \<in> K. \<forall>b \<in> K. ce_below a b \<or> ce_below b a)"

lemma map_order_comparable: "comparable K \<Longrightarrow> map_order ce_less K"
proof
  fix a b c
  assume K: "comparable K" and "a \<in> K" "b \<in> K" "c \<in> K" and ab: "ce_less a b" and bc: "ce_less b c"
  then have "ce_below a b" "ce_below b c" "\<not> ce_below b a"
    by (auto simp: comparable_def ce_less_not_below)
  then show "ce_less a c"
    unfolding ce_less_not_below using ce_below_trans by blast
qed (use ce_less_total in auto)

text \<open>
  C20: operator< is what std::map requires, a strict total order, on exactly those sets of entries of
  which any two are comparable field by field; on any other set two entries are each less than the
  other.
\<close>
theorem entry_order_iff_comparable: "map_order ce_less K \<longleftrightarrow> comparable K"
proof
  assume ord: "map_order ce_less K"
  show "comparable K"
    unfolding comparable_def
  proof (intro ballI)
    fix a b assume "a \<in> K" "b \<in> K"
    then show "ce_below a b \<or> ce_below b a"
      using map_order.asym [OF ord] by (auto simp: ce_less_not_below)
  qed
qed (rule map_order_comparable)

text \<open>
  The keys of one client host that talks to one service: they differ in the source port only.
\<close>

definition one_service ::
    "string \<Rightarrow> string \<Rightarrow> u16 \<Rightarrow> string \<Rightarrow> protocol_type \<Rightarrow> connection_entry set" where
  "one_service src dst pdst sfc p = range (\<lambda>psrc. new_entry src dst psrc pdst sfc p)"

lemma comparable_one_service: "comparable (one_service src dst pdst sfc p)"
  by (auto simp: comparable_def one_service_def new_entry_def ce_below_def)

interpretation service: map_order ce_less "one_service src dst pdst sfc p"
  for src dst pdst sfc p
  by (rule map_order_comparable [OF comparable_one_service])

text \<open>All keys with one value in every field but the port of the source are tracked faithfully.\<close>

lemma comparable_insert_mono: "comparable K \<Longrightarrow> L \<subseteq> K \<Longrightarrow> comparable L"
  by (auto simp: comparable_def)

lemma comparable_singleton [simp]: "comparable {k}"
  by (simp add: comparable_def)

end
