(* ===== verification/Classifier.thy ===== *)
theory Classifier
  imports Packet_Utils Std_Map
begin

text \<open>
  The packet classifier, src/src/classifier/classifier.h and classifier.cpp. A Mapper holds the type
  of a packet; sfc_map sends it to the identifier of a service chain. The map belongs to the static
  object of the endpoints, so it is a state that classify_pkt reads and writes.
\<close>

section \<open>Types of packets\<close>

datatype pkt_type = PKT_DEFAULT | PKT_TCP | PKT_UDP

instantiation pkt_type :: linorder
begin

fun pkt_rank :: "pkt_type \<Rightarrow> nat" where
  "pkt_rank PKT_DEFAULT = 0"
| "pkt_rank PKT_TCP = 1"
| "pkt_rank PKT_UDP = 2"

definition less_pkt_type :: "pkt_type \<Rightarrow> pkt_type \<Rightarrow> bool" where
  "less_pkt_type a b \<longleftrightarrow> pkt_rank a < pkt_rank b"

definition less_eq_pkt_type :: "pkt_type \<Rightarrow> pkt_type \<Rightarrow> bool" where
  "less_eq_pkt_type a b \<longleftrightarrow> pkt_rank a \<le> pkt_rank b"

instance
proof
  fix a b :: pkt_type
  show "a \<le> b \<Longrightarrow> b \<le> a \<Longrightarrow> a = b"
    by (cases a; cases b) (simp_all add: less_eq_pkt_type_def)
qed (auto simp: less_pkt_type_def less_eq_pkt_type_def)

end

record mapper =
  type_of_pkt :: pkt_type

text \<open>\<open>Mapper m{}\<close> sets the type to the enumerator with value 0.\<close>

definition new_mapper :: mapper where
  "new_mapper = \<lparr> type_of_pkt = PKT_DEFAULT \<rparr>"

definition mapper_eq :: "mapper \<Rightarrow> mapper \<Rightarrow> bool" where
  "mapper_eq m n \<longleftrightarrow> type_of_pkt m = type_of_pkt n"

definition mapper_less :: "mapper \<Rightarrow> mapper \<Rightarrow> bool" where
  "mapper_less m n \<longleftrightarrow> type_of_pkt m < type_of_pkt n"

definition default_mapping :: pkt_type where
  "default_mapping = PKT_DEFAULT"

definition default_udp_mapper :: mapper where
  "default_udp_mapper = new_mapper \<lparr> type_of_pkt := PKT_UDP \<rparr>"

definition default_tcp_mapper :: mapper where
  "default_tcp_mapper = new_mapper \<lparr> type_of_pkt := PKT_TCP \<rparr>"

section \<open>Classification\<close>

text \<open>A packet no longer than an IP header leaves the mapper as it is.\<close>

definition set_pkt :: "mapper \<Rightarrow> byte list \<Rightarrow> nat \<Rightarrow> mapper result" where
  "set_pkt m pkt pkt_len =
     (if pkt_len > ip_hdr_len
      then bind_result (retrieve_ip_header pkt) (\<lambda>h_ip.
        Inr (if ip_protocol h_ip = 6 then m \<lparr> type_of_pkt := PKT_TCP \<rparr>
             else if ip_protocol h_ip = 17 then m \<lparr> type_of_pkt := PKT_UDP \<rparr>
             else m \<lparr> type_of_pkt := PKT_DEFAULT \<rparr>))
      else Inr m)"

type_synonym sfc_map = "(mapper, string) std_map"

definition classify_pkt ::
    "(mapper, string) shape \<Rightarrow> byte list \<Rightarrow> nat \<Rightarrow> (sfc_map, string) action" where
  "classify_pkt reb pkt pkt_len =
     bind_action (lift_result (set_pkt new_mapper pkt pkt_len)) (\<lambda>m sfc0.
       let sfc1 = map_assign mapper_less reb [] sfc0 default_udp_mapper ''0'';
           sfc2 = map_assign mapper_less reb [] sfc1 default_tcp_mapper ''0''
       in (map_at mapper_less sfc2 m, sfc2))"

section \<open>The order of mappers and the chains they are sent to\<close>

lemma mapper_eqI: "type_of_pkt m = type_of_pkt n \<Longrightarrow> m = n" for m n :: mapper
  by (cases m; cases n) simp

lemma mapper_eq_iff: "mapper_eq m n \<longleftrightarrow> m = n"
  using mapper_eqI by (auto simp: mapper_eq_def)

interpretation mappers: map_order mapper_less UNIV
proof
  fix a b :: mapper
  assume "a \<noteq> b"
  then show "mapper_less a b \<or> mapper_less b a"
    using mapper_eqI [of a b] linorder_neqE by (auto simp: mapper_less_def)
qed (auto simp: mapper_less_def)

lemmas mapper_simps = new_mapper_def default_udp_mapper_def default_tcp_mapper_def

lemma tcp_not_udp_mapper [simp]: "default_tcp_mapper \<noteq> default_udp_mapper"
  by (simp add: mapper_simps)

text \<open>The map of the static object, as a function: nothing, or the two chains.\<close>

definition chain_table :: "sfc_map \<Rightarrow> bool" where
  "chain_table sfc \<longleftrightarrow> mappers.ordered sfc \<and>
     dom (map_of (inorder sfc)) \<subseteq> {default_udp_mapper, default_tcp_mapper}"

lemma chain_table_Leaf [simp]: "chain_table Leaf"
  by (simp add: chain_table_def)

lemma classify_pkt_chain_table:
  assumes "rebalances reb"
  shows "keeps chain_table (classify_pkt reb pkt pkt_len)"
proof (unfold keeps_def, intro allI impI)
  fix sfc assume "chain_table sfc"
  then show "chain_table (snd (classify_pkt reb pkt pkt_len sfc))"
    using assms
    by (auto simp: classify_pkt_def chain_table_def mappers.assign_ordered Let_def
        split: sum.splits if_splits)
qed

lemma classify_pkt_value:
  assumes "chain_table sfc" "rebalances reb" "set_pkt new_mapper pkt pkt_len = Inr m"
  shows "fst (classify_pkt reb pkt pkt_len sfc) =
    (if type_of_pkt m = PKT_DEFAULT then Inl (Throw Out_of_range) else Inr ''0'')"
proof -
  let ?s1 = "map_assign mapper_less reb [] sfc default_udp_mapper ''0''"
  let ?s2 = "map_assign mapper_less reb [] ?s1 default_tcp_mapper ''0''"
  let ?f = "map_of (inorder ?s2)"
  have ord: "mappers.ordered ?s2"
    and f: "?f = (map_of (inorder sfc))(default_udp_mapper \<mapsto> ''0'', default_tcp_mapper \<mapsto> ''0'')"
    using assms(1,2) by (simp_all add: chain_table_def mappers.assign_ordered)
  have "?f m = (if type_of_pkt m = PKT_DEFAULT then None else Some ''0'')"
  proof (cases "type_of_pkt m")
    case PKT_DEFAULT
    then have "m \<noteq> default_udp_mapper" "m \<noteq> default_tcp_mapper" by (auto simp: mapper_simps)
    moreover from this have "m \<notin> dom (map_of (inorder sfc))"
      using assms(1) by (auto simp: chain_table_def)
    ultimately show ?thesis using PKT_DEFAULT by (simp add: f domIff)
  next
    case PKT_TCP
    then have "m = default_tcp_mapper" by (simp add: mapper_simps)
    then show ?thesis using PKT_TCP by (simp add: f)
  next
    case PKT_UDP
    then have "m = default_udp_mapper" by (simp add: mapper_simps)
    then show ?thesis using PKT_UDP by (simp add: f)
  qed
  then show ?thesis
    using assms(3) ord by (simp add: classify_pkt_def mappers.at_ordered Let_def)
qed

lemma set_pkt_value:
  assumes "20 < pkt_len" "pkt_len \<le> length pkt" "claimed_ip_len pkt = 20"
  shows "set_pkt new_mapper pkt pkt_len =
    Inr (if pkt ! 9 = 6 then default_tcp_mapper else if pkt ! 9 = 17 then default_udp_mapper
         else new_mapper)"
proof -
  have "retrieve_ip_header pkt = Inr (iphdr_of_bytes pkt)"
    using assms by (intro retrieve_ip_header_value) simp_all
  then show ?thesis
    using assms(1) by (simp add: set_pkt_def ip_hdr_len_def iphdr_of_bytes_def mapper_simps)
qed

text \<open>
  C39: The classifier gives the chain "0" to a datagram that is longer than its plain IP header
  exactly when its protocol byte says TCP or UDP; for every other protocol map::at throws, and no
  default chain is ever used.
\<close>
theorem classify_datagram:
  assumes "20 < pkt_len" "pkt_len \<le> length pkt" "claimed_ip_len pkt = 20"
    and "chain_table sfc" "rebalances reb"
  shows "fst (classify_pkt reb pkt pkt_len sfc) =
    (if pkt ! 9 = 6 \<or> pkt ! 9 = 17 then Inr ''0'' else Inl (Throw Out_of_range))"
  using classify_pkt_value [OF assms(4,5) set_pkt_value [OF assms(1-3)]]
  by (auto simp: mapper_simps)

theorem classify_datagram_witness:
  "fst (classify_pkt chain_shape [0x45, 0, 0, 21, 0, 0, 0, 0, 64, 17, 0, 0, 10, 0, 0, 1, 10, 0, 0, 2, 7] 21 Leaf) =
    Inr ''0''"
  using classify_datagram [of 21 "[0x45, 0, 0, 21, 0, 0, 0, 0, 64, 17, 0, 0, 10, 0, 0, 1, 10, 0, 0, 2, 7]" Leaf chain_shape]
  by (simp add: claimed_ip_len_def low_nibble_def rebalances_chain)

text \<open>
  A packet that is no longer than an IP header has no chain either: the comment promises a
  default chain, but the map never has an entry for the default type.
\<close>
lemma classify_short_packet_throws:
  assumes "pkt_len \<le> 20" "chain_table sfc" "rebalances reb"
  shows "fst (classify_pkt reb pkt pkt_len sfc) = Inl (Throw Out_of_range)"
proof -
  have "set_pkt new_mapper pkt pkt_len = Inr new_mapper"
    using assms(1) by (simp add: set_pkt_def ip_hdr_len_def)
  then show ?thesis using classify_pkt_value [OF assms(2,3)] by (simp add: mapper_simps)
qed

end
