(* ===== verification/Endpoint.thy ===== *)
theory Endpoint
  imports Db_Requests Connection_Entry Classifier
begin

text \<open>
  The base class of the two proxies, src/src/endpoint/endpoint.h and endpoint.cpp: the table of
  connections, the table of identifiers that the route service gave for them, the proxy's own
  address and ports, and the two static objects, the classifier and the client of the route service.
  What is not part of the repository (the JSON and the HTTP library, the shape of the maps' trees)
  is the record \<open>libs\<close>.
\<close>

section \<open>State\<close>

record sockaddr_in =
  sin_port :: u16
  sin_addr :: u32

definition zero_sockaddr :: sockaddr_in where
  "zero_sockaddr = \<lparr> sin_port = 0, sin_addr = 0 \<rparr>"

type_synonym sock_conn = "socket_fd \<times> sockaddr_in"

record 'j libs =
  lib_json :: "'j json_lib"
  lib_http :: http_lib
  conn_shape :: "(connection_entry, sock_conn) shape"
  remote_shape :: "(connection_entry, string) shape"
  sfc_shape :: "(mapper, string) shape"

text \<open>\<open>roulette\<close> is the address of the client object, \<open>None\<close> while the pointer dangles.\<close>

record endpoint_state =
  connection_map :: "(connection_entry, sock_conn) std_map"
  map_to_remote :: "(connection_entry, string) std_map"
  my_ip :: string
  ext_port :: u16
  int_port :: u16
  chains :: sfc_map
  roulette :: "address option"
  http :: http_state

type_synonym 'a endpoint_action = "(endpoint_state, 'a) action"

text \<open>A call of the client of the route service.\<close>

definition with_roulette :: "(address \<Rightarrow> 'a http) \<Rightarrow> 'a endpoint_action" where
  "with_roulette req s =
     (case roulette s of
        None \<Rightarrow> (Inl (Undefined Use_after_free), s)
      | Some a \<Rightarrow> (case req a (http s) of (r, h) \<Rightarrow> (r, s \<lparr> http := h \<rparr>)))"

section \<open>Operations\<close>

text \<open>The interfaces that getifaddrs lists.\<close>

datatype if_addr = No_addr | Inet u32 | Inet6 | Other_family

record ifaddr =
  ifa_name :: string
  ifa_addr :: if_addr

definition set_my_ip :: "string \<Rightarrow> endpoint_state \<Rightarrow> endpoint_state" where
  "set_my_ip ip s = s \<lparr> my_ip := ip \<rparr>"

definition get_my_ip :: "endpoint_state \<Rightarrow> string" where
  "get_my_ip s = my_ip s"

fun retrieve_ip :: "ifaddr list \<Rightarrow> endpoint_state \<Rightarrow> endpoint_state" where
  "retrieve_ip [] s = s"
| "retrieve_ip (i # is) s =
     retrieve_ip is
       (case ifa_addr i of
          Inet a \<Rightarrow> (if take 4 (c_str (ifa_name i)) = ''eth0'' then set_my_ip (inet_ntoa a) s else s)
        | _ \<Rightarrow> s)"

text \<open>The constructor, on the two static objects as they are.\<close>

definition new_endpoint ::
    "ifaddr list \<Rightarrow> sfc_map \<Rightarrow> address option \<Rightarrow> http_state \<Rightarrow> u16 \<Rightarrow> u16 \<Rightarrow> endpoint_state" where
  "new_endpoint interfaces sfc r h external internal =
     retrieve_ip interfaces
       \<lparr> connection_map = Leaf, map_to_remote = Leaf, my_ip = [], ext_port = external,
         int_port = internal,
         chains = sfc, roulette = r, http = h \<rparr>"

lemma new_endpoint_tables [simp]:
  "connection_map (new_endpoint is sfc r h e i) = Leaf" "chains (new_endpoint is sfc r h e i) = sfc"
proof -
  have "connection_map (retrieve_ip is s) = connection_map s \<and> chains (retrieve_ip is s) = chains s" for s
    by (induction "is" s rule: retrieve_ip.induct) (auto simp: set_my_ip_def split: if_addr.splits)
  then show "connection_map (new_endpoint is sfc r h e i) = Leaf" "chains (new_endpoint is sfc r h e i) = sfc"
    by (simp_all add: new_endpoint_def)
qed

definition get_internal_port :: "endpoint_state \<Rightarrow> u16" where
  "get_internal_port s = int_port s"

definition get_external_port :: "endpoint_state \<Rightarrow> u16" where
  "get_external_port s = ext_port s"

definition set_remote :: "string \<Rightarrow> unit endpoint_action" where
  "set_remote ip s =
     bind_action (lift_result (address_of_string (c_str ip)))
       (\<lambda>a t. (Inr (), t \<lparr> roulette := Some a \<rparr>)) (s \<lparr> roulette := None \<rparr>)"

definition own_endpoint :: "endpoint_state \<Rightarrow> socket_fd \<Rightarrow> endpoint_type \<Rightarrow> db_endpoint" where
  "own_endpoint s fd e =
     new_db_endpoint (get_my_ip s @ '':'' @ to_string (unat (int_port s))) (to_string_int fd) e"

definition entry_query ::
    "endpoint_state \<Rightarrow> connection_entry \<Rightarrow> socket_fd \<Rightarrow> endpoint_type \<Rightarrow> protocol_type \<Rightarrow> query" where
  "entry_query s ce fd e p =
     build_query (set_port_dst (get_port_dst ce) (set_port_src (get_port_src ce)
       (set_ip_dst (get_ip_dst ce) (set_ip_src (get_ip_src ce) (set_endpoint (own_endpoint s fd e)
       (set_protocol p (set_id_sfc (get_sfcid ce) new_builder)))))))"

definition insert_connection ::
    "'j libs \<Rightarrow> connection_entry \<Rightarrow> sock_conn \<Rightarrow> unit endpoint_action" where
  "insert_connection L ce c s =
     (Inr (), s \<lparr> connection_map := map_insert ce_less (conn_shape L) (connection_map s) ce c \<rparr>)"

definition add_entry ::
    "'j libs \<Rightarrow> connection_entry \<Rightarrow> socket_fd \<Rightarrow> sockaddr_in \<Rightarrow> endpoint_type \<Rightarrow> protocol_type \<Rightarrow>
     unit endpoint_action" where
  "add_entry L ce fd sockin e p s0 =
     bind_action (insert_connection L ce (fd, sockin)) (\<lambda>_.
     bind_action (with_roulette (\<lambda>a. create_entry (lib_json L) (lib_http L) a
       (entry_query s0 ce fd e p))) (\<lambda>response s.
     if response \<noteq> []
     then (Inr (), s \<lparr> map_to_remote :=
       map_assign ce_less (remote_shape L) [] (map_to_remote s) ce response \<rparr>)
     else (Inr (), s))) s0"

definition update_query :: "connection_entry \<Rightarrow> query" where
  "update_query ce =
     build_query (set_protocol (get_protocol_type ce) (set_port_dst (get_port_dst ce)
       (set_port_src (get_port_src ce) (set_ip_dst (get_ip_dst ce) (set_ip_src (get_ip_src ce)
       (set_id_sfc (get_sfcid ce) (set_endpoint_type INGRESS_T new_builder)))))))"

definition update_entry ::
    "'j libs \<Rightarrow> connection_entry \<Rightarrow> socket_fd \<Rightarrow> sockaddr_in \<Rightarrow> endpoint_type \<Rightarrow>
     unit endpoint_action" where
  "update_entry L ce fd sockin e s0 =
     bind_action (with_roulette (\<lambda>a. update_endpoint (lib_json L) (lib_http L) a
       (update_query ce) (own_endpoint s0 fd e))) (\<lambda>_.
     insert_connection L ce (fd, sockin)) s0"

definition delete_entry :: "'j libs \<Rightarrow> connection_entry \<Rightarrow> unit endpoint_action" where
  "delete_entry L ce s =
     (case map_find ce_less (connection_map s) ce of
        None \<Rightarrow> (Inr (), s)
      | Some _ \<Rightarrow>
          (let s1 = s \<lparr> connection_map := map_erase ce_less (conn_shape L) (connection_map s) ce \<rparr>
           in case map_get ce_less (remote_shape L) [] (map_to_remote s1) ce of
                (remote_id, remotes) \<Rightarrow>
                  bind_action (with_roulette (\<lambda>a. delete_db_entry (lib_json L) (lib_http L) a
                    (c_str remote_id))) (\<lambda>_ t.
                  (Inr (), t \<lparr> map_to_remote :=
                    map_erase ce_less (remote_shape L) (map_to_remote t) ce \<rparr>))
                  (s1 \<lparr> map_to_remote := remotes \<rparr>)))"

definition no_connection :: sock_conn where
  "no_connection = (- 1, zero_sockaddr)"

definition retrieve_connection_2 :: "connection_entry \<Rightarrow> endpoint_state \<Rightarrow> sock_conn" where
  "retrieve_connection_2 ce s =
     (case map_find ce_less (connection_map s) ce of
        None \<Rightarrow> no_connection
      | Some e \<Rightarrow> snd e)"

text \<open>The classifier and the route of a chain, as the two proxies use them.\<close>

definition classify :: "'j libs \<Rightarrow> byte list \<Rightarrow> nat \<Rightarrow> string endpoint_action" where
  "classify L pkt pkt_len s =
     (case classify_pkt (sfc_shape L) pkt pkt_len (chains s) of (r, c) \<Rightarrow> (r, s \<lparr> chains := c \<rparr>))"

definition route_of_chain :: "'j libs \<Rightarrow> string \<Rightarrow> address list endpoint_action" where
  "route_of_chain L sfcid =
     bind_action (lift_result (stoi sfcid)) (\<lambda>n.
     with_roulette (\<lambda>a. get_route_list (lib_json L) (lib_http L) a (word_of_int n)))"

section \<open>The table of connections\<close>

text \<open>The table as a function from keys to connections, and its keys in order.\<close>

definition connections :: "endpoint_state \<Rightarrow> connection_entry \<rightharpoonup> sock_conn" where
  "connections s = map_of (inorder (connection_map s))"

definition remote_ids :: "endpoint_state \<Rightarrow> connection_entry \<rightharpoonup> string" where
  "remote_ids s = map_of (inorder (map_to_remote s))"

definition tables_ordered :: "connection_entry set \<Rightarrow> endpoint_state \<Rightarrow> bool" where
  "tables_ordered K s \<longleftrightarrow>
     map_order.ordered ce_less K (connection_map s) \<and> map_order.ordered ce_less K (map_to_remote s)"

definition shapes_ok :: "'j libs \<Rightarrow> bool" where
  "shapes_ok L \<longleftrightarrow>
     rebalances (conn_shape L) \<and> rebalances (remote_shape L) \<and> rebalances (sfc_shape L)"

lemmas comparable_laws =
  map_order.find_ordered [OF map_order_comparable] map_order.insert_ordered [OF map_order_comparable]
  map_order.assign_ordered [OF map_order_comparable] map_order.get_ordered [OF map_order_comparable]
  map_order.erase_ordered [OF map_order_comparable]

lemma with_roulette_tables [simp]:
  "connection_map (snd (with_roulette req s)) = connection_map s"
  "map_to_remote (snd (with_roulette req s)) = map_to_remote s"
  "chains (snd (with_roulette req s)) = chains s"
  "roulette (snd (with_roulette req s)) = roulette s"
  "my_ip (snd (with_roulette req s)) = my_ip s"
  by (simp_all add: with_roulette_def split: option.split prod.split)

lemma retrieve_connections:
  assumes "comparable K" "tables_ordered K s" "ce \<in> K"
  shows "retrieve_connection_2 ce s =
    (case connections s ce of None \<Rightarrow> no_connection | Some c \<Rightarrow> c)"
proof -
  have "map_find ce_less (connection_map s) ce = map_option (Pair ce) (connections s ce)"
    unfolding connections_def
    by (rule comparable_laws(1) [OF assms(1) _ assms(3)])
       (use assms(2) in \<open>simp add: tables_ordered_def\<close>)
  then show ?thesis by (cases "connections s ce") (simp_all add: retrieve_connection_2_def)
qed

text \<open>
  Whatever the table's tree looks like, a look-up answers with the value -1 for "no connection"
  or with a connection stored under exactly the key asked for: traffic never goes to another
  client's socket.
\<close>
lemma retrieve_never_crosses:
  "retrieve_connection_2 ce s = no_connection \<or>
     (ce, retrieve_connection_2 ce s) \<in> set (inorder (connection_map s))"
proof (cases "map_find ce_less (connection_map s) ce")
  case (Some e)
  have "e \<in> set (inorder (connection_map s)) \<and> fst e = ce"
    by (rule map_find_sound [OF ce_less_total Some])
  then show ?thesis using Some by (cases e) (simp add: retrieve_connection_2_def)
qed (simp add: retrieve_connection_2_def)

lemma with_roulette_cases:
  obtains r t where "with_roulette req s = (r, t)" "connection_map t = connection_map s"
    "map_to_remote t = map_to_remote s" "roulette t = roulette s" "chains t = chains s"
  by (rule that [OF prod.collapse [symmetric]]) simp_all

lemma add_entry_tables:
  "connection_map (snd (add_entry L ce fd a e p s)) =
     map_insert ce_less (conn_shape L) (connection_map s) ce (fd, a) \<and>
   (map_to_remote (snd (add_entry L ce fd a e p s)) = map_to_remote s \<or>
    (\<exists>r. map_to_remote (snd (add_entry L ce fd a e p s)) =
       map_assign ce_less (remote_shape L) [] (map_to_remote s) ce r))"
proof -
  let ?s1 = "s \<lparr> connection_map := map_insert ce_less (conn_shape L) (connection_map s) ce (fd, a) \<rparr>"
  obtain r t where "with_roulette (\<lambda>b. create_entry (lib_json L) (lib_http L) b
      (entry_query s ce fd e p)) ?s1 = (r, t)"
    "connection_map t = connection_map ?s1" "map_to_remote t = map_to_remote ?s1"
    by (rule with_roulette_cases)
  then show ?thesis
    by (cases r) (auto simp: add_entry_def insert_connection_def bind_action_def)
qed

lemma update_entry_tables:
  "map_to_remote (snd (update_entry L ce fd a e s)) = map_to_remote s \<and>
   connection_map (snd (update_entry L ce fd a e s)) =
     (if isl (fst (update_entry L ce fd a e s)) then connection_map s
      else map_insert ce_less (conn_shape L) (connection_map s) ce (fd, a))"
proof -
  obtain r t where "with_roulette (\<lambda>b. update_endpoint (lib_json L) (lib_http L) b
      (update_query ce) (own_endpoint s fd e)) s = (r, t)"
    "connection_map t = connection_map s" "map_to_remote t = map_to_remote s"
    by (rule with_roulette_cases)
  then show ?thesis
    by (cases r) (auto simp: update_entry_def insert_connection_def bind_action_def)
qed

lemma update_entry_fault:
  "isl (fst (update_entry L ce fd a e s)) \<longleftrightarrow>
     isl (fst (with_roulette (\<lambda>b. update_endpoint (lib_json L) (lib_http L) b
       (update_query ce) (own_endpoint s fd e)) s))"
  by (auto simp: update_entry_def insert_connection_def bind_action_def split: prod.split sum.split)

lemma delete_entry_absent:
  "map_find ce_less (connection_map s) ce = None \<Longrightarrow> delete_entry L ce s = (Inr (), s)"
  by (simp add: delete_entry_def)

lemma delete_entry_tables:
  fixes s :: endpoint_state
  assumes "map_find ce_less (connection_map s) ce = Some x"
    and "remotes = snd (map_get ce_less (remote_shape L) [] (map_to_remote s) ce)"
  shows "connection_map (snd (delete_entry L ce s)) =
      map_erase ce_less (conn_shape L) (connection_map s) ce \<and>
    (map_to_remote (snd (delete_entry L ce s)) = remotes \<or>
     map_to_remote (snd (delete_entry L ce s)) = map_erase ce_less (remote_shape L) remotes ce)"
proof -
  obtain i where get: "map_get ce_less (remote_shape L) [] (map_to_remote s) ce = (i, remotes)"
    by (cases "map_get ce_less (remote_shape L) [] (map_to_remote s) ce") (simp add: assms(2))
  let ?s1 = "s \<lparr> connection_map := map_erase ce_less (conn_shape L) (connection_map s) ce,
    map_to_remote := remotes \<rparr>"
  obtain r t where "with_roulette (\<lambda>b. delete_db_entry (lib_json L) (lib_http L) b (c_str i)) ?s1 =
      (r, t)" "connection_map t = connection_map ?s1" "map_to_remote t = map_to_remote ?s1"
    by (rule with_roulette_cases)
  then show ?thesis
    using assms(1) get by (cases r) (auto simp: delete_entry_def bind_action_def Let_def)
qed

lemma tables_orderedI:
  "map_order.ordered ce_less K (connection_map s) \<Longrightarrow>
   map_order.ordered ce_less K (map_to_remote s) \<Longrightarrow> tables_ordered K s"
  by (simp add: tables_ordered_def)

lemma add_entry_ordered:
  assumes "comparable K" "tables_ordered K s" "ce \<in> K" "shapes_ok L"
  shows "tables_ordered K (snd (add_entry L ce fd a e p s))"
    and "connections (snd (add_entry L ce fd a e p s)) =
      (if connections s ce = None then (connections s)(ce \<mapsto> (fd, a)) else connections s)"
proof -
  note laws = comparable_laws [OF assms(1) _ assms(3)]
  have sh: "rebalances (conn_shape L)" "rebalances (remote_shape L)"
    and ord: "map_order.ordered ce_less K (connection_map s)"
      "map_order.ordered ce_less K (map_to_remote s)"
    using assms(2,4) by (simp_all add: shapes_ok_def tables_ordered_def)
  show "tables_ordered K (snd (add_entry L ce fd a e p s))"
    using add_entry_tables [of L ce fd a e p s] laws(2) [OF ord(1) sh(1), of "(fd, a)"]
      laws(4) [OF ord(2) sh(2), of "[]"] ord(2) by (metis tables_orderedI)
  show "connections (snd (add_entry L ce fd a e p s)) =
      (if connections s ce = None then (connections s)(ce \<mapsto> (fd, a)) else connections s)"
    using add_entry_tables [of L ce fd a e p s] laws(3) [OF ord(1) sh(1), of "(fd, a)"]
    by (simp add: connections_def)
qed

lemma update_entry_ordered:
  assumes "comparable K" "tables_ordered K s" "ce \<in> K" "shapes_ok L"
  shows "tables_ordered K (snd (update_entry L ce fd a e s))"
    and "connections (snd (update_entry L ce fd a e s)) =
      (if isl (fst (update_entry L ce fd a e s)) \<or> connections s ce \<noteq> None
       then connections s else (connections s)(ce \<mapsto> (fd, a)))"
proof -
  note laws = comparable_laws [OF assms(1) _ assms(3)]
  have sh: "rebalances (conn_shape L)"
    and ord: "map_order.ordered ce_less K (connection_map s)"
      "map_order.ordered ce_less K (map_to_remote s)"
    using assms(2,4) by (simp_all add: shapes_ok_def tables_ordered_def)
  show "tables_ordered K (snd (update_entry L ce fd a e s))"
    using update_entry_tables [of L ce fd a e s] laws(2) [OF ord(1) sh, of "(fd, a)"] ord
    by (metis tables_orderedI)
  show "connections (snd (update_entry L ce fd a e s)) =
      (if isl (fst (update_entry L ce fd a e s)) \<or> connections s ce \<noteq> None
       then connections s else (connections s)(ce \<mapsto> (fd, a)))"
    using update_entry_tables [of L ce fd a e s] laws(3) [OF ord(1) sh, of "(fd, a)"]
    by (auto simp: connections_def)
qed

lemma delete_entry_ordered:
  assumes "comparable K" "tables_ordered K s" "ce \<in> K" "shapes_ok L"
  shows "tables_ordered K (snd (delete_entry L ce s))"
    and "connections (snd (delete_entry L ce s)) = (connections s)(ce := None)"
proof -
  note laws = comparable_laws [OF assms(1) _ assms(3)]
  have sh: "rebalances (conn_shape L)" "rebalances (remote_shape L)"
    and ord: "map_order.ordered ce_less K (connection_map s)"
      "map_order.ordered ce_less K (map_to_remote s)"
    using assms(2,4) by (simp_all add: shapes_ok_def tables_ordered_def)
  have "tables_ordered K (snd (delete_entry L ce s)) \<and>
    connections (snd (delete_entry L ce s)) = (connections s)(ce := None)"
  proof (cases "map_find ce_less (connection_map s) ce")
    case None
    then have "connections s ce = None" using laws(1) [OF ord(1)] by (simp add: connections_def)
    then have "(connections s)(ce := None) = connections s" by (simp add: fun_upd_idem)
    then show ?thesis using assms(2) by (simp add: delete_entry_absent [OF None])
  next
    case (Some x)
    let ?m = "snd (map_get ce_less (remote_shape L) [] (map_to_remote s) ce)"
    have m: "map_order.ordered ce_less K ?m" using laws(5) [OF ord(2) sh(2)] by blast
    show ?thesis
      using delete_entry_tables [OF Some refl, where L = L] laws(6) [OF ord(1) sh(1)] laws(6) [OF m sh(2)] m
      by (metis connections_def tables_orderedI)
  qed
  then show "tables_ordered K (snd (delete_entry L ce s))"
    and "connections (snd (delete_entry L ce s)) = (connections s)(ce := None)" by simp_all
qed

text \<open>
  C7: On keys that are comparable field by field the table is a finite map and the operations do to it
  what their names say, whatever the route service answers. Adding records the connection unless the key
  has one already (an old socket is kept). Updating does the same as soon as the request to the service
  has come back, whether the service accepted it or refused it; only when the request throws is the table
  left as it was. Deleting removes the connection. No operation touches another key, and the tables stay
  ordered.
\<close>
theorem tables_refine_finite_map:
  assumes "comparable K" "tables_ordered K s" "ce \<in> K" "shapes_ok L"
  shows "tables_ordered K (snd (add_entry L ce fd a e p s)) \<and>
    connections (snd (add_entry L ce fd a e p s)) =
      (if connections s ce = None then (connections s)(ce \<mapsto> (fd, a)) else connections s) \<and>
    tables_ordered K (snd (update_entry L ce fd a e s)) \<and>
    connections (snd (update_entry L ce fd a e s)) =
      (case fst (with_roulette (\<lambda>b. update_endpoint (lib_json L) (lib_http L) b
          (update_query ce) (own_endpoint s fd e)) s) of
         Inl thrown \<Rightarrow> connections s
       | Inr accepted \<Rightarrow>
           if connections s ce = None then (connections s)(ce \<mapsto> (fd, a)) else connections s) \<and>
    tables_ordered K (snd (delete_entry L ce s)) \<and>
    connections (snd (delete_entry L ce s)) = (connections s)(ce := None)"
  using add_entry_ordered [OF assms] update_entry_ordered [OF assms] delete_entry_ordered [OF assms]
    update_entry_fault [of L ce fd a e s]
  by (cases "connections s ce") (simp_all split: sum.split)

definition sample_libs :: "(string \<Rightarrow> bool \<times> json) \<Rightarrow> http_lib \<Rightarrow> json libs" where
  "sample_libs parse H =
     \<lparr> lib_json = sample_json parse, lib_http = H, conn_shape = leaf_shape,
       remote_shape = leaf_shape, sfc_shape = leaf_shape \<rparr>"

lemma shapes_ok_sample: "shapes_ok (sample_libs parse H)"
  by (simp add: shapes_ok_def sample_libs_def rebalances_leaf_shape)

definition sample_endpoint :: endpoint_state where
  "sample_endpoint = new_endpoint [\<lparr> ifa_name = ''eth0'', ifa_addr = Inet 0x0100000A \<rparr>] Leaf
     (Some home_address) no_http 8000 8001"

definition sample_key :: connection_entry where
  "sample_key = new_entry ''10.0.0.1'' ''10.0.0.2'' 4242 80 ''0'' UDP"

lemma tables_ordered_sample: "comparable K \<Longrightarrow> tables_ordered K sample_endpoint"
  by (simp add: tables_ordered_def sample_endpoint_def new_endpoint_def set_my_ip_def c_str_def
      map_order.ordered_Leaf [OF map_order_comparable])

lemma connections_sample [simp]: "connections sample_endpoint = Map.empty"
  by (simp add: connections_def sample_endpoint_def new_endpoint_def set_my_ip_def c_str_def)

theorem tables_refine_finite_map_witness:
  "connections (snd (add_entry (sample_libs (\<lambda>_. (True, JNull)) silent_service) sample_key 9
    zero_sockaddr INGRESS_T UDP sample_endpoint)) = [sample_key \<mapsto> (9, zero_sockaddr)]"
  using tables_refine_finite_map [OF comparable_singleton tables_ordered_sample
      [OF comparable_singleton] singletonI shapes_ok_sample, of sample_key "\<lambda>_. (True, JNull)"
      silent_service 9 zero_sockaddr INGRESS_T UDP]
  by simp

text \<open>
  C19: Two connections whose keys are incomparable field by field do not both survive in a table that
  was empty before, whatever the route service answers: the second is inserted to the left of the first
  and searched to its right, so its replies find no connection although it was just added. (With more
  entries it depends on the shape of the tree. Of the library's tree nothing is used but that inserting
  keeps the order of the entries, and hangs a second one below the first.)
\<close>
theorem incomparable_connection_lost:
  assumes "\<not> ce_below a b" "\<not> ce_below b a" "connection_map s = Leaf"
    "rebalances (conn_shape L)" "second_is_leaf (conn_shape L)"
  shows "retrieve_connection_2 b (snd (add_entry L b fd' x' e' p' (snd (add_entry L a fd x e p s))))
      = no_connection \<and>
    retrieve_connection_2 a (snd (add_entry L b fd' x' e' p' (snd (add_entry L a fd x e p s))))
      = (fd, x)"
proof -
  let ?t = "snd (add_entry L b fd' x' e' p' (snd (add_entry L a fd x e p s)))"
  have m: "connection_map ?t = map_insert ce_less (conn_shape L)
      (map_insert ce_less (conn_shape L) Leaf a (fd, x)) b (fd', x')"
    using add_entry_tables [of L b fd' x' e' p' "snd (add_entry L a fd x e p s)"]
      add_entry_tables [of L a fd x e p s] assms(3) by simp
  have "ce_less a b" "ce_less b a" using assms(1,2) by (simp_all add: ce_less_not_below)
  then have "map_find ce_less (connection_map ?t) b = None"
    "map_find ce_less (connection_map ?t) a = Some (a, (fd, x))"
    using mutual_insert_lost [OF _ _ ce_less_irrefl ce_less_irrefl assms(4,5) m] by simp_all
  then show ?thesis by (simp add: retrieve_connection_2_def)
qed

theorem incomparable_connection_lost_witness:
  "\<exists>L :: json libs. retrieve_connection_2 (new_entry ''10.0.0.4'' ''10.0.0.2'' 4000 80 ''0'' UDP)
    (snd (add_entry L (new_entry ''10.0.0.4'' ''10.0.0.2'' 4000 80 ''0'' UDP) 7 zero_sockaddr
      INGRESS_T UDP (snd (add_entry L (new_entry ''10.0.0.3'' ''10.0.0.2'' 5000 80 ''0'' UDP) 7
      zero_sockaddr INGRESS_T UDP sample_endpoint)))) = no_connection"
proof -
  let ?a = "new_entry ''10.0.0.3'' ''10.0.0.2'' 5000 80 ''0'' UDP"
  let ?b = "new_entry ''10.0.0.4'' ''10.0.0.2'' 4000 80 ''0'' UDP"
  let ?L = "sample_libs (\<lambda>_. (True, JNull)) silent_service"
  have "\<not> ce_below ?a ?b" by (simp add: ce_below_def new_entry_def)
  moreover have "\<not> ce_below ?b ?a"
    by (simp add: ce_below_def new_entry_def less_eq_list_code less_list_code less_char_def)
  moreover have "connection_map sample_endpoint = Leaf"
    by (simp add: sample_endpoint_def new_endpoint_def set_my_ip_def c_str_def)
  moreover have "rebalances (conn_shape ?L)" "second_is_leaf (conn_shape ?L)"
    by (simp_all add: sample_libs_def rebalances_leaf_shape second_is_leaf_shape)
  ultimately show ?thesis using incomparable_connection_lost [of ?a ?b sample_endpoint ?L] by blast
qed

section \<open>Requests to the route service\<close>

text \<open>
  C34: Deleting a connection that the table holds, under keys that are comparable, in a table in
  their order, sends one DELETE for the identifier that the service gave it, which has no slash and
  no NUL in it. When the service gave none, which add_entry accepts, the identifier is the empty
  string that the subscript has just created, and the path is that of all entries. Curl gives a
  handle here, and the address of the service has no NUL in it.
\<close>
theorem delete_entry_sends_id:
  assumes "comparable K" "tables_ordered K s" "ce \<in> K" "shapes_ok L"
    and "connections s ce \<noteq> None" "roulette s = Some a" "CHR 0x00 \<notin> set (addr_text a)"
    and "h_init (lib_http L) (sent (http s))"
    and "remote_ids s ce = None \<or> (\<exists>i. remote_ids s ce = Some i \<and> segment i)"
  shows "\<exists>r. req_method r = ''DELETE'' \<and>
    req_url r = get_URL a @ ''endpoints/'' @ (case remote_ids s ce of None \<Rightarrow> [] | Some i \<Rightarrow> i) \<and>
    sent (http (snd (delete_entry L ce s))) = sent (http s) @ [r]"
proof -
  note laws = comparable_laws [OF assms(1) _ assms(3)]
  let ?id = "case remote_ids s ce of None \<Rightarrow> [] | Some i \<Rightarrow> i"
  have ord: "map_order.ordered ce_less K (connection_map s)"
      "map_order.ordered ce_less K (map_to_remote s)" and sh: "rebalances (remote_shape L)"
    using assms(2,4) by (simp_all add: shapes_ok_def tables_ordered_def)
  obtain c where find: "map_find ce_less (connection_map s) ce = Some c"
    using laws(1) [OF ord(1)] assms(5) by (auto simp: connections_def)
  obtain m where get: "map_get ce_less (remote_shape L) [] (map_to_remote s) ce = (?id, m)"
    using laws(5) [OF ord(2) sh, of "[]"]
    by (cases "map_get ce_less (remote_shape L) [] (map_to_remote s) ce") (simp add: remote_ids_def)
  have id: "?id = [] \<or> segment ?id" "c_str ?id = ?id"
    using assms(9) by (auto simp: segment_def c_str_def takeWhile_eq_all_conv)
  obtain r where r: "req_method r = ''DELETE''" "req_url r = get_URL a @ ''endpoints/'' @ ?id"
      "sent (snd (delete_db_entry (lib_json L) (lib_http L) a ?id (http s))) = sent (http s) @ [r]"
    using delete_request [OF id(1) assms(8,7)] by blast
  have "sent (http (snd (delete_entry L ce s))) = sent (http s) @ [r]"
    using find get r(3) id(2) assms(6)
    by (cases "delete_db_entry (lib_json L) (lib_http L) a ?id (http s)")
       (auto simp: delete_entry_def with_roulette_def bind_action_def Let_def split: sum.split)
  with r(1,2) show ?thesis by blast
qed

theorem delete_entry_sends_id_witness:
  "\<exists>r s. connections s sample_key \<noteq> None \<and> req_method r = ''DELETE'' \<and>
    req_url r = ''http://h:80/endpoints/'' \<and>
    sent (http (snd (delete_entry (sample_libs (\<lambda>_. (True, JNull)) silent_service) sample_key s))) = [r]"
proof -
  let ?L = "sample_libs (\<lambda>_. (True, JNull)) silent_service"
  let ?s = "sample_endpoint \<lparr> connection_map := Node Leaf (sample_key, (9, zero_sockaddr)) Leaf \<rparr>"
  note new = sample_endpoint_def new_endpoint_def set_my_ip_def c_str_def
  have ord: "tables_ordered {sample_key} ?s"
    by (simp add: tables_ordered_def new map_order.ordered_def [OF map_order_comparable])
  have con: "connections ?s sample_key \<noteq> None" by (simp add: connections_def)
  have ids: "remote_ids ?s sample_key = None" by (simp add: remote_ids_def new)
  have s: "roulette ?s = Some home_address" "CHR 0x00 \<notin> set (addr_text home_address)"
    "h_init (lib_http ?L) (sent (http ?s))" "sent (http ?s) = []"
    by (simp_all add: new home_address_def sample_libs_def silent_service_def no_http_def)
  obtain r where "req_method r = ''DELETE''" "req_url r = get_URL home_address @ ''endpoints/''"
      "sent (http (snd (delete_entry ?L sample_key ?s))) = [r]"
    using delete_entry_sends_id [OF comparable_singleton ord singletonI shapes_ok_sample con s(1-3)]
      ids s(4) by auto
  moreover have "get_URL home_address = ''http://h:80/''"
    by (simp add: get_URL_def home_address_def separators to_string.simps digit_chars)
  ultimately show ?thesis using con by (intro exI [of _ r] exI [of _ ?s]) simp
qed

text \<open>
  The proxy's own address is that of the last IPv4 interface whose name starts with eth0, in the
  order in which the system lists them, and the one it had when there is none.
\<close>
lemma retrieve_ip_last:
  "my_ip (retrieve_ip interfaces s) =
    last (my_ip s # concat (map (\<lambda>i. case ifa_addr i of
        Inet a \<Rightarrow> (if take 4 (c_str (ifa_name i)) = ''eth0'' then [int_to_ip a] else [])
      | _ \<Rightarrow> []) interfaces))"
  by (induction interfaces s rule: retrieve_ip.induct)
     (auto simp: set_my_ip_def int_to_ip_def split: if_addr.split)

text \<open>
  Setting the service's address deletes the client first: when the text cannot be parsed the
  exception leaves a dangling pointer, and exactly then; otherwise the client is a new one for the
  address parsed. Nothing else changes.
\<close>
lemma set_remote_dangling:
  "set_remote ip s =
    (case address_of_string (c_str ip) of
       Inl f \<Rightarrow> (Inl f, s \<lparr> roulette := None \<rparr>)
     | Inr a \<Rightarrow> (Inr (), s \<lparr> roulette := Some a \<rparr>))"
  by (simp add: set_remote_def split: sum.split)

end
