(* ===== verification/System_Calls.thy ===== *)
theory System_Calls
  imports Endpoint
begin

text \<open>
  The calls of the operating system that the clients and the proxies make. The system is not part of
  the repository: it is the argument \<open>os\<close>, which gives every call a return value that may depend on
  all calls before it, and getaddrinfo its list. A state records the calls with their return values,
  so what the program sends, and which descriptors it opens and closes, can be read off.
\<close>

section \<open>Calls and their trace\<close>

record addrinfo =
  ai_family :: int
  ai_socktype :: int
  ai_protocol :: int
  ai_addr :: "byte list"

datatype destination = Resolved "byte list" | Ipv4 sockaddr_in

datatype sys_call =
    Getaddrinfo string string int int
  | Inet_pton string
  | Socket int int int
  | Connect int "byte list"
  | Bind int sockaddr_in
  | Sendto int "byte list" destination
  | Send int "byte list"
  | Read_call int
  | Shutdown int int
  | Close int
  | Setsockopt int
  | Listen int int
  | Signal_handler int

type_synonym sys_trace = "(sys_call \<times> int) list"

record os_lib =
  os_ret :: "sys_trace \<Rightarrow> sys_call \<Rightarrow> int"
  os_resolved :: "sys_trace \<Rightarrow> addrinfo list"

text \<open>What a call that receives gives: the bytes, the end of the stream, or an error.\<close>

datatype received = Data "byte list" | End_of_stream | Receive_error

definition AF_INET :: int where "AF_INET = 2"
definition SOCK_STREAM :: int where "SOCK_STREAM = 1"
definition SOCK_DGRAM :: int where "SOCK_DGRAM = 2"
definition SOCK_RAW :: int where "SOCK_RAW = 3"
definition IPPROTO_TCP :: int where "IPPROTO_TCP = 6"
definition IPPROTO_UDP :: int where "IPPROTO_UDP = 17"
definition IPPROTO_RAW :: int where "IPPROTO_RAW = 255"

type_synonym 'a sys = "(sys_trace, 'a) action"

definition sys :: "os_lib \<Rightarrow> sys_call \<Rightarrow> int sys" where
  "sys os c t = (let r = os_ret os t c in (Inr r, t @ [(c, r)]))"

text \<open>A call whose value decides nothing.\<close>

definition sys_do :: "os_lib \<Rightarrow> sys_call \<Rightarrow> unit sys" where
  "sys_do os c t = (Inr (), t @ [(c, os_ret os t c)])"

definition when_action :: "bool \<Rightarrow> ('s, unit) action \<Rightarrow> ('s, unit) action" where
  "when_action b m = (if b then m else return_action ())"

section \<open>Descriptors\<close>

text \<open>
  The sockets that a stretch of calls opened, and the descriptors it closed, in order. The code
  takes a value of socket for a descriptor when it is positive.
\<close>

fun opened :: "sys_trace \<Rightarrow> int list" where
  "opened [] = []"
| "opened ((c, r) # t) = (case c of Socket _ _ _ \<Rightarrow> if 0 < r then [r] else [] | _ \<Rightarrow> []) @ opened t"

fun closed :: "sys_trace \<Rightarrow> int list" where
  "closed [] = []"
| "closed ((c, r) # t) = (case c of Close fd \<Rightarrow> [fd] | _ \<Rightarrow> []) @ closed t"

lemma opened_append [simp]: "opened (t @ u) = opened t @ opened u"
  by (induction t rule: opened.induct) auto

lemma closed_append [simp]: "closed (t @ u) = closed t @ closed u"
  by (induction t rule: closed.induct) auto

text \<open>The messages sent, with the descriptor, in order.\<close>

fun sent_bytes :: "sys_trace \<Rightarrow> (int \<times> byte list) list" where
  "sent_bytes [] = []"
| "sent_bytes ((c, r) # t) =
     (case c of Sendto fd b _ \<Rightarrow> [(fd, b)] | Send fd b \<Rightarrow> [(fd, b)] | _ \<Rightarrow> []) @ sent_bytes t"

lemma sent_bytes_append [simp]: "sent_bytes (t @ u) = sent_bytes t @ sent_bytes u"
  by (induction t rule: sent_bytes.induct) auto

lemma sys_apply [simp]: "sys os c t = (Inr (os_ret os t c), t @ [(c, os_ret os t c)])"
  by (simp add: sys_def Let_def)

lemma sys_unit_apply [simp]: "sys_do os c t = (Inr (), t @ [(c, os_ret os t c)])"
  by (simp add: sys_do_def)

text \<open>The datagrams that the system accepted.\<close>

fun delivered :: "sys_trace \<Rightarrow> byte list list" where
  "delivered [] = []"
| "delivered ((c, r) # t) =
     (case c of Sendto _ b _ \<Rightarrow> if 0 < r then [b] else [] | _ \<Rightarrow> []) @ delivered t"

lemma delivered_append [simp]: "delivered (t @ u) = delivered t @ delivered u"
  by (induction t rule: delivered.induct) auto

lemma bind_sys [simp]:
  "bind_action (sys os c) k t = k (os_ret os t c) (t @ [(c, os_ret os t c)])"
  by (simp add: bind_action_def)

lemma bind_sys_do [simp]:
  "bind_action (sys_do os c) k t = k () (t @ [(c, os_ret os t c)])"
  by (simp add: bind_action_def)

lemma bind_when_sys [simp]:
  "bind_action (when_action b (sys_do os c)) k t =
     k () (if b then t @ [(c, os_ret os t c)] else t)"
  by (simp add: bind_action_def when_action_def)

lemma when_sys [simp]:
  "when_action b (sys_do os c) t = (Inr (), if b then t @ [(c, os_ret os t c)] else t)"
  by (simp add: when_action_def)

end
