(* ===== verification/Clients.thy ===== *)
theory Clients
  imports System_Calls "HOL-Library.Multiset"
begin

text \<open>
  The two clients, src/src/client/clientudp.cpp and clienttcp.cpp, and their headers. The UDP client
  tries the resolved addresses in order until a datagram is sent; one of its two functions closes
  every socket it opens, the other returns the last one and closes none. The TCP client connects to
  the first address that answers.
\<close>

section \<open>ClientUDP\<close>

text \<open>The loop over the resolved addresses; \<open>close_old\<close> tells the two functions apart.\<close>

fun send_loop :: "os_lib \<Rightarrow> bool \<Rightarrow> byte list result \<Rightarrow> addrinfo list \<Rightarrow> int \<Rightarrow> bool \<Rightarrow> int sys" where
  "send_loop os close_old msg [] sfd send_flag = return_action sfd"
| "send_loop os close_old msg (rp # rps) sfd send_flag =
     (if \<not> send_flag then return_action sfd
      else bind_action (when_action (close_old \<and> sfd > 0) (sys_do os (Close sfd))) (\<lambda>_.
           bind_action (sys os (Socket (ai_family rp) (ai_socktype rp) (ai_protocol rp))) (\<lambda>fd.
           if fd > 0
           then bind_action (sys os (Connect fd (ai_addr rp))) (\<lambda>c.
                if c \<noteq> - 1
                then bind_action (lift_result msg) (\<lambda>bytes.
                     bind_action (sys os (Sendto fd bytes (Resolved (ai_addr rp)))) (\<lambda>res.
                     send_loop os close_old msg rps fd (if res > 0 then False else send_flag)))
                else send_loop os close_old msg rps fd send_flag)
           else send_loop os close_old msg rps fd send_flag)))"

definition resolve :: "os_lib \<Rightarrow> string \<Rightarrow> u16 \<Rightarrow> int \<Rightarrow> int \<Rightarrow> addrinfo list sys" where
  "resolve os dst port socktype protocol =
     bind_action (sys os (Getaddrinfo (c_str dst) (to_string (unat port)) socktype protocol)) (\<lambda>s t.
     if s \<noteq> 0 then (Inl (Exit_process 1), t) else (Inr (os_resolved os t), t))"

definition send_and_wait_response ::
    "os_lib \<Rightarrow> byte list \<Rightarrow> nat \<Rightarrow> string \<Rightarrow> u16 \<Rightarrow> unit sys" where
  "send_and_wait_response os message message_len dst port =
     bind_action (resolve os dst port SOCK_DGRAM IPPROTO_UDP) (\<lambda>result.
     bind_action (send_loop os True (read_bytes message 0 message_len) result (- 1) True) (\<lambda>sfd.
     when_action (sfd > 0) (sys_do os (Close sfd))))"

definition send_only :: "os_lib \<Rightarrow> byte list \<Rightarrow> nat \<Rightarrow> string \<Rightarrow> u16 \<Rightarrow> int sys" where
  "send_only os message message_len dst port =
     bind_action (resolve os dst port SOCK_DGRAM IPPROTO_UDP) (\<lambda>result.
     send_loop os False (read_bytes message 0 message_len) result (- 1) True)"

section \<open>ClientTCP\<close>

record client_tcp =
  tcp_serv_addr :: sockaddr_in
  tcp_sock :: int

fun connect_loop :: "os_lib \<Rightarrow> addrinfo list \<Rightarrow> int \<Rightarrow> bool \<Rightarrow> (int \<times> bool) sys" where
  "connect_loop os [] sfd send_flag = return_action (sfd, send_flag)"
| "connect_loop os (rp # rps) sfd send_flag =
     (if \<not> send_flag then return_action (sfd, send_flag)
      else bind_action (when_action (sfd > 0) (sys_do os (Close sfd))) (\<lambda>_.
           bind_action (sys os (Socket (ai_family rp) (ai_socktype rp) (ai_protocol rp))) (\<lambda>fd.
           if fd > 0
           then bind_action (sys os (Connect fd (ai_addr rp))) (\<lambda>c.
                connect_loop os rps fd (if c \<noteq> - 1 then False else send_flag))
           else connect_loop os rps fd send_flag)))"

text \<open>
  The first socket, on which nothing is ever done, is in the member until the loop's result
  replaces it. inet_pton gets the address in network order from the text.
\<close>

definition connect_to_server :: "os_lib \<Rightarrow> (string \<Rightarrow> u32) \<Rightarrow> string \<Rightarrow> u16 \<Rightarrow> client_tcp sys" where
  "connect_to_server os pton dst port =
     bind_action (sys os (Socket AF_INET SOCK_STREAM 0)) (\<lambda>first.
     if first < 0 then fail_action (Exit_process 1)
     else bind_action (sys os (Inet_pton (c_str dst))) (\<lambda>ok.
     if ok \<le> 0 then fail_action (Exit_process 1)
     else bind_action (resolve os dst port SOCK_STREAM IPPROTO_TCP) (\<lambda>result.
     bind_action (connect_loop os result (- 1) True) (\<lambda>(sfd, send_flag).
     if send_flag then fail_action (Exit_process 1)
     else return_action \<lparr> tcp_serv_addr = \<lparr> sin_port = htons port, sin_addr = pton (c_str dst) \<rparr>,
       tcp_sock = sfd \<rparr>))))"

text \<open>
  Both out-parameters are passed by value: what was read is lost, and the buffer allocated for it.
  The test for an error compares with -1 the wrong way round, so no value of read passes it.
\<close>

definition send_and_receive :: "os_lib \<Rightarrow> client_tcp \<Rightarrow> byte list \<Rightarrow> nat \<Rightarrow> unit sys" where
  "send_and_receive os c message message_len =
     bind_action (lift_result (read_bytes message 0 message_len)) (\<lambda>msg.
     bind_action (sys_do os (Send (tcp_sock c) msg)) (\<lambda>_.
     bind_action (sys os (Read_call (tcp_sock c))) (\<lambda>received_len.
     if received_len < - 1 then fail_action (Exit_process 1) else return_action ())))"

definition access_to_socket :: "client_tcp \<Rightarrow> int" where
  "access_to_socket c = tcp_sock c"

definition access_to_sockaddr_in :: "client_tcp \<Rightarrow> sockaddr_in" where
  "access_to_sockaddr_in c = tcp_serv_addr c"

definition close_connection :: "os_lib \<Rightarrow> client_tcp \<Rightarrow> unit sys" where
  "close_connection os c = sys_do os (Close (tcp_sock c))"

section \<open>What the clients open and close\<close>

text \<open>
  \<open>balanced sfd t fd u\<close>: between the traces t and u, the socket held before and those opened are
  the ones closed and the one held after.
\<close>

definition held :: "int \<Rightarrow> int multiset" where
  "held fd = (if 0 < fd then {#fd#} else {#})"

definition balanced :: "int \<Rightarrow> sys_trace \<Rightarrow> int \<Rightarrow> sys_trace \<Rightarrow> bool" where
  "balanced sfd t fd u \<longleftrightarrow>
     held sfd + mset (opened u) + mset (closed t) = mset (closed u) + held fd + mset (opened t)"

lemma balanced_refl [simp]: "balanced sfd t sfd t"
  by (simp add: balanced_def)

lemma balanced_trans:
  assumes "balanced a t b u" "balanced b u c v"
  shows "balanced a t c v"
proof -
  have "(held a + mset (opened u) + mset (closed t)) + (held b + mset (opened v) + mset (closed u)) =
      (mset (closed u) + held b + mset (opened t)) + (mset (closed v) + held c + mset (opened u))"
    using assms by (simp add: balanced_def)
  then show ?thesis by (simp add: balanced_def union_ac)
qed

text \<open>Closing the old socket and opening the next, with calls between that do neither.\<close>

lemma balanced_next:
  assumes "opened w = []" "closed w = []"
    and "t' = (if 0 < sfd then t @ [(Close sfd, r)] else t)"
  shows "balanced sfd t fd (t' @ [(Socket f ty p, fd)] @ w)"
  using assms by (simp add: balanced_def held_def)

text \<open>One round of the loop: what was held is closed, a socket is opened, the rest goes on.\<close>

lemma send_loop_step:
  assumes "send_loop os True msg (rp # rps) sfd True t = (Inr fd, u)"
  obtains w f new where "opened w = []" "closed w = []"
    "balanced sfd t new ((if 0 < sfd then t @ [(Close sfd, os_ret os t (Close sfd))] else t) @
       [(Socket (ai_family rp) (ai_socktype rp) (ai_protocol rp), new)] @ w)"
    "send_loop os True msg rps new f
       ((if 0 < sfd then t @ [(Close sfd, os_ret os t (Close sfd))] else t) @
       [(Socket (ai_family rp) (ai_socktype rp) (ai_protocol rp), new)] @ w) = (Inr fd, u)"
proof -
  let ?t1 = "if 0 < sfd then t @ [(Close sfd, os_ret os t (Close sfd))] else t"
  let ?sc = "Socket (ai_family rp) (ai_socktype rp) (ai_protocol rp)"
  let ?new = "os_ret os ?t1 ?sc"
  let ?t2 = "?t1 @ [(?sc, ?new)]"
  let ?c = "os_ret os ?t2 (Connect ?new (ai_addr rp))"
  note nxt = that [of _ ?new, OF _ _ balanced_next [OF _ _ refl]]
  consider "\<not> 0 < ?new" | "0 < ?new" "?c = - 1" | "0 < ?new" "?c \<noteq> - 1" by blast
  then show thesis
  proof cases
    case 1
    then show thesis using nxt [of "[]" True] assms by simp
  next
    case 2
    then show thesis
      using nxt [of "[(Connect ?new (ai_addr rp), ?c)]" True] assms by simp
  next
    case 3
    then obtain bytes where "msg = Inr bytes" using assms by (cases msg) simp_all
    with 3 show thesis
      using nxt [of "[(Connect ?new (ai_addr rp), ?c), (Sendto ?new bytes (Resolved (ai_addr rp)),
          os_ret os (?t2 @ [(Connect ?new (ai_addr rp), ?c)])
            (Sendto ?new bytes (Resolved (ai_addr rp))))]"] assms by simp
  qed
qed

lemma send_loop_balanced:
  "send_loop os True msg rps sfd flag t = (Inr fd, u) \<Longrightarrow> balanced sfd t fd u"
proof (induction rps arbitrary: sfd flag t)
  case (Cons rp rps)
  show ?case
  proof (cases flag)
    case True
    with Cons.prems have "send_loop os True msg (rp # rps) sfd True t = (Inr fd, u)" by simp
    then show ?thesis
      by (rule send_loop_step) (use Cons.IH balanced_trans in blast)
  qed (use Cons.prems in simp)
qed simp

lemma resolve_Inr:
  assumes "resolve os dst port ty p t = (Inr rps, u)"
  shows "opened u = opened t" "closed u = closed t" "delivered u = delivered t"
    "rps = os_resolved os u"
  using assms by (auto simp: resolve_def split: if_splits)

lemma send_and_wait_balance:
  assumes "send_and_wait_response os message n dst port t = (Inr (), u)"
  shows "mset (opened u) + mset (closed t) = mset (closed u) + mset (opened t)"
proof -
  obtain rps t' where res: "resolve os dst port SOCK_DGRAM IPPROTO_UDP t = (Inr rps, t')"
    using assms by (cases "resolve os dst port SOCK_DGRAM IPPROTO_UDP t")
      (auto simp: send_and_wait_response_def bind_action_def split: sum.splits)
  obtain fd v where loop: "send_loop os True (read_bytes message 0 n) rps (- 1) True t' = (Inr fd, v)"
    using assms res
    by (cases "send_loop os True (read_bytes message 0 n) rps (- 1) True t'")
      (auto simp: send_and_wait_response_def bind_action_def split: sum.splits)
  have u: "u = (if 0 < fd then v @ [(Close fd, os_ret os v (Close fd))] else v)"
    using assms res loop by (simp add: send_and_wait_response_def bind_action_def)
  have "balanced (- 1) t' fd v" by (rule send_loop_balanced [OF loop])
  then show ?thesis
    using resolve_Inr(1,2) [OF res] by (auto simp: u balanced_def held_def split: if_splits)
qed

text \<open>
  The client that every packet for the chain goes through gives back every socket: when it
  returns, the sockets it opened are the descriptors it closed, each once.
\<close>
lemma udp_client_closes_sockets:
  assumes "send_and_wait_response os message n dst port t = (Inr (), u)"
  shows "mset (opened u) + mset (closed t) = mset (closed u) + mset (opened t)"
  by (rule send_and_wait_balance [OF assms])

text \<open>An operating system that answers every call with success.\<close>

definition sample_os :: "addrinfo list \<Rightarrow> os_lib" where
  "sample_os rps =
     \<lparr> os_ret = (\<lambda>t c. case c of Socket _ _ _ \<Rightarrow> 3 + int (length (opened t)) | Sendto _ b _ \<Rightarrow> int (length b)
         | Send _ b \<Rightarrow> int (length b) | Inet_pton _ \<Rightarrow> 1 | _ \<Rightarrow> 0),
       os_resolved = (\<lambda>_. rps) \<rparr>"

definition sample_addrinfo :: addrinfo where
  "sample_addrinfo = \<lparr> ai_family = 2, ai_socktype = 2, ai_protocol = 17, ai_addr = [10, 0, 0, 7] \<rparr>"

lemma sample_send:
  "send_and_wait_response (sample_os [sample_addrinfo]) [1, 2, 3] 3 ''n'' 57 [] =
    (Inr (), [(Getaddrinfo ''n'' ''57'' 2 17, 0), (Socket 2 2 17, 3), (Connect 3 [10, 0, 0, 7], 0),
      (Sendto 3 [1, 2, 3] (Resolved [10, 0, 0, 7]), 3), (Close 3, 0)])"
  by (simp add: send_and_wait_response_def resolve_def bind_action_def sample_os_def
      sample_addrinfo_def SOCK_DGRAM_def IPPROTO_UDP_def read_bytes_def c_str_def to_string.simps
      digit_chars)

lemma send_loop_delivered:
  "send_loop os co msg rps sfd flag t = (r, u) \<Longrightarrow>
     delivered u = delivered t \<or> flag \<and> (\<exists>b. msg = Inr b \<and> delivered u = delivered t @ [b])"
proof (induction rps arbitrary: sfd flag t)
  case (Cons rp rps)
  let ?t1 = "if co \<and> 0 < sfd then t @ [(Close sfd, os_ret os t (Close sfd))] else t"
  let ?sc = "Socket (ai_family rp) (ai_socktype rp) (ai_protocol rp)"
  let ?new = "os_ret os ?t1 ?sc"
  let ?t2 = "?t1 @ [(?sc, ?new)]"
  let ?c = "os_ret os ?t2 (Connect ?new (ai_addr rp))"
  let ?t3 = "?t2 @ [(Connect ?new (ai_addr rp), ?c)]"
  have same: "delivered ?t2 = delivered t" "delivered ?t3 = delivered t" by simp_all
  show ?case
  proof (cases "flag \<and> 0 < ?new \<and> ?c \<noteq> - 1")
    case True
    show ?thesis
    proof (cases msg)
      case (Inl f)
      then show ?thesis using Cons.prems True same by auto
    next
      case (Inr b)
      let ?res = "os_ret os ?t3 (Sendto ?new b (Resolved (ai_addr rp)))"
      have "send_loop os co msg (rp # rps) sfd flag t =
          send_loop os co msg rps ?new (if 0 < ?res then False else flag)
            (?t3 @ [(Sendto ?new b (Resolved (ai_addr rp)), ?res)])"
        using True Inr by (simp del: append_assoc)
      then have "send_loop os co msg rps ?new (if 0 < ?res then False else flag)
            (?t3 @ [(Sendto ?new b (Resolved (ai_addr rp)), ?res)]) = (r, u)"
        using Cons.prems by (rule trans [OF sym])
      from Cons.IH [OF this] show ?thesis using True Inr same by (auto split: if_splits)
    qed
  next
    case False
    then have "\<not> flag \<and> u = t \<or> send_loop os co msg rps ?new flag ?t2 = (r, u) \<or>
        send_loop os co msg rps ?new flag ?t3 = (r, u)"
      using Cons.prems by (auto split: if_splits)
    then show ?thesis using Cons.IH same by metis
  qed
qed simp

text \<open>
  However many addresses the name resolves to, the message is accepted by the system at most
  once, and what is accepted is the message.
\<close>
lemma udp_client_at_most_once:
  "\<exists>ds. delivered (snd (send_and_wait_response os message n dst port t)) = delivered t @ ds \<and>
    (ds = [] \<or> read_bytes message 0 n = Inr (concat ds) \<and> length ds = 1)"
proof (cases "resolve os dst port SOCK_DGRAM IPPROTO_UDP t")
  case (Pair r t')
  show ?thesis
  proof (cases r)
    case (Inl f)
    then show ?thesis
      using Pair by (auto simp: send_and_wait_response_def bind_action_def resolve_def split: if_splits)
  next
    case (Inr rps)
    obtain q v where loop: "send_loop os True (read_bytes message 0 n) rps (- 1) True t' = (q, v)"
      by fastforce
    have "delivered (snd (send_and_wait_response os message n dst port t)) = delivered v"
      using Pair Inr loop by (cases q) (simp_all add: send_and_wait_response_def bind_action_def)
    moreover have "delivered t' = delivered t" using resolve_Inr(3) Pair Inr by blast
    ultimately show ?thesis using send_loop_delivered [OF loop] by auto
  qed
qed

section \<open>The TCP client's sockets\<close>

lemma connect_loop_balanced:
  "connect_loop os rps sfd flag t = (Inr (fd, flag'), u) \<Longrightarrow>
     balanced sfd t fd u \<and> (flag \<and> \<not> flag' \<longrightarrow> 0 < fd)"
proof (induction rps arbitrary: sfd flag t)
  case (Cons rp rps)
  show ?case
  proof (cases flag)
    case True
    let ?t1 = "if 0 < sfd then t @ [(Close sfd, os_ret os t (Close sfd))] else t"
    let ?sc = "Socket (ai_family rp) (ai_socktype rp) (ai_protocol rp)"
    let ?new = "os_ret os ?t1 ?sc"
    let ?t2 = "?t1 @ [(?sc, ?new)]"
    let ?c = "os_ret os ?t2 (Connect ?new (ai_addr rp))"
    let ?w = "[(Connect ?new (ai_addr rp), ?c)]"
    show ?thesis
    proof (cases "0 < ?new")
      case False
      then have "connect_loop os rps ?new True (?t1 @ [(?sc, ?new)] @ []) = (Inr (fd, flag'), u)"
        using Cons.prems True by simp
      moreover have "balanced sfd t ?new (?t1 @ [(?sc, ?new)] @ [])"
        by (rule balanced_next [OF _ _ refl]) simp_all
      ultimately show ?thesis using Cons.IH True balanced_trans by blast
    next
      case pos: True
      then have rest: "connect_loop os rps ?new (?c = - 1) (?t1 @ [(?sc, ?new)] @ ?w) =
          (Inr (fd, flag'), u)"
        using Cons.prems True by (simp split: if_splits)
      have "balanced sfd t ?new (?t1 @ [(?sc, ?new)] @ ?w)"
        by (rule balanced_next [OF _ _ refl]) simp_all
      moreover have "?c \<noteq> - 1 \<Longrightarrow> fd = ?new" using rest by (cases rps) auto
      ultimately show ?thesis
        using Cons.IH [OF rest] pos True balanced_trans by blast
    qed
  qed (use Cons.prems in simp)
qed auto

lemma connect_balance:
  assumes "connect_to_server os pton dst port t = (Inr c, u)"
    and "first = os_ret os t (Socket AF_INET SOCK_STREAM 0)" "0 < first"
  shows "0 < access_to_socket c \<and>
    mset (opened u) + mset (closed t) =
      mset (closed u) + mset (opened t) + {#first, access_to_socket c#}"
proof -
  let ?t1 = "t @ [(Socket AF_INET SOCK_STREAM 0, first)]"
  let ?ip = "os_ret os ?t1 (Inet_pton (c_str dst))"
  let ?t2 = "?t1 @ [(Inet_pton (c_str dst), ?ip)]"
  have ip: "\<not> ?ip \<le> 0" using assms by (auto simp: connect_to_server_def)
  obtain rps t3 where res: "resolve os dst port SOCK_STREAM IPPROTO_TCP ?t2 = (Inr rps, t3)"
    using assms ip by (cases "resolve os dst port SOCK_STREAM IPPROTO_TCP ?t2"; cases "fst
      (resolve os dst port SOCK_STREAM IPPROTO_TCP ?t2)")
      (auto simp: connect_to_server_def bind_action_def)
  obtain fd flag v where loop: "connect_loop os rps (- 1) True t3 = (Inr (fd, flag), v)"
    using assms ip res
    by (cases "connect_loop os rps (- 1) True t3"; cases "fst (connect_loop os rps (- 1) True t3)")
      (auto simp: connect_to_server_def bind_action_def)
  have done_: "\<not> flag" "u = v" "tcp_sock c = fd"
    using assms ip res loop by (auto simp: connect_to_server_def bind_action_def split: if_splits)
  have "0 < fd" "balanced (- 1) t3 fd v" using connect_loop_balanced [OF loop] done_ by simp_all
  then show ?thesis
    using resolve_Inr(1,2) [OF res] done_ assms(3) by (simp add: access_to_socket_def balanced_def held_def)
qed

end
