(* ===== verification/Sfc_Header.thy ===== *)
theory Sfc_Header
  imports Packet_Utils
begin

text \<open>
  The SFC header of src/src/endpoint/utils: the packed structure of sfcheaderstruct.h with each
  bit-field at its declared width, so that an assignment cuts its value to it, the functions of
  SFCUtilities that create, prepend and take off a header, and the accessors of
  SFCFixedLengthHeader. The structure is 24 bytes: a 16-bit base word, two bytes, the word of path
  identifier and service index, two addresses, two ports, and a last word of one flag bit, 24 bits
  of \<open>other\<close> and seven bits of padding, which memcpy copies like the rest.
\<close>

unbundle bit_operations_syntax

section \<open>struct sfc_header\<close>

record sfc_header =
  sfc_ver :: "2 word"
  sfc_oam :: "1 word"
  sfc_u1 :: "1 word"
  sfc_ttl :: "6 word"
  sfc_len :: "6 word"
  sfc_u2 :: "4 word"
  sfc_md_type :: "4 word"
  sfc_prot :: u8
  sfc_p_id :: "24 word"
  sfc_si :: "8 word"
  sfc_source_address :: u32
  sfc_destination_address :: u32
  sfc_source_port :: u16
  sfc_destination_port :: u16
  sfc_direction_flag :: "1 word"
  sfc_other :: "24 word"
  sfc_padding :: "7 word"

definition base_word :: "sfc_header \<Rightarrow> u16" where
  "base_word h =
     ucast (sfc_ver h) OR push_bit 2 (ucast (sfc_oam h)) OR push_bit 3 (ucast (sfc_u1 h)) OR
     push_bit 4 (ucast (sfc_ttl h)) OR push_bit 10 (ucast (sfc_len h))"

definition path_word :: "sfc_header \<Rightarrow> u32" where
  "path_word h = ucast (sfc_p_id h) OR push_bit 24 (ucast (sfc_si h))"

definition context_word :: "sfc_header \<Rightarrow> u32" where
  "context_word h =
     ucast (sfc_direction_flag h) OR push_bit 1 (ucast (sfc_other h)) OR
     push_bit 25 (ucast (sfc_padding h))"

definition sfc_header_bytes :: "sfc_header \<Rightarrow> byte list" where
  "sfc_header_bytes h =
     le16 (base_word h) @ [nibbles (sfc_u2 h) (sfc_md_type h), sfc_prot h] @
     le32 (path_word h) @ le32 (sfc_source_address h) @ le32 (sfc_destination_address h) @
     le16 (sfc_source_port h) @ le16 (sfc_destination_port h) @ le32 (context_word h)"

definition sfc_header_of_words ::
    "u16 \<Rightarrow> byte \<Rightarrow> u8 \<Rightarrow> u32 \<Rightarrow> u32 \<Rightarrow> u32 \<Rightarrow> u16 \<Rightarrow> u16 \<Rightarrow> u32 \<Rightarrow> sfc_header" where
  "sfc_header_of_words base md prot path src dst sport dport ctx =
     \<lparr>sfc_ver = ucast base, sfc_oam = ucast (drop_bit 2 base), sfc_u1 = ucast (drop_bit 3 base),
      sfc_ttl = ucast (drop_bit 4 base), sfc_len = ucast (drop_bit 10 base),
      sfc_u2 = low_nibble md, sfc_md_type = high_nibble md, sfc_prot = prot,
      sfc_p_id = ucast path, sfc_si = ucast (drop_bit 24 path),
      sfc_source_address = src, sfc_destination_address = dst,
      sfc_source_port = sport, sfc_destination_port = dport,
      sfc_direction_flag = ucast ctx, sfc_other = ucast (drop_bit 1 ctx),
      sfc_padding = ucast (drop_bit 25 ctx)\<rparr>"

definition sfc_header_of_bytes :: "byte list \<Rightarrow> sfc_header" where
  "sfc_header_of_bytes b =
     sfc_header_of_words (of_le16 (b ! 0) (b ! 1)) (b ! 2) (b ! 3)
       (of_le32 (b ! 4) (b ! 5) (b ! 6) (b ! 7)) (of_le32 (b ! 8) (b ! 9) (b ! 10) (b ! 11))
       (of_le32 (b ! 12) (b ! 13) (b ! 14) (b ! 15)) (of_le16 (b ! 16) (b ! 17))
       (of_le16 (b ! 18) (b ! 19)) (of_le32 (b ! 20) (b ! 21) (b ! 22) (b ! 23))"

section \<open>The layout\<close>

lemma bit_out: "LENGTH('a) \<le> n \<Longrightarrow> \<not> bit w n" for w :: "'a::len word"
  using bit_imp_le_length [of w n] by auto

lemma base_word_fields:
  "ucast (base_word h) = sfc_ver h" "ucast (drop_bit 2 (base_word h)) = sfc_oam h"
  "ucast (drop_bit 3 (base_word h)) = sfc_u1 h" "ucast (drop_bit 4 (base_word h)) = sfc_ttl h"
  "ucast (drop_bit 10 (base_word h)) = sfc_len h"
  by (rule bit_word_eqI; auto simp: base_word_def bit_simps bit_out)+

lemma path_word_fields:
  "ucast (path_word h) = sfc_p_id h" "ucast (drop_bit 24 (path_word h)) = sfc_si h"
  by (rule bit_word_eqI; auto simp: path_word_def bit_simps bit_out)+

lemma bit_context_word:
  "bit (context_word h) n \<longleftrightarrow> n < 32 \<and>
     (bit (sfc_direction_flag h) n \<or> 1 \<le> n \<and> bit (sfc_other h) (n - 1) \<or>
      25 \<le> n \<and> bit (sfc_padding h) (n - 25))"
  unfolding context_word_def bit_or_iff bit_push_bit_iff bit_unsigned_iff
  by (auto dest: bit_imp_le_length)

lemma context_word_fields:
  "ucast (context_word h) = sfc_direction_flag h"
  "ucast (drop_bit 1 (context_word h)) = sfc_other h"
  "ucast (drop_bit 25 (context_word h)) = sfc_padding h"
  by (rule bit_word_eqI; auto simp: bit_context_word bit_simps bit_out)+

lemma length_sfc_header_bytes [simp, wire_simps]: "length (sfc_header_bytes h) = 24"
  by (simp add: sfc_header_bytes_def)

lemma sfc_header_of_bytes_bytes [simp, wire_simps]:
  "sfc_header_of_bytes (sfc_header_bytes h @ rest) = h"
proof -
  have "sfc_header_of_bytes (sfc_header_bytes h @ rest) =
      sfc_header_of_words (base_word h) (nibbles (sfc_u2 h) (sfc_md_type h)) (sfc_prot h)
        (path_word h) (sfc_source_address h) (sfc_destination_address h)
        (sfc_source_port h) (sfc_destination_port h) (context_word h)"
    by (simp add: sfc_header_of_bytes_def sfc_header_bytes_def le16_def le32_def)
  also have "\<dots> = h"
    unfolding sfc_header_of_words_def base_word_fields path_word_fields context_word_fields by simp
  finally show ?thesis .
qed

lemma base_word_of_words:
  "base_word (sfc_header_of_words base md prot path src dst sport dport ctx) = base"
proof (rule bit_word_eqI)
  fix n assume "n < LENGTH(16)"
  then consider "n < 2" | "n = 2" | "n = 3" | "4 \<le> n" "n < 10" | "10 \<le> n" "n < 16" by fastforce
  then show "bit (base_word (sfc_header_of_words base md prot path src dst sport dport ctx)) n =
      bit base n"
    by cases (auto simp: base_word_def sfc_header_of_words_def bit_simps bit_out)
qed

lemma path_word_of_words:
  "path_word (sfc_header_of_words base md prot path src dst sport dport ctx) = path"
proof (rule bit_word_eqI)
  fix n assume "n < LENGTH(32)"
  then consider "n < 24" | "24 \<le> n" "n < 32" by fastforce
  then show "bit (path_word (sfc_header_of_words base md prot path src dst sport dport ctx)) n =
      bit path n"
    by cases (auto simp: path_word_def sfc_header_of_words_def bit_simps bit_out)
qed

lemma context_word_of_words:
  "context_word (sfc_header_of_words base md prot path src dst sport dport ctx) = ctx"
proof (rule bit_word_eqI)
  fix n assume "n < LENGTH(32)"
  then consider "n = 0" | "1 \<le> n" "n < 25" | "25 \<le> n" "n < 32" by fastforce
  then show "bit (context_word (sfc_header_of_words base md prot path src dst sport dport ctx)) n =
      bit ctx n"
    by cases (auto simp: bit_context_word sfc_header_of_words_def bit_simps bit_out)
qed

lemma sfc_header_bytes_of_bytes:
  assumes "24 \<le> length b"
  shows "sfc_header_bytes (sfc_header_of_bytes b) = take 24 b"
proof -
  have "sfc_header_bytes (sfc_header_of_bytes b) = map ((!) b) [0..<24]"
    by (simp add: sfc_header_of_bytes_def sfc_header_bytes_def base_word_of_words path_word_of_words
        context_word_of_words)
      (simp add: sfc_header_of_words_def upt_rec eval_nat_numeral)
  with assms show ?thesis by (simp only: map_nth_take)
qed

interpretation sfc: layout 24 sfc_header_bytes sfc_header_of_bytes
  by unfold_locales (auto simp: sfc_header_bytes_of_bytes)

end
