(* ===== verification/Sfc_Utilities.thy ===== *)
theory Sfc_Utilities
  imports Sfc_Header
begin

text \<open>
  SFCUtilities (src/src/endpoint/utils/sfcutilities.cpp) and SFCFixedLengthHeader
  (sfcfixedlengthheader.cpp): creating a header from the values of a connection, writing it before a
  packet, taking it and the payload off again, and reading and setting single members. The
  properties say what of the arguments survives the widths of the members and that a packet comes
  out of the encapsulation as it went in.
\<close>

unbundle bit_operations_syntax

section \<open>SFCUtilities\<close>

definition header_size :: nat where
  "header_size = 24"

definition create_header ::
    "u32 \<Rightarrow> u32 \<Rightarrow> string \<Rightarrow> u16 \<Rightarrow> string \<Rightarrow> u16 \<Rightarrow> u16 \<Rightarrow> u8 \<Rightarrow> sfc_header" where
  "create_header service_path_id service_index source_address source_port dest_address dest_port
       ttl direction =
     \<lparr>sfc_ver = 0, sfc_oam = 0, sfc_u1 = 0, sfc_ttl = ucast ttl, sfc_len = 0, sfc_u2 = 0,
      sfc_md_type = 1, sfc_prot = 1, sfc_p_id = ucast service_path_id,
      sfc_si = ucast service_index, sfc_source_address = ip_to_int source_address,
      sfc_destination_address = ip_to_int dest_address, sfc_source_port = source_port,
      sfc_destination_port = dest_port, sfc_direction_flag = ucast direction,
      sfc_other = 0, sfc_padding = 0\<rparr>"

definition prepend_header ::
    "byte list \<Rightarrow> nat \<Rightarrow> sfc_header \<Rightarrow> byte list \<Rightarrow> byte list result" where
  "prepend_header no_header_pkt pkt_size header pkt_w_header =
     bind_result (memcpy pkt_w_header 0 (sfc_header_bytes header) 0 header_size) (\<lambda>p.
     memcpy p header_size no_header_pkt 0 pkt_size)"

definition retrieve_header :: "byte list \<Rightarrow> sfc_header result" where
  "retrieve_header packet =
     bind_result (read_bytes packet 0 24) (\<lambda>b. Inr (sfc_header_of_bytes b))"

text \<open>
  The size is a size_t, so a packet shorter than the header asks for an array of nearly
  \<open>2 ^ 64\<close> bytes, which new refuses.
\<close>

definition retrieve_payload :: "byte list \<Rightarrow> u64 \<Rightarrow> byte list result" where
  "retrieve_payload packet pkt_size =
     (let n = unat (pkt_size - of_nat header_size)
      in if 2 ^ 63 \<le> n then Inl (Throw Bad_alloc)
         else bind_result (read_bytes packet header_size n) (\<lambda>b.
              memcpy (replicate n 0) 0 b 0 n))"

section \<open>SFCFixedLengthHeader\<close>

record sfc_fixed_length_header =
  flh_header :: sfc_header

definition sfc_fixed_length_header_of :: "byte list \<Rightarrow> sfc_fixed_length_header result" where
  "sfc_fixed_length_header_of byte_array =
     bind_result (read_bytes byte_array 0 24) (\<lambda>b. Inr \<lparr>flh_header = sfc_header_of_bytes b\<rparr>)"

definition get_service_path_id :: "sfc_fixed_length_header \<Rightarrow> u32" where
  "get_service_path_id f = ucast (sfc_p_id (flh_header f))"

definition get_service_index :: "sfc_fixed_length_header \<Rightarrow> u32" where
  "get_service_index f = ucast (sfc_si (flh_header f))"

definition get_source_ip_address :: "sfc_fixed_length_header \<Rightarrow> string" where
  "get_source_ip_address f = int_to_ip (sfc_source_address (flh_header f))"

definition get_destination_ip_address :: "sfc_fixed_length_header \<Rightarrow> string" where
  "get_destination_ip_address f = int_to_ip (sfc_destination_address (flh_header f))"

definition get_source_port :: "sfc_fixed_length_header \<Rightarrow> u16" where
  "get_source_port f = sfc_source_port (flh_header f)"

definition get_destination_port :: "sfc_fixed_length_header \<Rightarrow> u16" where
  "get_destination_port f = sfc_destination_port (flh_header f)"

definition get_direction_flag :: "sfc_fixed_length_header \<Rightarrow> u8" where
  "get_direction_flag f = ucast (sfc_direction_flag (flh_header f))"

definition get_ttl :: "sfc_fixed_length_header \<Rightarrow> u16" where
  "get_ttl f = ucast (sfc_ttl (flh_header f))"

definition set_service_index :: "u32 \<Rightarrow> sfc_fixed_length_header \<Rightarrow> sfc_fixed_length_header" where
  "set_service_index service_index f =
     f\<lparr>flh_header := (flh_header f)\<lparr>sfc_si := ucast service_index\<rparr>\<rparr>"

definition set_ttl :: "u16 \<Rightarrow> sfc_fixed_length_header \<Rightarrow> sfc_fixed_length_header" where
  "set_ttl ttl f = f\<lparr>flh_header := (flh_header f)\<lparr>sfc_ttl := ucast ttl\<rparr>\<rparr>"

definition get_header :: "sfc_fixed_length_header \<Rightarrow> sfc_header" where
  "get_header f = flh_header f"

lemmas flh_accessors =
  get_service_path_id_def get_service_index_def get_source_ip_address_def
  get_destination_ip_address_def get_source_port_def get_destination_port_def
  get_direction_flag_def get_ttl_def set_service_index_def set_ttl_def get_header_def

section \<open>Cutting a value to a member\<close>

lemma unat_cut:
  "LENGTH('b) \<le> LENGTH('a) \<Longrightarrow>
   unat (ucast (ucast w :: 'b::len word) :: 'a word) = unat w mod 2 ^ LENGTH('b)"
  for w :: "'a::len word"
  unfolding take_bit_eq_mod [symmetric] by (simp add: unsigned_ucast_eq unsigned_take_bit_eq)

lemma unat_cut_ttl: "unat (ucast (ucast w :: 6 word) :: u16) = unat w mod 64" for w :: u16
  using unat_cut [where 'b = 6, of w] by simp

lemma unat_cut_p_id: "unat (ucast (ucast w :: 24 word) :: u32) = unat w mod 2 ^ 24" for w :: u32
  using unat_cut [where 'b = 24, of w] by simp

lemma unat_cut_si: "unat (ucast (ucast w :: 8 word) :: u32) = unat w mod 256" for w :: u32
  using unat_cut [where 'b = 8, of w] by simp

lemma unat_cut_direction: "unat (ucast (ucast w :: 1 word) :: u8) = unat w mod 2" for w :: u8
  using unat_cut [where 'b = 1, of w] by simp

section \<open>Encapsulation\<close>

lemma prepend_header_value:
  assumes "length p = 24 + n" "n \<le> length pkt"
  shows "prepend_header pkt n h p = Inr (sfc_header_bytes h @ take n pkt)"
  using assms by (simp add: prepend_header_def header_size_def memcpy_Inr_iff bind_result_eq_Inr)

lemma retrieve_header_value [wire_simps]:
  "retrieve_header (sfc_header_bytes h @ rest) = Inr h"
  using sfc_header_of_bytes_bytes [of h "[]"]
  by (simp add: retrieve_header_def read_bytes_def)

lemma retrieve_header_bytes:
  "24 \<le> length b \<Longrightarrow> retrieve_header b = Inr (sfc_header_of_bytes b)"
  by (simp add: retrieve_header_def read_bytes_def sfc.of_bytes_take)

lemma retrieve_payload_value:
  assumes "length pkt < 2 ^ 63"
  shows "retrieve_payload (sfc_header_bytes h @ pkt) (of_nat (24 + length pkt)) = Inr pkt"
proof -
  have "unat (of_nat (24 + length pkt) - of_nat header_size :: u64) = length pkt"
    using assms by (simp add: header_size_def unat_of_nat)
  then show ?thesis
    using assms
    by (simp add: retrieve_payload_def header_size_def read_bytes_def memcpy_Inr_iff Let_def)
qed

text \<open>
  the packed structure and its 24 bytes are the same information: copying a header to memory and
  back gives it again, and every 24 bytes are the memory of exactly one header.
\<close>
lemma sfc_header_layout:
  "sfc_header_of_bytes (sfc_header_bytes h @ rest) = h \<and> length (sfc_header_bytes h) = header_size \<and>
   (header_size \<le> length b \<longrightarrow> sfc_header_bytes (sfc_header_of_bytes b) = take header_size b)"
  by (simp add: header_size_def sfc_header_bytes_of_bytes)

text \<open>
  C22: prepending a header to a packet and taking it apart again gives the header and the packet
  unchanged, for every packet whose buffer was made header-size bytes longer.
\<close>
theorem encapsulation_roundtrip:
  assumes "length buf = header_size + length pkt" "length pkt < 2 ^ 63"
  shows "\<exists>p. prepend_header pkt (length pkt) h buf = Inr p \<and>
    length p = header_size + length pkt \<and>
    retrieve_header p = Inr h \<and>
    retrieve_payload p (of_nat (header_size + length pkt)) = Inr pkt"
  using assms prepend_header_value [of buf "length pkt" pkt h] retrieve_payload_value [of pkt h]
  by (simp add: header_size_def retrieve_header_value)

theorem encapsulation_roundtrip_witness:
  "\<exists>p. prepend_header [1, 2, 3] 3 (create_header 7 0 ''10.0.0.1'' 80 ''10.0.0.2'' 81 4 0)
      (replicate 27 0) = Inr p \<and> retrieve_payload p 27 = Inr [1, 2, 3]"
  using encapsulation_roundtrip [of "replicate 27 0" "[1, 2, 3]"
      "create_header 7 0 ''10.0.0.1'' 80 ''10.0.0.2'' 81 4 0"]
  by (auto simp: header_size_def numeral_3_eq_3)

text \<open>
  what a header created for a connection gives back through the accessors: addresses that were
  printed by int_to_ip and the ports come back exactly; path identifier, service index, ttl and
  direction come back modulo the width of their members (24, 8, 6 and 1 bits).
\<close>
lemma create_header_reads_back:
  fixes p_id si :: u32 and ttl :: u16 and direction :: u8
  shows "let f = \<lparr>flh_header =
      create_header p_id si (int_to_ip src) sport (int_to_ip dst) dport ttl direction\<rparr> in
    get_source_ip_address f = int_to_ip src \<and> get_destination_ip_address f = int_to_ip dst \<and>
    sfc_source_address (get_header f) = src \<and> sfc_destination_address (get_header f) = dst \<and>
    get_source_port f = sport \<and> get_destination_port f = dport \<and>
    unat (get_service_path_id f) = unat p_id mod 2 ^ 24 \<and>
    unat (get_service_index f) = unat si mod 2 ^ 8 \<and>
    unat (get_ttl f) = unat ttl mod 2 ^ 6 \<and>
    unat (get_direction_flag f) = unat direction mod 2"
  by (simp add: Let_def flh_accessors create_header_def ip_text.read_print unat_cut_ttl unat_cut_p_id
      unat_cut_si unat_cut_direction)

text \<open>
  the setters change their member and nothing else: the ttl reads back modulo 64, the service
  index modulo 256, every other accessor answers as before, and the last setting wins.
\<close>
lemma setters_frame:
  "unat (get_ttl (set_ttl ttl f)) = unat ttl mod 64 \<and>
   unat (get_service_index (set_service_index si f)) = unat si mod 256 \<and>
   get_service_index (set_ttl ttl f) = get_service_index f \<and>
   get_ttl (set_service_index si f) = get_ttl f \<and>
   get_service_path_id (set_ttl ttl (set_service_index si f)) = get_service_path_id f \<and>
   get_source_ip_address (set_ttl ttl (set_service_index si f)) = get_source_ip_address f \<and>
   get_destination_ip_address (set_ttl ttl (set_service_index si f)) = get_destination_ip_address f \<and>
   get_source_port (set_ttl ttl (set_service_index si f)) = get_source_port f \<and>
   get_destination_port (set_ttl ttl (set_service_index si f)) = get_destination_port f \<and>
   get_direction_flag (set_ttl ttl (set_service_index si f)) = get_direction_flag f \<and>
   set_ttl ttl (set_ttl ttl' f) = set_ttl ttl f"
  by (simp add: flh_accessors unat_cut_ttl unat_cut_si)

end
