(* ===== verification/Proxy.thy ===== *)
theory Proxy
  imports Clients Sfc_Utilities
begin

text \<open>
  What the two proxies share: their state, which is that of the endpoint with the trace of the
  system calls, the keys they make for a connection, on entering and from a header of the chain, and
  the step by which both send a packet into the chain (src/src/endpoint/ingress.cpp and egress.cpp
  repeat it in each handler).
\<close>

section \<open>State\<close>

record proxy =
  base :: endpoint_state
  calls :: sys_trace

type_synonym 'a proxy_action = "(proxy, 'a) action"

definition on_base :: "'a endpoint_action \<Rightarrow> 'a proxy_action" where
  "on_base m s = (case m (base s) of (r, b) \<Rightarrow> (r, s \<lparr> base := b \<rparr>))"

definition current_base :: "endpoint_state proxy_action" where
  "current_base s = (Inr (base s), s)"

definition on_sys :: "'a sys \<Rightarrow> 'a proxy_action" where
  "on_sys m s = (case m (calls s) of (r, t) \<Rightarrow> (r, s \<lparr> calls := t \<rparr>))"

text \<open>\<open>catch (db::exceptions::ios_base::failure &e)\<close>; other faults pass.\<close>

definition catch_failure :: "'a proxy_action \<Rightarrow> 'a proxy_action \<Rightarrow> 'a proxy_action" where
  "catch_failure m handler s =
     (case m s of (Inl (Throw (Failure e)), t) \<Rightarrow> handler t | (r, t) \<Rightarrow> (r, t))"

record udp_pkt_mngmnt_args =
  ua_socket_fd :: socket_fd
  ua_client_address :: sockaddr_in
  ua_pkt :: "byte list"
  ua_pkt_len :: nat

text \<open>A read into a buffer, which keeps what the bytes read do not reach.\<close>

definition receive_into :: "byte list \<Rightarrow> byte list \<Rightarrow> byte list" where
  "receive_into bs buf = bs @ drop (length bs) buf"

definition ack :: "byte list" where
  "ack = [0x41, 0x43, 0x4B]"

section \<open>Keys\<close>

definition entering_key ::
    "u32 \<Rightarrow> u32 \<Rightarrow> u16 \<Rightarrow> u16 \<Rightarrow> string \<Rightarrow> protocol_type \<Rightarrow> connection_entry" where
  "entering_key saddr daddr source dest sfcid prt =
     new_entry (int_to_ip saddr) (int_to_ip daddr) (htons source) (htons dest) sfcid prt"

definition chain_key :: "sfc_header \<Rightarrow> protocol_type \<Rightarrow> connection_entry" where
  "chain_key h prt =
     new_entry (int_to_ip (sfc_source_address h)) (int_to_ip (sfc_destination_address h))
       (htons (sfc_source_port h)) (htons (sfc_destination_port h))
       (to_string (unat (sfc_p_id h))) prt"

section \<open>Sending into the chain\<close>

definition send_into_chain ::
    "os_lib \<Rightarrow> string \<Rightarrow> u32 \<Rightarrow> u16 \<Rightarrow> u32 \<Rightarrow> u16 \<Rightarrow> u8 \<Rightarrow> address list \<Rightarrow> byte list \<Rightarrow> nat \<Rightarrow>
     unit proxy_action" where
  "send_into_chain os sfcid saddr source daddr dest direction path pkt n =
     bind_action (lift_result (stoi sfcid)) (\<lambda>p_id.
     let ttl = length path + 2;
         next_port = word_of_int (get_port (hd path));
         flh = create_header (word_of_int p_id) 0 (int_to_ip saddr) source (int_to_ip daddr) dest
                 (of_nat ttl) direction
     in bind_action (lift_result (prepend_header pkt n flh (replicate (n + header_size) 0))) (\<lambda>p.
        on_sys (send_and_wait_response os p (n + header_size) (get_address (hd path)) next_port)))"

section \<open>Lemmas\<close>

lemma on_sys_apply [simp]:
  "on_sys m s = (fst (m (calls s)), s \<lparr> calls := snd (m (calls s)) \<rparr>)"
  by (simp add: on_sys_def split: prod.split)

lemma current_base_apply [simp]: "current_base s = (Inr (base s), s)"
  by (simp add: current_base_def)

lemma on_base_apply [simp]:
  "on_base m s = (fst (m (base s)), s \<lparr> base := snd (m (base s)) \<rparr>)"
  by (simp add: on_base_def split: prod.split)

text \<open>
  The key of a header is the key of the connection it was made for, for a chain identifier of 24
  bits: addresses and ports are copied, the identifier is printed as it was read.
\<close>

lemma chain_key_create:
  assumes "n < 2 ^ 24"
  shows "chain_key (create_header (word_of_int (int n)) si (int_to_ip saddr) source (int_to_ip daddr)
      dest ttl direction) prt = entering_key saddr daddr source dest (to_string n) prt"
proof -
  have "unat (ucast (word_of_int (int n) :: u32) :: 24 word) = n"
  proof -
    have "unat (ucast (of_nat n :: u32) :: 24 word) = take_bit 24 (take_bit 32 n)"
      by (simp add: unsigned_ucast_eq unsigned_of_nat unsigned_take_bit_eq)
    also have "\<dots> = n" using assms by (simp add: take_bit_nat_eq_self)
    finally show ?thesis by simp
  qed
  then show ?thesis
    by (simp add: chain_key_def entering_key_def create_header_def ip_text.read_print)
qed

text \<open>Headers that name the same connection; the nodes of a chain may change the rest.\<close>

definition same_connection :: "sfc_header \<Rightarrow> sfc_header \<Rightarrow> bool" where
  "same_connection h h' \<longleftrightarrow>
     sfc_p_id h' = sfc_p_id h \<and> sfc_source_address h' = sfc_source_address h \<and>
     sfc_destination_address h' = sfc_destination_address h \<and>
     sfc_source_port h' = sfc_source_port h \<and> sfc_destination_port h' = sfc_destination_port h"

lemma same_connection_key: "same_connection h h' \<Longrightarrow> chain_key h' prt = chain_key h prt"
  by (simp add: same_connection_def chain_key_def)

text \<open>A network on which every name resolves and every call succeeds.\<close>

definition network_up :: "os_lib \<Rightarrow> bool" where
  "network_up os \<longleftrightarrow> (\<forall>t.
     (\<forall>h p ty pr. os_ret os t (Getaddrinfo h p ty pr) = 0) \<and> os_resolved os t \<noteq> [] \<and>
     (\<forall>f ty pr. 0 < os_ret os t (Socket f ty pr)) \<and> (\<forall>fd a. os_ret os t (Connect fd a) \<noteq> - 1) \<and>
     (\<forall>fd a. os_ret os t (Bind fd a) \<noteq> - 1) \<and>
     (\<forall>fd b d. b \<noteq> [] \<longrightarrow> 0 < os_ret os t (Sendto fd b d)))"

lemma network_upD:
  assumes "network_up os"
  shows "os_ret os t (Getaddrinfo h p ty pr) = 0" "os_resolved os t \<noteq> []"
    "0 < os_ret os t (Socket f ty pr)" "os_ret os t (Connect fd a) \<noteq> - 1"
    "b \<noteq> [] \<Longrightarrow> 0 < os_ret os t (Sendto fd b d)" "os_ret os t (Bind fd sa) \<noteq> - 1"
  using assms by (simp_all add: network_up_def)

lemma send_loop_stops: "send_loop os co msg rps sfd False t = (Inr sfd, t)"
  by (cases rps) simp_all

lemma send_and_wait_up:
  assumes "network_up os" "read_bytes message 0 n = Inr b" "b \<noteq> []"
  shows "\<exists>u. send_and_wait_response os message n dst port t = (Inr (), u) \<and>
    delivered u = delivered t @ [b]"
proof -
  note up = network_upD [OF assms(1)]
  obtain rp rps where rps: "os_resolved os (t @ [(Getaddrinfo (c_str dst) (to_string (unat port))
      SOCK_DGRAM IPPROTO_UDP, 0)]) = rp # rps"
    using up(2) by (meson neq_Nil_conv)
  show ?thesis
    by (simp add: send_and_wait_response_def resolve_def bind_action_def up assms(2,3) rps
        send_loop_stops)
qed

end
