(* ===== verification/Threads.thy ===== *)
theory Threads
  imports Proxy
begin

text \<open>
  Threads that share the state of a proxy: a thread is done, or takes a turn on the state and gives the
  rest of itself. What happens between two turns is up to the other threads. Operations as actions are
  threads that run alone.
\<close>

section \<open>Threads\<close>

datatype ('s, 'a) thread =
    Done "'a result"
  | Turn "'s \<Rightarrow> ('s, 'a) thread \<times> 's"

text \<open>An action as one turn.\<close>

definition turn :: "('s, 'a) action \<Rightarrow> ('s, 'a) thread" where
  "turn m = Turn (\<lambda>s. map_prod Done id (m s))"

primrec bind_thread :: "('s, 'a) thread \<Rightarrow> ('a \<Rightarrow> ('s, 'b) thread) \<Rightarrow> ('s, 'b) thread" where
  "bind_thread (Done r) k = (case r of Inl f \<Rightarrow> Done (Inl f) | Inr x \<Rightarrow> k x)"
| "bind_thread (Turn f) k = Turn (\<lambda>s. map_prod (\<lambda>t. bind_thread t k) id (f s))"

definition when_thread :: "bool \<Rightarrow> ('s, unit) thread \<Rightarrow> ('s, unit) thread" where
  "when_thread b t = (if b then t else Done (Inr ()))"

primrec catch_thread :: "('s, 'a) thread \<Rightarrow> ('s, 'a) thread \<Rightarrow> ('s, 'a) thread" where
  "catch_thread (Done r) h = (case r of Inl (Throw (Failure e)) \<Rightarrow> h | _ \<Rightarrow> Done r)"
| "catch_thread (Turn f) h = Turn (\<lambda>s. map_prod (\<lambda>t. catch_thread t h) id (f s))"

section \<open>A thread that runs alone\<close>

primrec run_alone :: "('s, 'a) thread \<Rightarrow> ('s, 'a) action" where
  "run_alone (Done r) = (\<lambda>s. (r, s))"
| "run_alone (Turn f) = (\<lambda>s. case map_prod run_alone id (f s) of (m, t) \<Rightarrow> m t)"

lemma run_Turn: "run_alone (Turn f) s = run_alone (fst (f s)) (snd (f s))"
  by (simp add: case_prod_beta)

lemma run_turn [simp]: "run_alone (turn m) = m"
  by (simp add: fun_eq_iff turn_def case_prod_beta)

lemma run_bind [simp]: "run_alone (bind_thread t k) = bind_action (run_alone t) (\<lambda>x. run_alone (k x))"
proof
  fix s
  show "run_alone (bind_thread t k) s = bind_action (run_alone t) (\<lambda>x. run_alone (k x)) s"
  proof (induction t arbitrary: s)
    case (Turn f)
    have "fst (f s) \<in> Basic_BNFs.fsts (f s)" by (cases "f s") (simp add: Basic_BNFs.fsts.simps)
    then show ?case using Turn [of "f s"] by (simp add: case_prod_beta bind_action_def)
  qed (simp add: bind_action_def split: sum.split)
qed

lemma run_when [simp]: "run_alone (when_thread b t) = when_action b (run_alone t)"
  by (simp add: fun_eq_iff when_thread_def when_action_def)

lemma run_catch [simp]: "run_alone (catch_thread t h) = catch_failure (run_alone t) (run_alone h)"
proof
  fix s
  show "run_alone (catch_thread t h) s = catch_failure (run_alone t) (run_alone h) s"
  proof (induction t arbitrary: s)
    case (Done r)
    show ?case by (simp add: catch_failure_def split: sum.split fault.split exn.split)
  next
    case (Turn f)
    have "fst (f s) \<in> Basic_BNFs.fsts (f s)" by (cases "f s") (simp add: Basic_BNFs.fsts.simps)
    then show ?case using Turn [of "f s"] by (simp add: case_prod_beta catch_failure_def)
  qed
qed

lemma run_if: "run_alone (if b then t else u) = (if b then run_alone t else run_alone u)"
  by simp

text \<open>Operations of the endpoint and of the system, in pieces.\<close>

lemma on_base_bind: "on_base (bind_action m k) = bind_action (on_base m) (\<lambda>x. on_base (k x))"
  by (auto simp: fun_eq_iff on_base_def bind_action_def split: prod.split sum.split)

lemma on_sys_bind: "on_sys (bind_action m k) = bind_action (on_sys m) (\<lambda>x. on_sys (k x))"
  by (auto simp: fun_eq_iff on_sys_def bind_action_def split: prod.split sum.split)

lemma on_pure:
  "on_base (return_action x) = return_action x" "on_sys (return_action x) = return_action x"
  "on_base (lift_result r) = lift_result r" "on_sys (lift_result r) = lift_result r"
  "on_base (fail_action f) = fail_action f" "on_sys (fail_action f) = fail_action f"
  by (simp_all add: fun_eq_iff on_base_def on_sys_def)

lemma run_Done: "run_alone (Done r) = lift_result r"
  by (simp add: fun_eq_iff)

lemma lift_Inr: "lift_result (Inr x) = return_action x" "lift_result (Inl f) = fail_action f"
  by (simp_all add: fun_eq_iff)

lemma on_when:
  "on_base (when_action b m) = when_action b (on_base m)"
  "on_sys (when_action b n) = when_action b (on_sys n)"
  by (simp_all add: when_action_def on_pure)

section \<open>What a thread keeps and guarantees\<close>

text \<open>
  As long as the others keep P, the thread keeps it, each of its turns is in G, and what it ends with,
  if not with a fault, is in Q.
\<close>

inductive thread_keeps ::
    "('s \<Rightarrow> bool) \<Rightarrow> ('s \<Rightarrow> 's \<Rightarrow> bool) \<Rightarrow> ('a \<Rightarrow> bool) \<Rightarrow> ('s, 'a) thread \<Rightarrow> bool"
  for P G Q where
  keeps_Done: "(\<And>x. r = Inr x \<Longrightarrow> Q x) \<Longrightarrow> thread_keeps P G Q (Done r)"
| keeps_Turn: "(\<And>s. P s \<Longrightarrow> P (snd (f s)) \<and> G s (snd (f s)) \<and> thread_keeps P G Q (fst (f s))) \<Longrightarrow>
    thread_keeps P G Q (Turn f)"

inductive_cases keeps_DoneE: "thread_keeps P G Q (Done r)"
inductive_cases keeps_TurnE: "thread_keeps P G Q (Turn f)"

lemma thread_keeps_turn:
  assumes "\<And>s. P s \<Longrightarrow> P (snd (m s)) \<and> G s (snd (m s)) \<and> (\<forall>x. fst (m s) = Inr x \<longrightarrow> Q x)"
  shows "thread_keeps P G Q (turn m)"
  unfolding turn_def using assms by (intro keeps_Turn) (auto intro: keeps_Done)

lemma thread_keeps_bind:
  assumes "thread_keeps P G Q t" "\<And>x. Q x \<Longrightarrow> thread_keeps P G R (k x)"
  shows "thread_keeps P G R (bind_thread t k)"
  using assms(1)
proof (induction rule: thread_keeps.induct)
  case (keeps_Done r)
  then show ?case using assms(2) by (auto intro: thread_keeps.keeps_Done split: sum.split)
next
  case (keeps_Turn f)
  then show ?case by (auto intro!: thread_keeps.keeps_Turn)
qed

lemma thread_keeps_catch:
  assumes "thread_keeps P G Q t" "thread_keeps P G Q h"
  shows "thread_keeps P G Q (catch_thread t h)"
  using assms(1)
proof (induction rule: thread_keeps.induct)
  case (keeps_Done r)
  then show ?case using assms(2)
    by (auto intro: thread_keeps.keeps_Done split: sum.split fault.split exn.split)
next
  case (keeps_Turn f)
  then show ?case by (auto intro!: thread_keeps.keeps_Turn)
qed

lemma thread_keeps_if:
  "(b \<Longrightarrow> thread_keeps P G Q t) \<Longrightarrow> (\<not> b \<Longrightarrow> thread_keeps P G Q u) \<Longrightarrow> thread_keeps P G Q (if b then t else u)"
  by simp

lemma thread_keeps_when: "thread_keeps P G Q t \<Longrightarrow> Q () \<Longrightarrow> thread_keeps P G Q (when_thread b t)"
  by (simp add: when_thread_def keeps_Done)

lemma thread_keeps_weaken:
  assumes "thread_keeps P G Q t" "\<And>x. Q x \<Longrightarrow> R x" "\<And>s s'. G s s' \<Longrightarrow> H s s'"
  shows "thread_keeps P H R t"
  using assms(1) by (induction rule: thread_keeps.induct) (auto intro!: thread_keeps.intros assms(2,3))

end
