(* ===== verification/Ingress.thy ===== *)
theory Ingress
  imports Proxy
begin

text \<open>
  The proxy at the entry of the chain, src/src/endpoint/ingress.h and ingress.cpp: the handlers of a
  TCP connection, of a UDP packet from a client, and of a packet that comes back from the chain.
  The blocking reads of a TCP connection are the list of what they give; where the list ends the
  handler waits. Memory that the handlers free is not tracked.
\<close>

section \<open>Packets of a client\<close>

definition manage_entering_udp_packets ::
    "os_lib \<Rightarrow> 'j libs \<Rightarrow> udp_pkt_mngmnt_args \<Rightarrow> unit proxy_action" where
  "manage_entering_udp_packets os L args =
     bind_action (on_base (classify L (ua_pkt args) (ua_pkt_len args))) (\<lambda>sfcid.
     bind_action (lift_result (retrieve_ip_udp_header (ua_pkt args))) (\<lambda>(iph, udph).
     bind_action (on_base (add_entry L
       (entering_key (ip_saddr iph) (ip_daddr iph) (udp_source udph) (udp_dest udph) sfcid UDP)
       (ua_socket_fd args) (ua_client_address args) INGRESS_T UDP)) (\<lambda>_.
     bind_action (on_base (route_of_chain L sfcid)) (\<lambda>path.
     if path \<noteq> []
     then send_into_chain os sfcid (ip_saddr iph) (udp_source udph) (ip_daddr iph) (udp_dest udph) 0
            path (ua_pkt args) (ua_pkt_len args)
     else return_action ()))))"

text \<open>The local variables of the TCP handler; the buffer keeps the bytes of earlier reads.\<close>

record tcp_locals =
  tl_pkt :: "byte list"
  tl_sfcid :: string
  tl_prev_sfcid :: string
  tl_first_pkt :: bool
  tl_db_error :: bool
  tl_headers :: "iphdr \<times> tcphdr"

text \<open>One read that gave bytes. The value is whether the loop goes on, and the locals.\<close>

definition entering_tcp_chunk ::
    "os_lib \<Rightarrow> 'j libs \<Rightarrow> socket_fd \<Rightarrow> sockaddr_in \<Rightarrow> tcp_locals \<Rightarrow> byte list \<Rightarrow>
     (bool \<times> tcp_locals) proxy_action" where
  "entering_tcp_chunk os L fd client c bs =
     (let pkt = receive_into bs (tl_pkt c)
      in bind_action (on_base (classify L pkt (length bs))) (\<lambda>sfcid.
         let c1 = c \<lparr> tl_pkt := pkt, tl_sfcid := sfcid \<rparr>
         in if tl_first_pkt c \<or> sfcid \<noteq> tl_prev_sfcid c
            then bind_action (lift_result (retrieve_ip_tcp_header pkt)) (\<lambda>(iph, tcph).
              let c2 = c1 \<lparr> tl_headers := (iph, tcph) \<rparr>
              in catch_failure
                (bind_action (on_base (add_entry L
                  (entering_key (ip_saddr iph) (ip_daddr iph) (tcp_source tcph) (tcp_dest tcph)
                    sfcid TCP) fd client INGRESS_T TCP)) (\<lambda>_.
                 bind_action (on_base (route_of_chain L sfcid)) (\<lambda>path.
                 if path \<noteq> []
                 then bind_action (send_into_chain os sfcid (ip_saddr iph) (tcp_source tcph)
                        (ip_daddr iph) (tcp_dest tcph) 0 path pkt (length bs)) (\<lambda>_.
                      return_action (True, c2 \<lparr> tl_prev_sfcid := sfcid, tl_first_pkt := False \<rparr>))
                 else return_action (False, c2))))
                (return_action (True, c2 \<lparr> tl_db_error := True \<rparr>)))
            else return_action (True, c1)))"

datatype loop_end = Waiting | Stopped | Disconnected

fun entering_tcp_loop ::
    "os_lib \<Rightarrow> 'j libs \<Rightarrow> socket_fd \<Rightarrow> sockaddr_in \<Rightarrow> received list \<Rightarrow> tcp_locals \<Rightarrow>
     (loop_end \<times> tcp_locals) proxy_action" where
  "entering_tcp_loop os L fd client [] c = return_action (Waiting, c)"
| "entering_tcp_loop os L fd client (Receive_error # rs) c = fail_action (Exit_process 1)"
| "entering_tcp_loop os L fd client (End_of_stream # rs) c = return_action (Disconnected, c)"
| "entering_tcp_loop os L fd client (Data bs # rs) c =
     bind_action (entering_tcp_chunk os L fd client c bs) (\<lambda>(go_on, c').
     if go_on then entering_tcp_loop os L fd client rs c' else return_action (Stopped, c'))"

definition first_locals :: "byte list \<Rightarrow> tcp_locals" where
  "first_locals stack =
     \<lparr> tl_pkt = stack, tl_sfcid = [], tl_prev_sfcid = [], tl_first_pkt = True, tl_db_error = False,
       tl_headers = (iphdr_of_bytes (replicate 20 0), tcphdr_of_bytes (replicate 20 0)) \<rparr>"

definition manage_entering_tcp_packets ::
    "os_lib \<Rightarrow> 'j libs \<Rightarrow> socket_fd \<Rightarrow> sockaddr_in \<Rightarrow> byte list \<Rightarrow> received list \<Rightarrow>
     loop_end proxy_action" where
  "manage_entering_tcp_packets os L fd client stack rs =
     bind_action (entering_tcp_loop os L fd client rs (first_locals stack)) (\<lambda>(e, c).
     if e = Waiting then return_action e
     else bind_action
       (if e = Disconnected
        then on_base (delete_entry L (entering_key (ip_saddr (fst (tl_headers c)))
          (ip_daddr (fst (tl_headers c))) (tcp_source (snd (tl_headers c)))
          (tcp_dest (snd (tl_headers c))) (tl_sfcid c) TCP))
        else return_action ()) (\<lambda>_.
       bind_action (when_action (tl_db_error c) (on_sys (sys_do os (Close fd)))) (\<lambda>_.
       return_action e)))"

section \<open>Packets from the chain\<close>

text \<open>
  The length that is sent is a difference of size_t, so a packet shorter than its headers makes the
  call read far outside the buffer.
\<close>

definition payload_bytes :: "byte list \<Rightarrow> nat \<Rightarrow> nat \<Rightarrow> byte list result" where
  "payload_bytes pkt pkt_len pkt_calc =
     read_bytes pkt pkt_calc (unat (of_nat pkt_len - of_nat pkt_calc :: u64))"

definition manage_pkt_from_chain ::
    "os_lib \<Rightarrow> 'j libs \<Rightarrow> udp_pkt_mngmnt_args \<Rightarrow> unit proxy_action" where
  "manage_pkt_from_chain os L args =
     (let pkt = ua_pkt args
      in bind_action (on_sys (sys_do os (Sendto (ua_socket_fd args) ack (Ipv4 (ua_client_address args)))))
           (\<lambda>_.
         bind_action (lift_result (retrieve_header pkt)) (\<lambda>header.
         bind_action (lift_result (retrieve_ip_header (drop header_size pkt))) (\<lambda>ip_hdr.
         let conn_type = (if ip_protocol ip_hdr = 6 then TCP else UDP)
         in (\<lambda>s.
         let (fd, addr) = retrieve_connection_2 (chain_key header conn_type) (base s)
         in (if conn_type = TCP
             then bind_action (lift_result (tcp_packet_header_size (drop header_size pkt))) (\<lambda>n.
                  bind_action (lift_result (payload_bytes pkt (ua_pkt_len args) (header_size + n)))
                    (\<lambda>bytes.
                  bind_action (on_sys (sys os (Send fd bytes))) (\<lambda>resp_c.
                  if resp_c < 0 then fail_action (Exit_process 1)
                  else bind_action (on_sys (sys_do os (Shutdown fd 2))) (\<lambda>_.
                       on_sys (sys_do os (Close fd))))))
             else bind_action (lift_result (udp_packet_header_size (drop header_size pkt))) (\<lambda>n.
                  bind_action (lift_result (payload_bytes pkt (ua_pkt_len args) (header_size + n)))
                    (\<lambda>bytes.
                  bind_action (on_sys (sys os (Sendto fd bytes (Ipv4 addr)))) (\<lambda>resp_c.
                  if resp_c < 0 then fail_action (Exit_process 1)
                  else on_base (delete_entry L (chain_key header UDP)))))) s)))))"

end
