(* ===== verification/Ingress_Facts.thy ===== *)
theory Ingress_Facts
  imports Ingress
begin

text \<open>
  What the handlers of Ingress do: a client's datagram goes into the chain behind a header that names
  its connection, the packet that comes back goes to that client and to no other, and the ways in
  which a packet or a connection is lost.
\<close>

section \<open>The steps of a handler\<close>

lemma sfc_header_bytes_not_Nil [simp]: "sfc_header_bytes h \<noteq> []"
proof -
  have "length (sfc_header_bytes h) \<noteq> 0" by simp
  then show ?thesis by (simp only: length_0_conv) simp
qed

lemma send_into_chain_up:
  assumes "network_up os" "n < 2 ^ 24" "len \<le> length pkt"
  shows "\<exists>u. send_into_chain os (to_string n) saddr source daddr dest direction path pkt len s =
      (Inr (), s \<lparr> calls := u \<rparr>) \<and>
    delivered u = delivered (calls s) @ [sfc_header_bytes (create_header (word_of_int (int n)) 0
      (int_to_ip saddr) source (int_to_ip daddr) dest (of_nat (length path + 2)) direction) @
      take len pkt]"
proof -
  let ?h = "create_header (word_of_int (int n)) 0 (int_to_ip saddr) source (int_to_ip daddr) dest
    (of_nat (length path + 2)) direction"
  let ?d = "sfc_header_bytes ?h @ take len pkt"
  have p: "prepend_header pkt len ?h (replicate (len + header_size) 0) = Inr ?d"
    using assms(3) by (intro prepend_header_value) (simp_all add: header_size_def)
  have d: "read_bytes ?d 0 (len + header_size) = Inr ?d" "?d \<noteq> []"
    using assms(3) by (simp_all add: read_bytes_def header_size_def)
  obtain u where "send_and_wait_response os ?d (len + header_size) (get_address (hd path))
      (word_of_int (get_port (hd path))) (calls s) = (Inr (), u)"
      "delivered u = delivered (calls s) @ [?d]"
    using send_and_wait_up [OF assms(1) d] by blast
  moreover have "stoi (to_string n) = Inr (int n)" using assms(2) by (intro stoi_to_string) simp
  ultimately show ?thesis
    using p by (intro exI [of _ u]) (simp add: send_into_chain_def Let_def)
qed

lemma classify_value:
  assumes "20 < n" "n \<le> length pkt" "claimed_ip_len pkt = 20" "pkt ! 9 = 6 \<or> pkt ! 9 = 17"
    and "chain_table (chains b)" "shapes_ok L"
  obtains c where "classify L pkt n b = (Inr ''0'', b \<lparr> chains := c \<rparr>)" "chain_table c"
proof -
  have reb: "rebalances (sfc_shape L)" using assms(6) by (simp add: shapes_ok_def)
  have "fst (classify_pkt (sfc_shape L) pkt n (chains b)) = Inr ''0''"
    using classify_pkt_value [OF assms(5) reb set_pkt_value [OF assms(1-3)]] assms(4)
    by (auto simp: mapper_simps)
  moreover have "chain_table (snd (classify_pkt (sfc_shape L) pkt n (chains b)))"
    by (rule keepsD [OF classify_pkt_chain_table [OF reb] assms(5)])
  ultimately show thesis
    using that by (cases "classify_pkt (sfc_shape L) pkt n (chains b)") (simp add: classify_def)
qed

text \<open>Of the endpoint, classification changes the map of the classifier only; it knows one chain.\<close>

lemma classify_any:
  assumes "shapes_ok L" "chain_table (chains b)"
  obtains r c where "classify L pkt n b = (r, b \<lparr> chains := c \<rparr>)" "chain_table c"
    "\<forall>x. r = Inr x \<longrightarrow> x = ''0''"
proof -
  have reb: "rebalances (sfc_shape L)" using assms(1) by (simp add: shapes_ok_def)
  obtain r c where rc: "classify_pkt (sfc_shape L) pkt n (chains b) = (r, c)" by fastforce
  have "chain_table c" using keepsD [OF classify_pkt_chain_table [OF reb, of pkt n] assms(2)] rc by simp
  moreover have "x = ''0''" if "r = Inr x" for x
  proof (cases "set_pkt new_mapper pkt n")
    case (Inl f)
    then show ?thesis using rc that by (simp add: classify_pkt_def)
  next
    case (Inr m)
    then show ?thesis using classify_pkt_value [OF assms(2) reb Inr] rc that by (simp split: if_splits)
  qed
  ultimately show thesis using that [of r c] rc by (simp add: classify_def)
qed

text \<open>
  The route service answers: it takes every entry and has the path \<open>path\<close> for chain 0.
\<close>

definition service_up :: "'j libs \<Rightarrow> address list \<Rightarrow> bool" where
  "service_up L path \<longleftrightarrow> (\<forall>b. roulette b \<noteq> None \<longrightarrow>
     (\<forall>ce fd a e p. fst (add_entry L ce fd a e p b) = Inr ()) \<and>
     fst (route_of_chain L ''0'' b) = Inr path)"

lemma with_roulette_frame:
  "\<exists>h. snd (with_roulette req s) = s \<lparr> http := h \<rparr>"
proof (cases "roulette s")
  case None
  then show ?thesis by (intro exI [of _ "http s"]) (simp add: with_roulette_def)
next
  case (Some a)
  then show ?thesis by (auto simp: with_roulette_def split: prod.split)
qed

lemma route_of_chain_frame: "\<exists>h. snd (route_of_chain L sfcid b) = b \<lparr> http := h \<rparr>"
proof (cases "stoi sfcid")
  case (Inl f)
  then show ?thesis by (intro exI [of _ "http b"]) (simp add: route_of_chain_def)
next
  case (Inr n)
  then show ?thesis using with_roulette_frame by (simp add: route_of_chain_def)
qed

lemma route_of_chain_tables [simp]:
  "connections (snd (route_of_chain L sfcid b)) = connections b"
  "tables_ordered K (snd (route_of_chain L sfcid b)) = tables_ordered K b"
  "roulette (snd (route_of_chain L sfcid b)) = roulette b"
  using route_of_chain_frame [of L sfcid b] by (auto simp: connections_def tables_ordered_def)

lemma add_entry_roulette: "roulette (snd (add_entry L ce fd a e p b)) = roulette b"
  and add_entry_chains: "chains (snd (add_entry L ce fd a e p b)) = chains b"
proof -
  let ?b1 = "b \<lparr> connection_map := map_insert ce_less (conn_shape L) (connection_map b) ce (fd, a) \<rparr>"
  obtain r t where "with_roulette (\<lambda>x. create_entry (lib_json L) (lib_http L) x
      (entry_query b ce fd e p)) ?b1 = (r, t)" "roulette t = roulette ?b1" "chains t = chains ?b1"
    by (rule with_roulette_cases)
  then show "roulette (snd (add_entry L ce fd a e p b)) = roulette b"
    "chains (snd (add_entry L ce fd a e p b)) = chains b"
    by (cases r; auto simp: add_entry_def insert_connection_def bind_action_def)+
qed

section \<open>A client's datagram\<close>

text \<open>A UDP datagram with a plain IP header, in the buffer of a handler.\<close>

definition udp_datagram :: "iphdr \<Rightarrow> udphdr \<Rightarrow> byte list \<Rightarrow> udp_pkt_mngmnt_args \<Rightarrow> bool" where
  "udp_datagram iph udph payload args \<longleftrightarrow>
     ip_ihl iph = 5 \<and> ip_protocol iph = 17 \<and> ua_pkt_len args = 28 + length payload \<and>
     take (ua_pkt_len args) (ua_pkt args) = iphdr_bytes iph @ udphdr_bytes udph @ payload"

lemma udp_datagram_take:
  "udp_datagram iph udph payload args \<Longrightarrow>
     take (ua_pkt_len args) (ua_pkt args) = iphdr_bytes iph @ udphdr_bytes udph @ payload"
  unfolding udp_datagram_def by blast

lemma udp_datagram_buffer:
  assumes "udp_datagram iph udph payload args"
  shows "ua_pkt args = iphdr_bytes iph @ udphdr_bytes udph @ payload @
      drop (ua_pkt_len args) (ua_pkt args)"
    and "20 < ua_pkt_len args" "ua_pkt_len args \<le> length (ua_pkt args)"
    and "claimed_ip_len (ua_pkt args) = 20" "ua_pkt args ! 9 = 17"
    and "retrieve_ip_udp_header (ua_pkt args) = Inr (iph, udph)"
proof -
  have "ua_pkt args = take (ua_pkt_len args) (ua_pkt args) @ drop (ua_pkt_len args) (ua_pkt args)"
    by (rule append_take_drop_id [symmetric])
  also have "take (ua_pkt_len args) (ua_pkt args) = iphdr_bytes iph @ udphdr_bytes udph @ payload"
    by (rule udp_datagram_take [OF assms])
  finally show buf: "ua_pkt args = iphdr_bytes iph @ udphdr_bytes udph @ payload @
      drop (ua_pkt_len args) (ua_pkt args)" by simp
  show "20 < ua_pkt_len args" using assms by (simp add: udp_datagram_def)
  have "length (take (ua_pkt_len args) (ua_pkt args)) = ua_pkt_len args"
    unfolding udp_datagram_take [OF assms] using assms by (simp add: udp_datagram_def)
  then show "ua_pkt_len args \<le> length (ua_pkt args)" by simp
  show "claimed_ip_len (ua_pkt args) = 20"
    by (subst buf) (use assms in \<open>simp add: udp_datagram_def\<close>)
  show "ua_pkt args ! 9 = 17"
    by (subst buf) (use assms in \<open>simp add: udp_datagram_def iphdr_bytes_def le16_def nth_append\<close>)
  show "retrieve_ip_udp_header (ua_pkt args) = Inr (iph, udph)"
    by (subst buf) (use assms in \<open>simp add: udp_datagram_def retrieve_ip_udp_header_layout\<close>)
qed

text \<open>The header that Ingress puts before a datagram, for a path of the given length.\<close>

definition entering_header :: "iphdr \<Rightarrow> u16 \<Rightarrow> u16 \<Rightarrow> address list \<Rightarrow> sfc_header" where
  "entering_header iph source dest path =
     create_header 0 0 (int_to_ip (ip_saddr iph)) source (int_to_ip (ip_daddr iph)) dest
       (of_nat (length path + 2)) 0"

lemma entering_header_key:
  "chain_key (entering_header iph source dest path) prt =
     entering_key (ip_saddr iph) (ip_daddr iph) source dest ''0'' prt"
  using chain_key_create [of 0 0 "ip_saddr iph" source "ip_daddr iph" dest _ 0 prt]
  by (simp add: entering_header_def to_string_0)

lemma entering_udp_step:
  fixes iph udph args path
  defines "key \<equiv> entering_key (ip_saddr iph) (ip_daddr iph) (udp_source udph) (udp_dest udph) ''0'' UDP"
  assumes "udp_datagram iph udph payload args"
    and "network_up os" "shapes_ok L" "chain_table (chains (base s))" "roulette (base s) \<noteq> None"
    and "service_up L path" "path \<noteq> []"
    and "comparable K" "tables_ordered K (base s)" "key \<in> K" "connections (base s) key = None"
  shows "\<exists>t. manage_entering_udp_packets os L args s = (Inr (), t) \<and>
    delivered (calls t) = delivered (calls s) @
      [sfc_header_bytes (entering_header iph (udp_source udph) (udp_dest udph) path) @
       iphdr_bytes iph @ udphdr_bytes udph @ payload] \<and>
    tables_ordered K (base t) \<and>
    connections (base t) = (connections (base s))(key \<mapsto> (ua_socket_fd args, ua_client_address args)) \<and>
    roulette (base t) \<noteq> None \<and> chain_table (chains (base t))"
proof -
  note buf = udp_datagram_buffer [OF assms(2)]
  obtain c where c: "classify L (ua_pkt args) (ua_pkt_len args) (base s) =
      (Inr ''0'', base s \<lparr> chains := c \<rparr>)" "chain_table c"
    using classify_value [OF buf(2-4) _ assms(5,4)] buf(5) by blast
  let ?b0 = "base s \<lparr> chains := c \<rparr>"
  let ?add = "add_entry L key (ua_socket_fd args) (ua_client_address args) INGRESS_T UDP"
  have b0: "roulette ?b0 \<noteq> None" "tables_ordered K ?b0" "connections ?b0 = connections (base s)"
    using assms(6,10) by (simp_all add: tables_ordered_def connections_def)
  obtain b1 where b1: "?add ?b0 = (Inr (), b1)"
    using assms(7) b0(1) by (metis prod.collapse service_up_def)
  have tab: "tables_ordered K b1" "roulette b1 \<noteq> None"
    "connections b1 = (connections (base s))(key \<mapsto> (ua_socket_fd args, ua_client_address args))"
    using add_entry_ordered [OF assms(9) b0(2) assms(11,4), of "ua_socket_fd args"
        "ua_client_address args" INGRESS_T UDP] add_entry_roulette [of L key "ua_socket_fd args"
        "ua_client_address args" INGRESS_T UDP ?b0] b1 b0 assms(12) by auto
  let ?route = "route_of_chain L ''0''"
  obtain b2 where b2: "?route b1 = (Inr path, b2)"
    using assms(7) tab(2) by (metis prod.collapse service_up_def)
  let ?s2 = "s \<lparr> base := b2 \<rparr>"
  obtain u where u: "send_into_chain os ''0'' (ip_saddr iph) (udp_source udph) (ip_daddr iph)
      (udp_dest udph) 0 path (ua_pkt args) (ua_pkt_len args) ?s2 = (Inr (), ?s2 \<lparr> calls := u \<rparr>)"
    "delivered u = delivered (calls s) @
      [sfc_header_bytes (entering_header iph (udp_source udph) (udp_dest udph) path) @
       take (ua_pkt_len args) (ua_pkt args)]"
    using send_into_chain_up [OF assms(3) _ buf(3), of 0 "ip_saddr iph" "udp_source udph"
        "ip_daddr iph" "udp_dest udph" 0 path ?s2]
    by (auto simp: to_string_0 entering_header_def)
  have run: "manage_entering_udp_packets os L args s = (Inr (), ?s2 \<lparr> calls := u \<rparr>)"
    using c(1) b1 b2 u(1) buf(6) assms(8)
    by (simp add: manage_entering_udp_packets_def bind_action_def key_def)
  have "chains b1 = c"
    using add_entry_chains [of L key "ua_socket_fd args" "ua_client_address args" INGRESS_T UDP ?b0] b1
    by simp
  then have "tables_ordered K b2" "connections b2 = connections b1" "roulette b2 \<noteq> None"
    "chain_table (chains b2)"
    using route_of_chain_tables(1) [of L "''0''" b1] route_of_chain_tables(2) [of K L "''0''" b1]
      route_of_chain_frame [of L "''0''" b1] b2 tab(1,2) c(2) by auto
  then show ?thesis
    using run u(2) [unfolded udp_datagram_take [OF assms(2)]] tab(3) by simp
qed

section \<open>A packet from the chain\<close>

text \<open>A UDP packet behind a header of the chain, in the buffer of a handler.\<close>

definition chain_udp_packet :: "sfc_header \<Rightarrow> byte list \<Rightarrow> udp_pkt_mngmnt_args \<Rightarrow> bool" where
  "chain_udp_packet h payload args \<longleftrightarrow>
     (\<exists>iph udph rest. ip_ihl iph = 5 \<and> ip_protocol iph \<noteq> 6 \<and>
        ua_pkt args = sfc_header_bytes h @ iphdr_bytes iph @ udphdr_bytes udph @ payload @ rest \<and>
        ua_pkt_len args = 52 + length payload \<and> length (ua_pkt args) < 2 ^ 63)"

lemma chain_udp_packet_reads:
  assumes "chain_udp_packet h payload args"
  obtains iph where "retrieve_header (ua_pkt args) = Inr h"
    "retrieve_ip_header (drop header_size (ua_pkt args)) = Inr iph" "ip_protocol iph \<noteq> 6"
    "udp_packet_header_size (drop header_size (ua_pkt args)) = Inr 28"
    "payload_bytes (ua_pkt args) (ua_pkt_len args) (header_size + 28) = Inr payload"
proof -
  obtain iph udph rest where p: "ip_ihl iph = 5" "ip_protocol iph \<noteq> 6"
      "ua_pkt args = sfc_header_bytes h @ iphdr_bytes iph @ udphdr_bytes udph @ payload @ rest"
      "ua_pkt_len args = 52 + length payload" "length (ua_pkt args) < 2 ^ 63"
    using assms by (auto simp: chain_udp_packet_def)
  have inner: "drop header_size (ua_pkt args) = iphdr_bytes iph @ udphdr_bytes udph @ payload @ rest"
    by (simp add: p(3) header_size_def)
  have hdr: "retrieve_header (ua_pkt args) = Inr h" by (simp add: p(3) retrieve_header_value)
  have ip_hdr: "retrieve_ip_header (drop header_size (ua_pkt args)) = Inr iph"
    unfolding inner by (rule retrieve_ip_header_layout [OF p(1)])
  have size: "udp_packet_header_size (drop header_size (ua_pkt args)) = Inr 28"
    unfolding inner by (simp add: udp_packet_header_size_layout p(1))
  have "unat (of_nat (ua_pkt_len args) - of_nat (header_size + 28) :: u64) = length payload"
    using p(3-5) by (simp add: header_size_def unat_of_nat)
  then have bytes: "payload_bytes (ua_pkt args) (ua_pkt_len args) (header_size + 28) = Inr payload"
    by (simp add: payload_bytes_def read_bytes_def p(3) header_size_def)
  show thesis by (rule that [OF hdr ip_hdr p(2) size bytes])
qed

lemma from_chain_udp:
  assumes "chain_udp_packet h payload args"
    and "retrieve_connection_2 (chain_key h UDP) (base s) = (fd, addr)"
    and "t1 = calls s @ [(Sendto (ua_socket_fd args) ack (Ipv4 (ua_client_address args)), a)]"
    and "a = os_ret os (calls s) (Sendto (ua_socket_fd args) ack (Ipv4 (ua_client_address args)))"
    and "r = os_ret os t1 (Sendto fd payload (Ipv4 addr))"
    and "s2 = s \<lparr> calls := t1 @ [(Sendto fd payload (Ipv4 addr), r)] \<rparr>"
  shows "manage_pkt_from_chain os L args s =
    (if r < 0 then (Inl (Exit_process 1), s2)
     else (fst (delete_entry L (chain_key h UDP) (base s)),
           s2 \<lparr> base := snd (delete_entry L (chain_key h UDP) (base s)) \<rparr>))"
proof -
  obtain iph where "retrieve_header (ua_pkt args) = Inr h"
    "retrieve_ip_header (drop header_size (ua_pkt args)) = Inr iph" "ip_protocol iph \<noteq> 6"
    "udp_packet_header_size (drop header_size (ua_pkt args)) = Inr 28"
    "payload_bytes (ua_pkt args) (ua_pkt_len args) (header_size + 28) = Inr payload"
    by (rule chain_udp_packet_reads [OF assms(1)])
  then show ?thesis
    using assms(2) by (simp add: manage_pkt_from_chain_def bind_action_def assms(3-6) Let_def)
qed

text \<open>An answer that carries a connection of the table goes to its client, and ends it.\<close>

lemma answer_to_client:
  assumes "network_up os" "shapes_ok L" "comparable K" "tables_ordered K (base t)"
    and "chain_key h UDP \<in> K" "connections (base t) (chain_key h UDP) = Some (fd, client)"
    and "chain_udp_packet h reply args" "reply \<noteq> []"
  shows "\<exists>a r. calls (snd (manage_pkt_from_chain os L args t)) = calls t @
      [(Sendto (ua_socket_fd args) ack (Ipv4 (ua_client_address args)), a),
       (Sendto fd reply (Ipv4 client), r)]"
    and "connections (base (snd (manage_pkt_from_chain os L args t))) =
      (connections (base t))(chain_key h UDP := None)"
proof -
  have "retrieve_connection_2 (chain_key h UDP) (base t) = (fd, client)"
    using retrieve_connections [OF assms(3-5)] assms(6) by simp
  note run = from_chain_udp [OF assms(7) this refl refl refl refl, of os L]
  have pos: "\<not> os_ret os u (Sendto fd reply d) < 0" for u d
    using network_upD(5) [OF assms(1,8), of u fd d] by simp
  show "\<exists>a r. calls (snd (manage_pkt_from_chain os L args t)) = calls t @
      [(Sendto (ua_socket_fd args) ack (Ipv4 (ua_client_address args)), a),
       (Sendto fd reply (Ipv4 client), r)]" using run pos by simp
  show "connections (base (snd (manage_pkt_from_chain os L args t))) =
      (connections (base t))(chain_key h UDP := None)"
    using run pos delete_entry_ordered(2) [OF assms(3-5,2)] by simp
qed

definition sample_reply :: "json list \<Rightarrow> json" where
  "sample_reply si = JObject [(''result'', JString ''ok''), (''content'', JObject [(''id'', JString ''9''),
     (''si'', JArray si)])]"

definition answering_libs :: "json list \<Rightarrow> json libs" where
  "answering_libs si = sample_libs (\<lambda>_. (True, sample_reply si))
     \<lparr> h_init = (\<lambda>_. True), h_perform = (\<lambda>_. Some [''x'']) \<rparr>"

lemma shapes_ok_answering: "shapes_ok (answering_libs si)"
  by (simp add: answering_libs_def shapes_ok_sample)

definition sample_node :: json where
  "sample_node = JObject [(''url'', JString ''10.1.0.1''), (''port'', JUint 57)]"

definition sample_path :: "address list" where
  "sample_path = [address_of_host_port ''10.1.0.1'' 57]"

lemma sample_path_not_Nil: "sample_path \<noteq> []"
  by (simp add: sample_path_def)

lemma service_up_reply:
  assumes "decode_routes (lib_json (answering_libs si)) si [] = Inr path"
  shows "service_up (answering_libs si) path"
proof -
  note libs = answering_libs_def sample_libs_def sample_json_def sample_reply_def
    handle_req_def is_op_ok_def REPLY_RESULT_def REPLY_OK_def REPLY_CONTENT_def ROUTE_SI_def
  have add: "fst (add_entry (answering_libs si) ce fd a e p b) = Inr ()" if "roulette b = Some r"
    for ce fd a e p b r
  proof -
    have "service_url r [ENDPOINT_PREFIX] = Inr (get_URL r @ ENDPOINT_PREFIX @ slash_join [])"
      by (rule service_url_segments) simp_all
    then show ?thesis
      using that by (simp add: add_entry_def insert_connection_def with_roulette_def create_entry_def
          curl_req_handle_apply perform_request_def slist_append_def slist_free_all_def bind_action_def
          libs Let_def)
  qed
  have route: "fst (route_of_chain (answering_libs si) ''0'' b) = Inr path" if "roulette b = Some r"
    for b r
  proof -
    have "service_url r [ROUTE_PREFIX, ''0''] = Inr (get_URL r @ ROUTE_PREFIX @ slash_join [''0''])"
      by (rule service_url_segments) (simp_all add: segment_def)
    moreover have "stoi ''0'' = Inr 0" using stoi_to_string [of 0] by (simp add: to_string_0)
    ultimately show ?thesis
      using that assms by (simp add: route_of_chain_def with_roulette_def get_route_list_def
          curl_req_handle_apply perform_request_def bind_action_def to_string_0 libs Let_def)
  qed
  show ?thesis using add route by (auto simp: service_up_def)
qed

lemma service_up_answering: "service_up (answering_libs [sample_node]) sample_path"
  by (rule service_up_reply) (simp add: answering_libs_def sample_libs_def sample_json_def
      sample_node_def sample_path_def ROUTE_ADDRESS_def ROUTE_PORT_def)

lemma service_up_no_route: "service_up (answering_libs []) []"
  by (rule service_up_reply) simp

lemma network_up_sample: "network_up (sample_os [sample_addrinfo])"
  by (simp add: network_up_def sample_os_def)

definition sample_iphdr :: iphdr where
  "sample_iphdr =
     \<lparr> ip_ihl = 5, ip_version = 4, ip_tos = 0, ip_tot_len = 0, ip_id = 0, ip_frag_off = 0, ip_ttl = 64,
       ip_protocol = 17, ip_check = 0, ip_saddr = 0x0100000A, ip_daddr = 0x0200000A \<rparr>"

definition sample_udphdr :: udphdr where
  "sample_udphdr = \<lparr> udp_source = 0x9210, udp_dest = 0x5000, udp_len = 0, udp_check = 0 \<rparr>"

definition sample_args :: udp_pkt_mngmnt_args where
  "sample_args =
     \<lparr> ua_socket_fd = 5, ua_client_address = \<lparr> sin_port = 7, sin_addr = 8 \<rparr>,
       ua_pkt = iphdr_bytes sample_iphdr @ udphdr_bytes sample_udphdr @ [1, 2, 3] @ replicate 100 0,
       ua_pkt_len = 31 \<rparr>"

definition sample_proxy :: proxy where
  "sample_proxy = \<lparr> base = sample_endpoint, calls = [] \<rparr>"

lemma udp_datagram_sample: "udp_datagram sample_iphdr sample_udphdr [1, 2, 3] sample_args"
  by (simp add: udp_datagram_def sample_args_def) (simp add: sample_iphdr_def)

section \<open>One datagram after another\<close>

text \<open>The states in which Ingress takes datagrams, and the step from one to the next.\<close>

definition ready :: "connection_entry set \<Rightarrow> proxy \<Rightarrow> bool" where
  "ready K s \<longleftrightarrow>
     chain_table (chains (base s)) \<and> roulette (base s) \<noteq> None \<and> tables_ordered K (base s)"

definition datagram_key :: "iphdr \<Rightarrow> udphdr \<Rightarrow> connection_entry" where
  "datagram_key iph udph =
     entering_key (ip_saddr iph) (ip_daddr iph) (udp_source udph) (udp_dest udph) ''0'' UDP"

definition chain_datagram :: "iphdr \<Rightarrow> udphdr \<Rightarrow> byte list \<Rightarrow> address list \<Rightarrow> byte list" where
  "chain_datagram iph udph payload path =
     sfc_header_bytes (entering_header iph (udp_source udph) (udp_dest udph) path) @
     iphdr_bytes iph @ udphdr_bytes udph @ payload"

definition serves :: "os_lib \<Rightarrow> 'j libs \<Rightarrow> address list \<Rightarrow> bool" where
  "serves os L path \<longleftrightarrow> network_up os \<and> shapes_ok L \<and> service_up L path \<and> path \<noteq> []"

lemma entering_ready:
  assumes "udp_datagram iph udph payload args" "serves os L path" "comparable K" "ready K s"
    and "datagram_key iph udph \<in> K" "connections (base s) (datagram_key iph udph) = None"
  obtains t where "manage_entering_udp_packets os L args s = (Inr (), t)" "ready K t"
    "connections (base t) = (connections (base s))
      (datagram_key iph udph \<mapsto> (ua_socket_fd args, ua_client_address args))"
    "delivered (calls t) = delivered (calls s) @ [chain_datagram iph udph payload path]"
proof -
  have up: "network_up os" "shapes_ok L" "service_up L path" "path \<noteq> []"
    using assms(2) unfolding serves_def by blast+
  have st: "chain_table (chains (base s))" "roulette (base s) \<noteq> None" "tables_ordered K (base s)"
    using assms(4) unfolding ready_def by blast+
  from entering_udp_step [OF assms(1) up(1,2) st(1,2) up(3,4) assms(3) st(3)
      assms(5,6) [unfolded datagram_key_def]] show thesis
    using that unfolding ready_def datagram_key_def chain_datagram_def by blast
qed

lemma serves_sample: "serves (sample_os [sample_addrinfo]) (answering_libs [sample_node]) sample_path"
  unfolding serves_def
  by (intro conjI network_up_sample shapes_ok_answering service_up_answering sample_path_not_Nil)

end
