(* ===== verification/Call_Traces.thy ===== *)
theory Call_Traces
  imports Ingress_Facts
begin

text \<open>
  What an operation may add to the trace of system calls, whatever the system answers: a predicate on
  calls that every call it makes satisfies. The rules follow the sequencing of operations; the sending
  of a packet into the chain is taken apart once, for both proxies.
\<close>

section \<open>Calls that are added\<close>

definition adds :: "(sys_call \<Rightarrow> bool) \<Rightarrow> sys_trace \<Rightarrow> sys_trace \<Rightarrow> bool" where
  "adds C t u \<longleftrightarrow> (\<exists>new. u = t @ new \<and> (\<forall>(c, v) \<in> set new. C c))"

lemma adds_refl [simp]: "adds C t t"
  by (simp add: adds_def)

lemma adds_trans: "adds C t u \<Longrightarrow> adds C u v \<Longrightarrow> adds C t v"
  unfolding adds_def by fastforce

lemma adds_snoc: "C c \<Longrightarrow> adds C t (t @ [(c, v)])"
  unfolding adds_def by (intro exI [of _ "[(c, v)]"]) simp

definition adding :: "(sys_call \<Rightarrow> bool) \<Rightarrow> 'a sys \<Rightarrow> bool" where
  "adding C m \<longleftrightarrow> (\<forall>t. adds C t (snd (m t)))"

lemma adding_bind: "adding C m \<Longrightarrow> (\<And>x. adding C (k x)) \<Longrightarrow> adding C (bind_action m k)"
  unfolding adding_def bind_action_def
  by (auto split: prod.split sum.split) (metis adds_trans snd_conv)+

lemma adding_pure: "adding C (return_action x)" "adding C (fail_action f)" "adding C (lift_result r)"
  by (simp_all add: adding_def)

lemma adding_sys: "C c \<Longrightarrow> adding C (sys os c)" "C c \<Longrightarrow> adding C (sys_do os c)"
  by (simp_all add: adding_def adds_snoc)

lemma adding_when: "adding C m \<Longrightarrow> adding C (when_action b m)"
  by (simp add: when_action_def adding_pure)

lemma adding_if: "adding C m \<Longrightarrow> adding C n \<Longrightarrow> adding C (if b then m else n)"
  by simp

lemma adding_lift_bind: "adding C (k x) \<Longrightarrow> adding C (bind_action (lift_result (Inr x)) k)"
  by (simp add: adding_def)

lemmas adding_rules = adding_pure adding_sys adding_when adding_if

section \<open>The UDP client\<close>

text \<open>The calls of a client that sends the message m.\<close>

definition lets_client :: "(sys_call \<Rightarrow> bool) \<Rightarrow> byte list \<Rightarrow> bool" where
  "lets_client C m \<longleftrightarrow> (\<forall>fd. C (Close fd)) \<and> (\<forall>f ty pr. C (Socket f ty pr)) \<and> (\<forall>fd a. C (Connect fd a)) \<and>
     (\<forall>fd a. C (Sendto fd m (Resolved a))) \<and> (\<forall>h p pr. C (Getaddrinfo h p SOCK_DGRAM pr))"

lemma adding_loop: "lets_client C m \<Longrightarrow> adding C (send_loop os close_old (Inr m) rps sfd flag)"
proof (induction rps arbitrary: sfd flag)
  case (Cons rp rps)
  show ?case
    unfolding send_loop.simps
    by (intro adding_if adding_rules adding_bind adding_lift_bind Cons.IH Cons.prems)
      (use Cons.prems in \<open>simp_all add: lets_client_def\<close>)
qed (simp add: adding_pure)

lemma adding_resolve:
  "C (Getaddrinfo (c_str dst) (to_string (unat port)) ty pr) \<Longrightarrow> adding C (resolve os dst port ty pr)"
  by (simp add: adding_def resolve_def adds_snoc)

lemma adding_udp:
  assumes "read_bytes message 0 n = Inr m" "lets_client C m"
  shows "adding C (send_and_wait_response os message n dst port)"
  unfolding send_and_wait_response_def assms(1)
  by (intro adding_bind adding_loop adding_when adding_sys adding_resolve assms(2))
    (use assms(2) in \<open>simp_all add: lets_client_def\<close>)

text \<open>
  Calls that send datagrams only as P allows, and look up only hosts and ports for a stream that R
  allows; all other calls are free.
\<close>

fun calls_if ::
    "(byte list \<Rightarrow> destination \<Rightarrow> bool) \<Rightarrow> (string \<times> string \<Rightarrow> bool) \<Rightarrow> sys_call \<Rightarrow> bool" where
  "calls_if P R (Sendto fd b d) \<longleftrightarrow> P b d"
| "calls_if P R (Getaddrinfo host port ty pr) \<longleftrightarrow> (ty = SOCK_STREAM \<longrightarrow> R (host, port))"
| "calls_if P R _ \<longleftrightarrow> True"

abbreviation sends_if :: "(byte list \<Rightarrow> destination \<Rightarrow> bool) \<Rightarrow> sys_call \<Rightarrow> bool" where
  "sends_if P \<equiv> calls_if P (\<lambda>_. True)"

lemma lets_client_calls_if: "(\<And>a. P m (Resolved a)) \<Longrightarrow> lets_client (calls_if P R) m"
  by (simp add: lets_client_def SOCK_DGRAM_def SOCK_STREAM_def)

lemma adding_tcp:
  assumes "R (c_str dst, to_string (unat port))"
  shows "adding (calls_if P R) (connect_to_server os pton dst port)"
proof -
  have loop: "adding (calls_if P R) (connect_loop os rps sfd flag)" for rps sfd flag
  proof (induction rps arbitrary: sfd flag)
    case (Cons rp rps)
    show ?case
      unfolding connect_loop.simps by (intro adding_if adding_rules adding_bind Cons.IH) simp_all
  qed (simp add: adding_pure)
  show ?thesis
    unfolding connect_to_server_def split_def
    by (intro adding_bind adding_if adding_rules adding_resolve loop)
      (use assms in simp_all)
qed

section \<open>Into the chain\<close>

lemma prepend_header_Inr:
  assumes "prepend_header pkt n h (replicate (n + header_size) 0) = Inr p"
  shows "p = sfc_header_bytes h @ take n pkt" "length p = n + header_size"
proof -
  have "n \<le> length pkt"
    using assms by (auto simp: prepend_header_def header_size_def bind_result_eq_Inr memcpy_Inr_iff)
  then show "p = sfc_header_bytes h @ take n pkt" "length p = n + header_size"
    using prepend_header_value [of "replicate (n + header_size) 0" n pkt h] assms
    by (auto simp: header_size_def)
qed

lemma stoi_0: "stoi ''0'' = Inr 0"
  using stoi_to_string [of 0] by (simp add: to_string_0)

text \<open>The header behind which a packet of chain 0 goes into the chain.\<close>

definition chain_0_header ::
    "u32 \<Rightarrow> u16 \<Rightarrow> u32 \<Rightarrow> u16 \<Rightarrow> u8 \<Rightarrow> address list \<Rightarrow> sfc_header" where
  "chain_0_header saddr source daddr dest direction path =
     create_header 0 0 (int_to_ip saddr) source (int_to_ip daddr) dest (of_nat (length path + 2)) direction"

lemma chain_0_header_fields:
  "sfc_p_id (chain_0_header saddr source daddr dest direction path) = 0"
  "sfc_source_address (chain_0_header saddr source daddr dest direction path) = saddr"
  "sfc_destination_address (chain_0_header saddr source daddr dest direction path) = daddr"
  "sfc_source_port (chain_0_header saddr source daddr dest direction path) = source"
  "sfc_destination_port (chain_0_header saddr source daddr dest direction path) = dest"
  by (simp_all add: chain_0_header_def create_header_def ip_text.read_print)

lemma chain_0_header_key:
  "chain_key (chain_0_header saddr source daddr dest direction path) prt =
     entering_key saddr daddr source dest ''0'' prt"
  using chain_key_create [of 0 0 saddr source daddr dest _ direction prt]
  by (simp add: chain_0_header_def to_string_0)

text \<open>Sending keeps the endpoint and makes the calls of the client only.\<close>

lemma send_into_chain_adds:
  fixes saddr source daddr dest direction path
  defines "h \<equiv> chain_0_header saddr source daddr dest direction path"
  assumes "lets_client C (sfc_header_bytes h @ take n pkt)"
  shows "base (snd (send_into_chain os ''0'' saddr source daddr dest direction path pkt n s)) = base s"
    and "adds C (calls s) (calls (snd (send_into_chain os ''0'' saddr source daddr dest direction path pkt n s)))"
proof -
  let ?run = "send_into_chain os ''0'' saddr source daddr dest direction path pkt n s"
  have "base (snd ?run) = base s \<and> adds C (calls s) (calls (snd ?run))"
  proof (cases "prepend_header pkt n h (replicate (n + header_size) 0)")
    case (Inl f)
    then show ?thesis by (simp add: send_into_chain_def stoi_0 Let_def h_def chain_0_header_def)
  next
    case (Inr p)
    note p = prepend_header_Inr [OF Inr]
    have "read_bytes p 0 (n + header_size) = Inr p" using p(2) by (simp add: read_bytes_def)
    note sends = adding_udp [OF this, of C, unfolded adding_def, rule_format]
    show ?thesis
      using Inr sends assms(2)
      by (simp add: send_into_chain_def stoi_0 Let_def h_def chain_0_header_def p(1))
  qed
  then show "base (snd ?run) = base s" "adds C (calls s) (calls (snd ?run))" by blast+
qed

section \<open>Messages of a trace\<close>

text \<open>What went into the chain: datagrams to an address that was resolved.\<close>

fun chain_message :: "sys_call \<times> int \<Rightarrow> byte list list" where
  "chain_message (Sendto fd b (Resolved a), r) = [b]"
| "chain_message _ = []"

definition chain_messages :: "sys_trace \<Rightarrow> byte list list" where
  "chain_messages t = concat (map chain_message t)"

lemma chain_messages_append [simp]: "chain_messages (t @ u) = chain_messages t @ chain_messages u"
  by (simp add: chain_messages_def)

lemma messages_added:
  assumes "adds C t u" "b \<in> set (chain_messages u)"
  shows "b \<in> set (chain_messages t) \<or> (\<exists>fd a. C (Sendto fd b (Resolved a)))"
proof -
  obtain new where new: "u = t @ new" "\<forall>(c, v) \<in> set new. C c"
    using assms(1) by (auto simp: adds_def)
  have "\<exists>fd a. C (Sendto fd b (Resolved a))" if "x \<in> set new" "b \<in> set (chain_message x)" for x
    using that new(2) by (cases x rule: chain_message.cases) fastforce+
  then show ?thesis using assms(2) new(1) by (auto simp: chain_messages_def)
qed

lemma adds_mono: "adds C t u \<Longrightarrow> (\<And>c. C c \<Longrightarrow> D c) \<Longrightarrow> adds D t u"
  unfolding adds_def by fastforce

lemma delivered_in_chain:
  "\<forall>(c, v) \<in> set t. sends_if (\<lambda>b d. \<exists>a. d = Resolved a) c \<Longrightarrow> b \<in> set (delivered t) \<Longrightarrow>
   b \<in> set (chain_messages t)"
proof (induction t rule: delivered.induct)
  case (2 c r t)
  then show ?case by (cases c) (auto simp: chain_messages_def split: if_splits)
qed simp

end
