(* ===== verification/Client_Threads.thy ===== *)
theory Client_Threads
  imports Threads Call_Traces
begin

text \<open>
  The clients of both proxies in turns, one for each system call, up to the sending of a packet into the
  chain. Alone they are the clients of Clients; among other threads they make the calls that Call_Traces
  allows them.
\<close>

section \<open>The UDP client, in turns\<close>

definition call_turn :: "os_lib \<Rightarrow> sys_call \<Rightarrow> (proxy, int) thread" where
  "call_turn os c = turn (on_sys (sys os c))"

definition do_turn :: "os_lib \<Rightarrow> sys_call \<Rightarrow> (proxy, unit) thread" where
  "do_turn os c = turn (on_sys (sys_do os c))"

fun send_loop_thread ::
    "os_lib \<Rightarrow> bool \<Rightarrow> byte list result \<Rightarrow> addrinfo list \<Rightarrow> int \<Rightarrow> bool \<Rightarrow> (proxy, int) thread" where
  "send_loop_thread os close_old msg [] sfd send_flag = Done (Inr sfd)"
| "send_loop_thread os close_old msg (rp # rps) sfd send_flag =
     (if \<not> send_flag then Done (Inr sfd)
      else bind_thread (when_thread (close_old \<and> sfd > 0) (do_turn os (Close sfd))) (\<lambda>_.
           bind_thread (call_turn os (Socket (ai_family rp) (ai_socktype rp) (ai_protocol rp))) (\<lambda>fd.
           if fd > 0
           then bind_thread (call_turn os (Connect fd (ai_addr rp))) (\<lambda>c.
                if c \<noteq> - 1
                then bind_thread (Done msg) (\<lambda>bytes.
                     bind_thread (call_turn os (Sendto fd bytes (Resolved (ai_addr rp)))) (\<lambda>res.
                     send_loop_thread os close_old msg rps fd (if res > 0 then False else send_flag)))
                else send_loop_thread os close_old msg rps fd send_flag)
           else send_loop_thread os close_old msg rps fd send_flag)))"

definition udp_client_thread ::
    "os_lib \<Rightarrow> byte list \<Rightarrow> nat \<Rightarrow> string \<Rightarrow> u16 \<Rightarrow> (proxy, unit) thread" where
  "udp_client_thread os message message_len dst port =
     bind_thread (turn (on_sys (resolve os dst port SOCK_DGRAM IPPROTO_UDP))) (\<lambda>result.
     bind_thread (send_loop_thread os True (read_bytes message 0 message_len) result (- 1) True) (\<lambda>sfd.
     when_thread (sfd > 0) (do_turn os (Close sfd))))"

definition into_chain_thread ::
    "os_lib \<Rightarrow> string \<Rightarrow> u32 \<Rightarrow> u16 \<Rightarrow> u32 \<Rightarrow> u16 \<Rightarrow> u8 \<Rightarrow> address list \<Rightarrow> byte list \<Rightarrow> nat \<Rightarrow>
     (proxy, unit) thread" where
  "into_chain_thread os sfcid saddr source daddr dest direction path pkt n =
     bind_thread (Done (stoi sfcid)) (\<lambda>p_id.
     let flh = create_header (word_of_int p_id) 0 (int_to_ip saddr) source (int_to_ip daddr) dest
                 (of_nat (length path + 2)) direction
     in bind_thread (Done (prepend_header pkt n flh (replicate (n + header_size) 0))) (\<lambda>p.
        udp_client_thread os p (n + header_size) (get_address (hd path)) (word_of_int (get_port (hd path)))))"

section \<open>The TCP client, in turns\<close>

fun connect_loop_thread :: "os_lib \<Rightarrow> addrinfo list \<Rightarrow> int \<Rightarrow> bool \<Rightarrow> (proxy, int \<times> bool) thread" where
  "connect_loop_thread os [] sfd send_flag = Done (Inr (sfd, send_flag))"
| "connect_loop_thread os (rp # rps) sfd send_flag =
     (if \<not> send_flag then Done (Inr (sfd, send_flag))
      else bind_thread (when_thread (sfd > 0) (do_turn os (Close sfd))) (\<lambda>_.
           bind_thread (call_turn os (Socket (ai_family rp) (ai_socktype rp) (ai_protocol rp))) (\<lambda>fd.
           if fd > 0
           then bind_thread (call_turn os (Connect fd (ai_addr rp))) (\<lambda>c.
                connect_loop_thread os rps fd (if c \<noteq> - 1 then False else send_flag))
           else connect_loop_thread os rps fd send_flag)))"

definition connect_thread :: "os_lib \<Rightarrow> (string \<Rightarrow> u32) \<Rightarrow> string \<Rightarrow> u16 \<Rightarrow> (proxy, client_tcp) thread" where
  "connect_thread os pton dst port =
     bind_thread (call_turn os (Socket AF_INET SOCK_STREAM 0)) (\<lambda>first.
     if first < 0 then Done (Inl (Exit_process 1))
     else bind_thread (call_turn os (Inet_pton (c_str dst))) (\<lambda>ok.
     if ok \<le> 0 then Done (Inl (Exit_process 1))
     else bind_thread (turn (on_sys (resolve os dst port SOCK_STREAM IPPROTO_TCP))) (\<lambda>result.
     bind_thread (connect_loop_thread os result (- 1) True) (\<lambda>(sfd, send_flag).
     if send_flag then Done (Inl (Exit_process 1))
     else Done (Inr \<lparr> tcp_serv_addr = \<lparr> sin_port = htons port, sin_addr = pton (c_str dst) \<rparr>,
       tcp_sock = sfd \<rparr>)))))"

section \<open>Alone they are the clients\<close>

lemma run_calls [simp]:
  "run_alone (call_turn os c) = on_sys (sys os c)" "run_alone (do_turn os c) = on_sys (sys_do os c)"
  by (simp_all add: call_turn_def do_turn_def)

lemma run_send_loop [simp]:
  "run_alone (send_loop_thread os close_old msg rps sfd flag) = on_sys (send_loop os close_old msg rps sfd flag)"
proof (induction rps arbitrary: sfd flag)
  case (Cons rp rps)
  show ?case
    by (simp add: Cons.IH run_Done on_sys_bind on_pure on_when run_if if_distrib [of on_sys]
        if_distrib [of run_alone] lift_Inr cong: if_cong del: run_alone.simps bind_thread.simps on_sys_apply on_base_apply)
qed (simp add: run_Done on_pure lift_Inr del: run_alone.simps bind_thread.simps on_sys_apply on_base_apply)

lemma run_udp_client [simp]:
  "run_alone (udp_client_thread os message n dst port) = on_sys (send_and_wait_response os message n dst port)"
  by (simp add: udp_client_thread_def send_and_wait_response_def on_sys_bind on_when
      del: on_sys_apply)

lemma run_into_chain [simp]:
  "run_alone (into_chain_thread os sfcid saddr source daddr dest direction path pkt n) =
     send_into_chain os sfcid saddr source daddr dest direction path pkt n"
  by (simp add: into_chain_thread_def send_into_chain_def run_Done Let_def del: run_alone.simps bind_thread.simps on_sys_apply on_base_apply)

lemma run_connect_loop [simp]:
  "run_alone (connect_loop_thread os rps sfd flag) = on_sys (connect_loop os rps sfd flag)"
proof (induction rps arbitrary: sfd flag)
  case (Cons rp rps)
  show ?case
    by (simp add: Cons.IH run_Done on_sys_bind on_pure on_when run_if if_distrib [of on_sys]
        if_distrib [of run_alone] lift_Inr cong: if_cong del: run_alone.simps bind_thread.simps on_sys_apply on_base_apply)
qed (simp add: run_Done on_pure lift_Inr del: run_alone.simps bind_thread.simps on_sys_apply on_base_apply)

lemma run_connect [simp]:
  "run_alone (connect_thread os pton dst port) = on_sys (connect_to_server os pton dst port)"
  by (simp add: connect_thread_def connect_to_server_def run_Done on_sys_bind on_pure lift_Inr split_def
      if_distrib [of on_sys] if_distrib [of run_alone] cong: if_cong
      del: run_alone.simps bind_thread.simps on_sys_apply on_base_apply)

section \<open>What they call among other threads\<close>

text \<open>Threads that keep I of the endpoint, and whose calls are in C.\<close>

abbreviation keeps_calls ::
    "(endpoint_state \<Rightarrow> bool) \<Rightarrow> (sys_call \<Rightarrow> bool) \<Rightarrow> ('a \<Rightarrow> bool) \<Rightarrow> (proxy, 'a) thread \<Rightarrow> bool" where
  "keeps_calls I C \<equiv> thread_keeps (\<lambda>s. I (base s)) (\<lambda>s s'. adds C (calls s) (calls s'))"

lemma turn_base: "keeps_value I m Q \<Longrightarrow> keeps_calls I C Q (turn (on_base m))"
  by (rule thread_keeps_turn) (auto simp: keeps_value_def)

lemma turn_sys: "adding C m \<Longrightarrow> keeps_calls I C (\<lambda>_. True) (turn (on_sys m))"
  by (rule thread_keeps_turn) (auto simp: adding_def)

lemma turn_call: "C c \<Longrightarrow> keeps_calls I C (\<lambda>_. True) (call_turn os c)"
  "C c \<Longrightarrow> keeps_calls I C (\<lambda>_. True) (do_turn os c)"
  unfolding call_turn_def do_turn_def by (intro turn_sys adding_sys; assumption)+

lemma thread_return: "Q x \<Longrightarrow> thread_keeps P G Q (Done (Inr x))"
  by (rule keeps_Done) simp

lemma thread_fault: "thread_keeps P G Q (Done (Inl f))"
  by (rule keeps_Done) simp

lemma thread_lift: "thread_keeps P G (\<lambda>x. r = Inr x) (Done r)"
  by (rule keeps_Done) simp

lemma thread_any: "thread_keeps P G (\<lambda>_. True) (Done r)"
  by (rule keeps_Done) simp

lemmas thread_rules = thread_any thread_keeps_if thread_keeps_when turn_call

lemma send_loop_keeps:
  "lets_client C m \<Longrightarrow> keeps_calls I C (\<lambda>_. True) (send_loop_thread os close_old (Inr m) rps sfd flag)"
proof (induction rps arbitrary: sfd flag)
  case (Cons rp rps)
  show ?case
    unfolding send_loop_thread.simps
    by (intro thread_rules thread_keeps_bind [where Q = "\<lambda>_. True"] Cons.IH [OF Cons.prems] TrueI
        thread_keeps_bind [OF thread_lift])
      (use Cons.prems Cons.IH in \<open>auto simp: lets_client_def intro!: thread_rules Cons.IH\<close>)
qed (simp add: thread_any)

lemma udp_client_keeps:
  assumes "read_bytes message 0 n = Inr m" "lets_client C m"
  shows "keeps_calls I C (\<lambda>_. True) (udp_client_thread os message n dst port)"
  unfolding udp_client_thread_def assms(1)
  by (intro thread_keeps_bind [where Q = "\<lambda>_. True"] turn_sys adding_resolve send_loop_keeps thread_rules)
    (use assms(2) in \<open>simp_all add: lets_client_def\<close>)

lemma connect_loop_keeps:
  "keeps_calls I (calls_if P R) (\<lambda>_. True) (connect_loop_thread os rps sfd flag)"
proof (induction rps arbitrary: sfd flag)
  case (Cons rp rps)
  show ?case
    unfolding connect_loop_thread.simps
    by (intro thread_rules thread_keeps_bind [where Q = "\<lambda>_. True"] Cons.IH) simp_all
qed (simp add: thread_any)

lemma connect_keeps:
  assumes "R (c_str dst, to_string (unat port))"
  shows "keeps_calls I (calls_if P R) (\<lambda>_. True) (connect_thread os pton dst port)"
  unfolding connect_thread_def split_def
  by (intro thread_rules thread_keeps_bind [where Q = "\<lambda>_. True"] connect_loop_keeps turn_sys adding_resolve)
    (use assms in simp_all)

lemma into_chain_keeps:
  assumes "lets_client C (sfc_header_bytes (chain_0_header saddr source daddr dest direction path) @ take n pkt)"
  shows "keeps_calls I C (\<lambda>_. True) (into_chain_thread os ''0'' saddr source daddr dest direction path pkt n)"
proof -
  let ?h = "chain_0_header saddr source daddr dest direction path"
  have "keeps_calls I C (\<lambda>_. True) (udp_client_thread os p (n + header_size) dst port)"
    if "prepend_header pkt n ?h (replicate (n + header_size) 0) = Inr p" for p dst port
  proof -
    note p = prepend_header_Inr [OF that]
    have "read_bytes p 0 (n + header_size) = Inr p" using p(2) by (simp add: read_bytes_def)
    then show ?thesis by (rule udp_client_keeps) (use assms p(1) in simp)
  qed
  then show ?thesis
    unfolding into_chain_thread_def stoi_0 Let_def
    by (intro thread_keeps_bind [OF thread_lift]) (auto simp: chain_0_header_def)
qed

lemma keeps_value_pure: "(\<And>s. P s \<Longrightarrow> P (snd (m s))) \<Longrightarrow> keeps_value P m (\<lambda>_. True)"
  by (simp add: keeps_value_def)

end
