(* ===== verification/Packet_Forge.thy ===== *)
theory Packet_Forge
  imports Packet_Utils
begin

text \<open>
  PacketUtils::forge_ip_udp_pkt of src/src/utils/packetutils.cpp, step by step: the buffer is
  cleared for its first 4096 bytes, the payload is copied with strncpy, the IP header is filled in
  and summed over \<open>tot_len\<close> bytes, the UDP header is filled in and summed over the pseudo header,
  itself and the payload. The lemmas give the exact bytes of the datagram, the members a receiver
  reads back, and what its checksums verify to.
\<close>

unbundle bit_operations_syntax

section \<open>struct pseudo_header\<close>

record pseudo_header =
  psh_source_address :: u32
  psh_dest_address :: u32
  psh_placeholder :: u8
  psh_protocol :: u8
  psh_udp_length :: u16

definition pseudo_header_bytes :: "pseudo_header \<Rightarrow> byte list" where
  "pseudo_header_bytes p =
     le32 (psh_source_address p) @ le32 (psh_dest_address p) @
     [psh_placeholder p, psh_protocol p] @ le16 (psh_udp_length p)"

lemma length_pseudo_header_bytes [simp, wire_simps]: "length (pseudo_header_bytes p) = 12"
  by (simp add: pseudo_header_bytes_def)

section \<open>The headers the function fills in\<close>

definition ipproto_udp :: u8 where
  "ipproto_udp = 17"

definition forged_iphdr :: "u64 \<Rightarrow> string \<Rightarrow> string \<Rightarrow> u16 \<Rightarrow> iphdr" where
  "forged_iphdr data_len source_ip dest_ip check =
     \<lparr>ip_ihl = 5, ip_version = 4, ip_tos = 0, ip_tot_len = ucast (20 + 8 + data_len),
      ip_id = ucast (htonl 54321), ip_frag_off = 0, ip_ttl = 255, ip_protocol = ipproto_udp,
      ip_check = check, ip_saddr = inet_addr source_ip, ip_daddr = inet_addr dest_ip\<rparr>"

definition forged_udphdr :: "u64 \<Rightarrow> u16 \<Rightarrow> u16 \<Rightarrow> u16 \<Rightarrow> udphdr" where
  "forged_udphdr data_len source_port dest_port check =
     \<lparr>udp_source = htons source_port, udp_dest = htons dest_port,
      udp_len = htons (ucast (8 + data_len)), udp_check = check\<rparr>"

definition forged_pseudo :: "u64 \<Rightarrow> string \<Rightarrow> string \<Rightarrow> pseudo_header" where
  "forged_pseudo data_len source_ip dest_ip =
     \<lparr>psh_source_address = inet_addr source_ip, psh_dest_address = inet_addr dest_ip,
      psh_placeholder = 0, psh_protocol = ipproto_udp,
      psh_udp_length = htons (ucast (8 + data_len))\<rparr>"

section \<open>The function\<close>

text \<open>
  The datagram buffer is the caller's, so its bytes are an argument and the result is the buffer
  afterwards. \<open>psize\<close> is an int, so the 64-bit length is cut to 32 bits and read as signed.
\<close>

definition forge_ip_udp_pkt ::
    "byte list \<Rightarrow> u64 \<Rightarrow> string \<Rightarrow> string \<Rightarrow> u16 \<Rightarrow> u16 \<Rightarrow> byte list \<Rightarrow> byte list result" where
  "forge_ip_udp_pkt data data_len source_ip dest_ip source_port dest_port datagram =
     bind_result (memset_zero datagram 4096) (\<lambda>d.
     bind_result (strncpy d (20 + 8) data 0 (unat data_len)) (\<lambda>d.
     let iph = forged_iphdr data_len source_ip dest_ip 0
     in bind_result (write_bytes d 0 (iphdr_bytes iph)) (\<lambda>d.
     bind_result (csum d (int (unat (ip_tot_len iph)))) (\<lambda>c.
     bind_result (write_bytes d 0 (iphdr_bytes (iph\<lparr>ip_check := c\<rparr>))) (\<lambda>d.
     let udph = forged_udphdr data_len source_port dest_port 0;
         psh = forged_pseudo data_len source_ip dest_ip;
         psize = sint (ucast (12 + 8 + data_len) :: 32 word);
         pseudogram = replicate (nat psize) 0
     in bind_result (write_bytes d 20 (udphdr_bytes udph)) (\<lambda>d.
     bind_result (memcpy pseudogram 0 (pseudo_header_bytes psh) 0 12) (\<lambda>pseudogram.
     bind_result (memcpy pseudogram 12 d 20 (8 + unat data_len)) (\<lambda>pseudogram.
     bind_result (csum pseudogram psize) (\<lambda>c.
     write_bytes d 20 (udphdr_bytes (udph\<lparr>udp_check := c\<rparr>)))))))))))"

section \<open>The bytes of the datagram\<close>

text \<open>
  For a payload of \<open>n\<close> bytes that fits the buffer behind the two headers: the buffer after the
  copy, the checksum fields still zero.
\<close>

definition forged_tail :: "byte list \<Rightarrow> nat \<Rightarrow> byte list \<Rightarrow> byte list" where
  "forged_tail data n datagram =
     strncpy_bytes data n @ drop (28 + n) (replicate 4096 0 @ drop 4096 datagram)"

lemma length_forged_tail:
  "length datagram = buffer_size \<Longrightarrow> n \<le> 65508 \<Longrightarrow> length (forged_tail data n datagram) = 65508"
  by (simp add: forged_tail_def buffer_size_def)

lemma forge_prefix:
  assumes "length datagram = buffer_size" "n \<le> length data" "n \<le> 65508"
  shows "memset_zero datagram 4096 = Inr (replicate 4096 0 @ drop 4096 datagram)"
    and "strncpy (replicate 4096 0 @ drop 4096 datagram) (20 + 8) data 0 n =
      Inr (replicate 28 0 @ forged_tail data n datagram)"
  using assms
  by (simp_all add: memset_zero_def write_bytes_def strncpy_def forged_tail_def buffer_size_def)

lemma write_front:
  "length bs = length pre \<Longrightarrow> write_bytes (pre @ rest) 0 bs = Inr (bs @ rest)"
  by (simp add: write_bytes_def)

lemma write_middle:
  "length bs = length mid \<Longrightarrow> length pre = off \<Longrightarrow>
   write_bytes (pre @ mid @ rest) off bs = Inr (pre @ bs @ rest)"
  by (simp add: write_bytes_def)

lemma unat_data_len: "n \<le> 65508 \<Longrightarrow> unat (of_nat n :: u64) = n"
  by (simp add: unat_of_nat)

lemma psize_value:
  assumes "n \<le> 65508"
  shows "sint (ucast (12 + 8 + of_nat n :: u64) :: 32 word) = int (20 + n)"
proof -
  have "(12 + 8 + of_nat n :: u64) = of_nat (20 + n)" by simp
  moreover have "take_bit 64 (20 + n) = 20 + n"
    using assms by (simp add: take_bit_nat_eq_self_iff)
  ultimately have "ucast (12 + 8 + of_nat n :: u64) = (of_nat (20 + n) :: 32 word)"
    by (simp only: unsigned_of_nat) simp
  moreover have "sint (of_nat (20 + n) :: 32 word) = int (20 + n)"
    using assms by (simp only: signed_of_nat) (simp add: signed_take_bit_int_eq_self)
  ultimately show ?thesis by simp
qed

text \<open>
  The whole function on a payload that fits: the IP checksum is that of the first \<open>tot_len\<close>
  bytes, the UDP checksum that of the pseudo header with the UDP header and payload behind it.
\<close>

definition udp_sum_input ::
    "u64 \<Rightarrow> string \<Rightarrow> string \<Rightarrow> u16 \<Rightarrow> u16 \<Rightarrow> byte list \<Rightarrow> u16 \<Rightarrow> byte list" where
  "udp_sum_input data_len source_ip dest_ip source_port dest_port payload check =
     pseudo_header_bytes (forged_pseudo data_len source_ip dest_ip) @
     udphdr_bytes (forged_udphdr data_len source_port dest_port check) @ payload"

lemma forge_layout:
  fixes n :: nat
  assumes "length datagram = buffer_size" "n \<le> length data" "n \<le> 65508"
  obtains ipc udpc where
    "forge_ip_udp_pkt data (of_nat n) source_ip dest_ip source_port dest_port datagram =
       Inr (iphdr_bytes (forged_iphdr (of_nat n) source_ip dest_ip ipc) @
            udphdr_bytes (forged_udphdr (of_nat n) source_port dest_port udpc) @
            forged_tail data n datagram)"
    and "csum (udp_sum_input (of_nat n) source_ip dest_ip source_port dest_port
           (strncpy_bytes data n) 0) (int (20 + n)) = Inr udpc"
    and "csum (iphdr_bytes (forged_iphdr (of_nat n) source_ip dest_ip 0) @ replicate 8 0 @
           forged_tail data n datagram)
         (int (unat (ip_tot_len (forged_iphdr (of_nat n) source_ip dest_ip 0)))) = Inr ipc"
proof -
  let ?ip = "forged_iphdr (of_nat n) source_ip dest_ip"
  let ?udp = "forged_udphdr (of_nat n) source_port dest_port"
  let ?tail = "forged_tail data n datagram"
  let ?psh = "pseudo_header_bytes (forged_pseudo (of_nat n) source_ip dest_ip)"
  let ?tot = "int (unat (ip_tot_len (?ip 0)))"
  let ?sum_in = "udp_sum_input (of_nat n) source_ip dest_ip source_port dest_port
      (strncpy_bytes data n)"
  have len: "length ?tail = 65508"
    using assms(1,3) by (rule length_forged_tail)
  have "unat (ip_tot_len (?ip 0)) \<le> length (iphdr_bytes (?ip 0) @ replicate 8 0 @ ?tail)"
    using unat_u16_less [of "ip_tot_len (?ip 0)"] len by simp
  then have "?tot \<le> int (length (iphdr_bytes (?ip 0) @ replicate 8 0 @ ?tail))"
    by (simp only: of_nat_le_iff)
  then obtain ipc where ipc: "csum (iphdr_bytes (?ip 0) @ replicate 8 0 @ ?tail) ?tot = Inr ipc"
    using csum_in_bounds by blast
  have "int (20 + n) \<le> int (length (?sum_in 0))" by (simp add: udp_sum_input_def)
  then obtain udpc where udpc: "csum (?sum_in 0) (int (20 + n)) = Inr udpc"
    using csum_in_bounds by blast
  have clear: "replicate 28 0 @ ?tail = replicate 20 0 @ replicate 8 0 @ ?tail"
    using replicate_add [of 20 8 "0::byte"] by simp
  have ip_write: "write_bytes (replicate 28 0 @ ?tail) 0 (iphdr_bytes (?ip 0)) =
      Inr (iphdr_bytes (?ip 0) @ replicate 8 0 @ ?tail)"
    unfolding clear by (rule write_front) simp
  have ip_check: "write_bytes (iphdr_bytes (?ip 0) @ replicate 8 0 @ ?tail) 0
      (iphdr_bytes ((?ip 0)\<lparr>ip_check := ipc\<rparr>)) = Inr (iphdr_bytes (?ip ipc) @ replicate 8 0 @ ?tail)"
    by (subst write_front) (simp_all add: forged_iphdr_def)
  have udp_write: "write_bytes (iphdr_bytes (?ip ipc) @ replicate 8 0 @ ?tail) 20
      (udphdr_bytes (?udp 0)) = Inr (iphdr_bytes (?ip ipc) @ udphdr_bytes (?udp 0) @ ?tail)"
    by (rule write_middle) simp_all
  have udp_check: "write_bytes (iphdr_bytes (?ip ipc) @ udphdr_bytes (?udp 0) @ ?tail) 20
      (udphdr_bytes ((?udp 0)\<lparr>udp_check := udpc\<rparr>)) =
      Inr (iphdr_bytes (?ip ipc) @ udphdr_bytes (?udp udpc) @ ?tail)"
    by (subst write_middle) (simp_all add: forged_udphdr_def)
  have pseudo1: "memcpy (replicate (20 + n) 0) 0 ?psh 0 12 = Inr (?psh @ replicate (8 + n) 0)"
    by (simp add: memcpy_Inr_iff)
  have "take n ?tail = strncpy_bytes data n" by (simp add: forged_tail_def)
  then have pseudo2: "memcpy (?psh @ replicate (8 + n) 0) 12
      (iphdr_bytes (?ip ipc) @ udphdr_bytes (?udp 0) @ ?tail) 20 (8 + n) = Inr (?sum_in 0)"
    using len assms(3) by (simp add: memcpy_Inr_iff udp_sum_input_def)
  have psize: "nat (int (20 + n)) = 20 + n" by simp
  have "forge_ip_udp_pkt data (of_nat n) source_ip dest_ip source_port dest_port datagram =
      Inr (iphdr_bytes (?ip ipc) @ udphdr_bytes (?udp udpc) @ ?tail)"
    unfolding forge_ip_udp_pkt_def forge_prefix(1) [OF assms] bind_result_Inr
      unat_data_len [OF assms(3)] forge_prefix(2) [OF assms] Let_def ip_write ipc ip_check
      udp_write psize_value [OF assms(3)] psize pseudo1 pseudo2 udpc udp_check ..
  then show ?thesis using udpc ipc by (rule that)
qed

section \<open>What a receiver of the datagram sees\<close>

lemma unat_cast_u16:
  assumes "m < 65536"
  shows "unat (ucast (of_nat m :: u64) :: u16) = m"
proof -
  have "take_bit 64 m = m" "take_bit 16 m = m"
    using assms by (simp_all add: take_bit_nat_eq_self_iff)
  then show ?thesis by (simp add: unsigned_ucast_eq unsigned_of_nat)
qed

lemma forged_lengths:
  fixes n :: nat
  assumes "n \<le> 65507"
  shows "unat (ucast (28 + of_nat n :: u64) :: u16) = 28 + n"
    and "unat (ucast (8 + of_nat n :: u64) :: u16) = 8 + n"
  using unat_cast_u16 [of "28 + n"] unat_cast_u16 [of "8 + n"] assms by simp_all

text \<open>
  C25: a datagram forged from a payload of at most 65507 bytes is read back by the program's own
  header reader: version 4 and header length 5, protocol UDP, the addresses given as text, both
  ports, total length 28 more than the payload and UDP length 8 more, and behind the headers the
  payload as strncpy copies it.
\<close>
theorem forge_read_back:
  assumes "length datagram = buffer_size" "n \<le> length data" "n \<le> 65507"
  shows "\<exists>d h u.
    forge_ip_udp_pkt data (of_nat n) source_ip dest_ip source_port dest_port datagram = Inr d \<and>
    retrieve_ip_udp_header d = Inr (h, u) \<and>
    ip_version h = 4 \<and> ip_ihl h = 5 \<and> ip_protocol h = 17 \<and> ip_ttl h = 255 \<and>
    ip_saddr h = ip_to_int source_ip \<and> ip_daddr h = ip_to_int dest_ip \<and>
    unat (ip_tot_len h) = 28 + n \<and>
    htons (udp_source u) = source_port \<and> htons (udp_dest u) = dest_port \<and>
    unat (htons (udp_len u)) = 8 + n \<and>
    take n (drop 28 d) = strncpy_bytes data n"
proof -
  have n: "n \<le> 65508" using assms(3) by simp
  obtain ipc udpc where d: "forge_ip_udp_pkt data (of_nat n) source_ip dest_ip source_port
      dest_port datagram = Inr (iphdr_bytes (forged_iphdr (of_nat n) source_ip dest_ip ipc) @
        udphdr_bytes (forged_udphdr (of_nat n) source_port dest_port udpc) @
        forged_tail data n datagram)"
    using forge_layout [OF assms(1,2) n] by blast
  show ?thesis
    unfolding d
    by (intro exI conjI, rule refl, rule retrieve_ip_udp_header_layout)
      (simp_all add: forged_iphdr_def forged_udphdr_def forged_lengths [OF assms(3)]
        ipproto_udp_def ip_to_int_def forged_tail_def)
qed

theorem forge_read_back_witness:
  "\<exists>d h u. forge_ip_udp_pkt [1, 2, 3] 3 ''10.0.0.7'' ''10.0.0.9'' 8787 53
      (replicate buffer_size 0) = Inr d \<and>
    retrieve_ip_udp_header d = Inr (h, u) \<and> ip_saddr h = ip_to_int ''10.0.0.7'' \<and>
    unat (ip_tot_len h) = 31 \<and> htons (udp_dest u) = 53"
  using forge_read_back [of "replicate buffer_size 0" 3 "[1, 2, 3]" "''10.0.0.7''" "''10.0.0.9''"
      8787 53] by fastforce

text \<open>
  C24: the UDP checksum of a forged datagram is one that a receiver accepts: the sum over the
  pseudo header it forms (the two addresses as they lie in the IP header, a zero, the protocol UDP,
  and the length field of the UDP header), the UDP header with its checksum, and the payload, is zero.
\<close>
theorem forge_udp_checksum:
  assumes "length datagram = buffer_size" "n \<le> length data" "n \<le> 65508"
  shows "\<exists>d. forge_ip_udp_pkt data (of_nat n) source_ip dest_ip source_port dest_port datagram = Inr d \<and>
    csum (take 8 (drop 12 d) @ [0, 17] @ take 2 (drop 24 d) @ take (8 + n) (drop 20 d))
      (int (20 + n)) = Inr 0"
proof -
  obtain ipc udpc where d: "forge_ip_udp_pkt data (of_nat n) source_ip dest_ip source_port
      dest_port datagram = Inr (iphdr_bytes (forged_iphdr (of_nat n) source_ip dest_ip ipc) @
        udphdr_bytes (forged_udphdr (of_nat n) source_port dest_port udpc) @
        forged_tail data n datagram)" (is "_ = Inr ?d")
    and c: "csum (udp_sum_input (of_nat n) source_ip dest_ip source_port dest_port
      (strncpy_bytes data n) 0) (int (20 + n)) = Inr udpc"
    using forge_layout [OF assms] by blast
  let ?pre = "pseudo_header_bytes (forged_pseudo (of_nat n) source_ip dest_ip) @
      le16 (htons source_port) @ le16 (htons dest_port) @ le16 (htons (ucast (8 + of_nat n :: u64)))"
  have split: "udp_sum_input (of_nat n) source_ip dest_ip source_port dest_port p v =
      ?pre @ le16 v @ p" for p v
    by (simp add: udp_sum_input_def udphdr_bytes_def forged_udphdr_def)
  have "csum (?pre @ le16 udpc @ strncpy_bytes data n @ []) (int (20 + n)) = Inr 0"
    by (rule csum_field_cancels) (use c assms(3) in \<open>simp_all add: split\<close>)
  moreover have "take 8 (drop 12 ?d) @ [0, 17] @ take 2 (drop 24 ?d) @ take (8 + n) (drop 20 ?d) =
      ?pre @ le16 udpc @ strncpy_bytes data n @ []"
    by (simp add: forged_tail_def iphdr_bytes_def udphdr_bytes_def forged_iphdr_def forged_udphdr_def
        pseudo_header_bytes_def forged_pseudo_def ipproto_udp_def)
  ultimately show ?thesis using d by auto
qed

theorem forge_udp_checksum_witness:
  "\<exists>d. forge_ip_udp_pkt [9, 8] 2 ''10.0.0.7'' ''10.0.0.9'' 8787 53 (replicate buffer_size 0) = Inr d \<and>
    csum (take 8 (drop 12 d) @ [0, 17] @ take 2 (drop 24 d) @ take 10 (drop 20 d)) 22 = Inr 0"
  using forge_udp_checksum [of "replicate buffer_size 0" 2 "[9, 8]" "''10.0.0.7''" "''10.0.0.9''"
      8787 53] by fastforce

text \<open>
  C37: the payload of a forged datagram is the caller's exactly when no byte after its first zero
  byte differs from zero; strncpy ends at the first zero byte and fills up with zeros, so binary
  payloads are lost from there on.
\<close>
theorem forge_payload_intact_iff:
  assumes "length datagram = buffer_size" "n \<le> length data" "n \<le> 65508"
  shows "\<exists>d.
    forge_ip_udp_pkt data (of_nat n) source_ip dest_ip source_port dest_port datagram = Inr d \<and>
    (take n (drop 28 d) = take n data \<longleftrightarrow>
     (\<forall>b \<in> set (dropWhile (\<lambda>b. b \<noteq> 0) (take n data)). b = 0))"
proof -
  obtain ipc udpc where d: "forge_ip_udp_pkt data (of_nat n) source_ip dest_ip source_port
      dest_port datagram = Inr (iphdr_bytes (forged_iphdr (of_nat n) source_ip dest_ip ipc) @
        udphdr_bytes (forged_udphdr (of_nat n) source_port dest_port udpc) @
        forged_tail data n datagram)" (is "_ = Inr ?d")
    using forge_layout [OF assms] by blast
  have "take n (drop 28 ?d) = strncpy_bytes (take n data) n"
    by (simp add: forged_tail_def strncpy_bytes_take)
  then show ?thesis using d assms(2) by (simp add: strncpy_bytes_eq_iff)
qed

theorem forge_payload_intact_iff_witness:
  "\<exists>d. forge_ip_udp_pkt [7, 0, 5] 3 ''10.0.0.7'' ''10.0.0.9'' 8787 53 (replicate buffer_size 0) = Inr d \<and>
    take 3 (drop 28 d) \<noteq> [7, 0, 5]"
  using forge_payload_intact_iff [of "replicate buffer_size 0" 3 "[7, 0, 5]" "''10.0.0.7''"
      "''10.0.0.9''" 8787 53] by fastforce

lemma forge_too_long:
  assumes "length datagram = buffer_size" "n \<le> length data" "n < 2 ^ 64" "65508 < n"
  shows "forge_ip_udp_pkt data (of_nat n) source_ip dest_ip source_port dest_port datagram =
    Inl (Undefined Out_of_bounds_write)"
proof -
  have "unat (of_nat n :: u64) = n" using assms(3) by (simp add: unat_of_nat)
  then show ?thesis
    using assms(1,2,4)
    by (simp add: forge_ip_udp_pkt_def memset_zero_def write_bytes_def strncpy_def buffer_size_def)
qed

text \<open>
  the buffer bounds the payload: with the bytes at hand, the call gives a datagram for up to
  65508 of them, and beyond that it writes past the datagram buffer.
\<close>
lemma forge_bounds:
  assumes "length datagram = buffer_size" "n \<le> length data" "n < 2 ^ 64"
  shows "(n \<le> 65508 \<longrightarrow> (\<exists>d.
      forge_ip_udp_pkt data (of_nat n) source_ip dest_ip source_port dest_port datagram = Inr d)) \<and>
    (65508 < n \<longrightarrow>
      forge_ip_udp_pkt data (of_nat n) source_ip dest_ip source_port dest_port datagram =
        Inl (Undefined Out_of_bounds_write))"
proof (intro conjI impI)
  assume "n \<le> 65508"
  then show "\<exists>d. forge_ip_udp_pkt data (of_nat n) source_ip dest_ip source_port dest_port datagram = Inr d"
    using forge_layout [OF assms(1,2)] by metis
next
  assume "65508 < n"
  then show "forge_ip_udp_pkt data (of_nat n) source_ip dest_ip source_port dest_port datagram =
      Inl (Undefined Out_of_bounds_write)"
    using assms by (intro forge_too_long)
qed

text \<open>
  the identification field of every forged datagram is zero: the code stores 54321 byte-swapped
  as a 32-bit number in a 16-bit member, which keeps the half that is zero.
\<close>
lemma forge_identification_zero:
  assumes "forge_ip_udp_pkt data data_len source_ip dest_ip source_port dest_port datagram = Inr d"
    and "length datagram = buffer_size" "unat data_len \<le> length data"
  shows "ip_id (iphdr_of_bytes d) = 0"
proof -
  define n where "n = unat data_len"
  have len: "data_len = of_nat n" by (simp add: n_def)
  have n: "n \<le> length data" "n < 2 ^ 64"
    using assms(3) unsigned_less [of data_len, where ?'a = nat] by (simp_all add: n_def)
  then have "n \<le> 65508"
    using forge_too_long [OF assms(2) n] assms(1) unfolding len
    by (metis linorder_not_le sum.distinct(1))
  then obtain ipc udpc where "d = iphdr_bytes (forged_iphdr data_len source_ip dest_ip ipc) @
        udphdr_bytes (forged_udphdr data_len source_port dest_port udpc) @
        forged_tail data n datagram"
    using forge_layout [OF assms(2) n(1)] assms(1) unfolding len by (metis sum.inject(2))
  then show ?thesis by (simp add: forged_iphdr_def htonl_def)
qed

section \<open>The IP header checksum\<close>

definition forged_ip_front :: "u64 \<Rightarrow> byte list" where
  "forged_ip_front data_len =
     [nibbles 5 4, 0] @ le16 (ucast (20 + 8 + data_len)) @ le16 (ucast (htonl 54321)) @ le16 0 @
     [255, ipproto_udp]"

lemma forged_iphdr_split:
  "iphdr_bytes (forged_iphdr data_len source_ip dest_ip c) =
     forged_ip_front data_len @ le16 c @ le32 (inet_addr source_ip) @ le32 (inet_addr dest_ip)"
  by (simp add: iphdr_bytes_def forged_iphdr_def forged_ip_front_def)

lemma forged_ip_front_even: "even (length (forged_ip_front data_len))"
  by (simp add: forged_ip_front_def)

lemma forged_ip_front_pos: "0 < sum_list (words16 (forged_ip_front data_len))"
proof -
  have "nibbles 5 4 = 0x45" by (simp add: nibbles_def)
  then show ?thesis by (simp add: forged_ip_front_def le16_def unat_of_le16)
qed

text \<open>
  C38: For payloads of at most 65507 bytes, the IP header checksum of a forged datagram is summed
  over the whole datagram, so a check over the header alone succeeds only when the payload's words
  add up to a multiple of 65535. (The kernel overwrites the member for raw sockets with IP_HDRINCL.)
\<close>
theorem forge_ip_checksum_iff:
  assumes "length datagram = buffer_size" "n \<le> length data" "n \<le> 65507"
  shows "\<exists>d.
    forge_ip_udp_pkt data (of_nat n) source_ip dest_ip source_port dest_port datagram = Inr d \<and>
    (csum (take 20 d) 20 = Inr 0 \<longleftrightarrow> 65535 dvd sum_list (words16 (take n (drop 28 d))))"
proof -
  let ?tail = "le32 (inet_addr source_ip) @ le32 (inet_addr dest_ip)"
  let ?front = "forged_ip_front (of_nat n)" and ?pay = "strncpy_bytes data n"
  let ?h = "\<lambda>c. ?front @ le16 c @ ?tail"
  have n: "n \<le> 65508" using assms(3) by simp
  have tot: "unat (ip_tot_len (forged_iphdr (of_nat n) source_ip dest_ip 0)) = 28 + n"
    using forged_lengths [OF assms(3)] by (simp add: forged_iphdr_def)
  obtain ipc udpc where d: "forge_ip_udp_pkt data (of_nat n) source_ip dest_ip source_port
      dest_port datagram = Inr (?h ipc @ udphdr_bytes (forged_udphdr (of_nat n) source_port
        dest_port udpc) @ forged_tail data n datagram)" (is "_ = Inr ?d")
    and c: "csum (?h 0 @ replicate 8 0 @ forged_tail data n datagram) (int (28 + n)) = Inr ipc"
    by (rule forge_layout [OF assms(1,2) n, of source_ip dest_ip source_port dest_port])
      (simp only: forged_iphdr_split tot append_assoc)
  have len: "length (?h v) = 20" for v by (simp add: forged_ip_front_def)
  define a where "a = sum_list (words16 ?front) + sum_list (words16 ?tail)"
  have sum: "sum_list (words16 (?h v)) = a + unat v" for v
    by (simp only: sum_words16_field [OF forged_ip_front_even] a_def)
  have zeros: "words16 (replicate 8 0) = [0, 0, 0, 0]"
    by (simp add: numeral_eq_Suc unat_of_le16)
  have cut: "take (28 + n) (?h 0 @ replicate 8 0 @ forged_tail data n datagram) =
      ?h 0 @ replicate 8 0 @ ?pay"
    using len [of 0] by (simp add: forged_tail_def)
  have even: "even (length (?h 0))" "even (length (replicate 8 (0::byte)))"
    unfolding len by simp_all
  have "sum_list (words16 (?h 0 @ replicate 8 0 @ ?pay)) = a + sum_list (words16 ?pay)"
    unfolding words16_append [OF even(1)] words16_append [OF even(2)] zeros sum_list_append sum
    by simp
  then have ipc: "unat ipc = 65535 - oc_norm (a + sum_list (words16 ?pay))"
    using csum_rfc1071 [of "28 + n" "?h 0 @ replicate 8 0 @ forged_tail data n datagram"]
      c assms(3) n length_forged_tail [OF assms(1) n, of data] len [of 0] cut
    by (simp add: rfc1071_norm)
  have "take 20 ?d = ?h ipc" using len [of ipc] by simp
  then have "csum (take 20 ?d) 20 = Inr 0 \<longleftrightarrow> oc_norm (a + unat ipc) = 65535"
    using csum_Inr_0_iff [of 20 "?h ipc"] len [of ipc] sum [of ipc] by simp
  also have "\<dots> \<longleftrightarrow> 65535 dvd sum_list (words16 ?pay)"
    unfolding ipc by (rule oc_norm_partial_check) (simp add: a_def forged_ip_front_pos)
  also have "?pay = take n (drop 28 ?d)"
    using len [of ipc] by (simp add: forged_tail_def)
  finally show ?thesis using d by blast
qed

theorem forge_ip_checksum_iff_witness:
  "\<exists>d. forge_ip_udp_pkt [1, 2] 2 ''10.0.0.7'' ''10.0.0.9'' 8787 53 (replicate buffer_size 0) = Inr d \<and>
    (csum (take 20 d) 20 = Inr 0 \<longleftrightarrow> 65535 dvd sum_list (words16 (take 2 (drop 28 d))))"
  using forge_ip_checksum_iff [of "replicate buffer_size 0" 2 "[1, 2]" "''10.0.0.7''" "''10.0.0.9''"
      8787 53] by fastforce

end
