(* ===== verification/Egress.thy ===== *)
theory Egress
  imports Proxy Packet_Forge
begin

text \<open>
  The proxy at the end of the chain, src/src/endpoint/egress.h and egress.cpp: a packet from the
  chain becomes a task, which sends the packet to its destination and the destination's answers back
  into the chain. The blocking reads of an answer are the list of what they give. The stack and heap
  buffers that are not initialised are arguments. Memory that is freed is not tracked.
\<close>

section \<open>Answers, back into the chain\<close>

datatype reply_end = Reply_waiting | Reply_stopped | Reply_closed

definition send_reply :: "os_lib \<Rightarrow> string \<Rightarrow> sfc_header \<Rightarrow> address list \<Rightarrow> byte list \<Rightarrow> nat \<Rightarrow> unit proxy_action" where
  "send_reply os sfcid header path buf n =
     send_into_chain os sfcid (sfc_source_address header) (sfc_source_port header)
       (sfc_destination_address header) (sfc_destination_port header) 1 path buf n"

fun udp_reply_loop ::
    "os_lib \<Rightarrow> 'j libs \<Rightarrow> sfc_header \<Rightarrow> byte list \<Rightarrow> received list \<Rightarrow> reply_end proxy_action" where
  "udp_reply_loop os L header buf [] = return_action Reply_waiting"
| "udp_reply_loop os L header buf (Receive_error # rs) = fail_action (Exit_process 1)"
| "udp_reply_loop os L header buf (End_of_stream # rs) = return_action Reply_closed"
| "udp_reply_loop os L header buf (Data bs # rs) =
     bind_action (on_base (classify L (receive_into bs buf) (length bs))) (\<lambda>sfcid.
     bind_action (on_base (route_of_chain L sfcid)) (\<lambda>path.
     bind_action
       (if path \<noteq> [] then send_reply os sfcid header path (receive_into bs buf) (length bs)
        else return_action ()) (\<lambda>_.
     if length bs < buffer_size then return_action Reply_stopped
     else udp_reply_loop os L header (receive_into bs buf) rs)))"

fun tcp_reply_loop ::
    "os_lib \<Rightarrow> 'j libs \<Rightarrow> sfc_header \<Rightarrow> byte list \<Rightarrow> received list \<Rightarrow> reply_end proxy_action" where
  "tcp_reply_loop os L header buf [] = return_action Reply_waiting"
| "tcp_reply_loop os L header buf (Receive_error # rs) = fail_action (Exit_process 1)"
| "tcp_reply_loop os L header buf (End_of_stream # rs) = return_action Reply_closed"
| "tcp_reply_loop os L header buf (Data bs # rs) =
     bind_action (on_base (classify L (receive_into bs buf) (length bs))) (\<lambda>sfcid.
     bind_action (on_base (route_of_chain L sfcid)) (\<lambda>path.
     if path \<noteq> []
     then bind_action (send_reply os sfcid header path (receive_into bs buf) (length bs)) (\<lambda>_.
          if length bs < buffer_size then return_action Reply_stopped
          else tcp_reply_loop os L header (receive_into bs buf) rs)
     else return_action Reply_stopped))"

section \<open>Sending to the destination\<close>

definition size_minus :: "nat \<Rightarrow> nat \<Rightarrow> u64" where
  "size_minus pkt_len pkt_calc = of_nat pkt_len - of_nat pkt_calc"

definition exit_if :: "bool \<Rightarrow> unit proxy_action" where
  "exit_if b = (if b then fail_action (Exit_process 1) else return_action ())"

text \<open>
  The first socket sends the datagram that is forged, the second is bound to the proxy's own address
  and reads the answer. Neither is closed. \<open>stack\<close> is the array datagram, \<open>buf\<close> the buffer.
\<close>

definition exit_udp_start ::
    "os_lib \<Rightarrow> 'j libs \<Rightarrow> byte list \<Rightarrow> nat \<Rightarrow> connection_entry \<Rightarrow> byte list \<Rightarrow> sfc_header proxy_action" where
  "exit_udp_start os L pkt pkt_len ce stack =
     bind_action (lift_result (udp_packet_header_size (drop header_size pkt))) (\<lambda>n.
     bind_action (lift_result (retrieve_header pkt)) (\<lambda>header.
     bind_action (on_sys (sys os (Socket AF_INET SOCK_RAW IPPROTO_RAW))) (\<lambda>sock.
     bind_action (exit_if (sock = - 1)) (\<lambda>_.
     bind_action current_base (\<lambda>b0.
     bind_action (lift_result (forge_ip_udp_pkt (drop (header_size + n) pkt)
       (size_minus pkt_len (header_size + n)) (get_my_ip b0) (ce_ip_dst ce)
       (ext_port b0) (ce_port_dst ce) stack)) (\<lambda>datagram.
     bind_action (on_sys (sys os (Socket AF_INET SOCK_RAW IPPROTO_UDP))) (\<lambda>raw_socket.
     bind_action (exit_if (raw_socket = - 1)) (\<lambda>_.
     bind_action (on_sys (sys os (Bind raw_socket \<lparr> sin_port = htons (ext_port b0),
       sin_addr = inet_addr (get_my_ip b0) \<rparr>))) (\<lambda>b.
     bind_action (if b = - 1
       then bind_action (on_sys (sys_do os (Close raw_socket))) (\<lambda>_. fail_action (Exit_process 1))
       else return_action ()) (\<lambda>_.
     let server = \<lparr> sin_port = htons (sfc_destination_port header),
                    sin_addr = sfc_destination_address header \<rparr>
     in bind_action (lift_result (read_bytes datagram 0 (unat (ip_tot_len (iphdr_of_bytes datagram)))))
          (\<lambda>bytes.
        bind_action (on_sys (sys os (Sendto sock bytes (Ipv4 server)))) (\<lambda>sent_len.
        bind_action (exit_if (sent_len < 0)) (\<lambda>_.
        bind_action (on_base (update_entry L ce sock server EGRESS_T)) (\<lambda>_.
        return_action header))))))))))))))"

definition manage_exiting_udp_packets ::
    "os_lib \<Rightarrow> 'j libs \<Rightarrow> byte list \<Rightarrow> nat \<Rightarrow> connection_entry \<Rightarrow> byte list \<Rightarrow> byte list \<Rightarrow>
     received list \<Rightarrow> reply_end proxy_action" where
  "manage_exiting_udp_packets os L pkt pkt_len ce stack buf rs =
     bind_action (exit_udp_start os L pkt pkt_len ce stack) (\<lambda>header. udp_reply_loop os L header buf rs)"

lemma manage_exiting_udp_steps:
  "manage_exiting_udp_packets os L pkt pkt_len ce stack buf rs =
     bind_action (lift_result (udp_packet_header_size (drop header_size pkt))) (\<lambda>n.
     bind_action (lift_result (retrieve_header pkt)) (\<lambda>header.
     bind_action (on_sys (sys os (Socket AF_INET SOCK_RAW IPPROTO_RAW))) (\<lambda>sock.
     bind_action (exit_if (sock = - 1)) (\<lambda>_.
     bind_action current_base (\<lambda>b0.
     bind_action (lift_result (forge_ip_udp_pkt (drop (header_size + n) pkt)
       (size_minus pkt_len (header_size + n)) (get_my_ip b0) (ce_ip_dst ce)
       (ext_port b0) (ce_port_dst ce) stack)) (\<lambda>datagram.
     bind_action (on_sys (sys os (Socket AF_INET SOCK_RAW IPPROTO_UDP))) (\<lambda>raw_socket.
     bind_action (exit_if (raw_socket = - 1)) (\<lambda>_.
     bind_action (on_sys (sys os (Bind raw_socket \<lparr> sin_port = htons (ext_port b0),
       sin_addr = inet_addr (get_my_ip b0) \<rparr>))) (\<lambda>b.
     bind_action (if b = - 1
       then bind_action (on_sys (sys_do os (Close raw_socket))) (\<lambda>_. fail_action (Exit_process 1))
       else return_action ()) (\<lambda>_.
     let server = \<lparr> sin_port = htons (sfc_destination_port header),
                    sin_addr = sfc_destination_address header \<rparr>
     in bind_action (lift_result (read_bytes datagram 0 (unat (ip_tot_len (iphdr_of_bytes datagram)))))
          (\<lambda>bytes.
        bind_action (on_sys (sys os (Sendto sock bytes (Ipv4 server)))) (\<lambda>sent_len.
        bind_action (exit_if (sent_len < 0)) (\<lambda>_.
        bind_action (on_base (update_entry L ce sock server EGRESS_T)) (\<lambda>_.
        udp_reply_loop os L header buf rs))))))))))))))"
  by (simp add: manage_exiting_udp_packets_def exit_udp_start_def action_laws Let_def
      del: return_action_apply)

text \<open>
  The vector's size wraps for a packet shorter than its headers, and is then refused. The payload is
  copied with strncpy.
\<close>

definition exit_tcp_start ::
    "os_lib \<Rightarrow> 'j libs \<Rightarrow> (string \<Rightarrow> u32) \<Rightarrow> byte list \<Rightarrow> nat \<Rightarrow> connection_entry \<Rightarrow> socket_fd \<Rightarrow>
     sfc_header proxy_action" where
  "exit_tcp_start os L pton pkt pkt_len ce fd =
     bind_action (lift_result (retrieve_header pkt)) (\<lambda>header.
     bind_action (lift_result (tcp_packet_header_size (drop header_size pkt))) (\<lambda>n.
     let pkt_calc = header_size + n;
         len = unat (size_minus pkt_len pkt_calc)
     in bind_action (lift_result (if 2 ^ 63 \<le> len then Inl (Throw Length_error)
          else strncpy (replicate len 0) 0 pkt pkt_calc len)) (\<lambda>v.
        bind_action
          (if fd = - 1
           then bind_action (on_sys (connect_to_server os pton
                  (int_to_ip (sfc_destination_address header)) (htons (sfc_destination_port header))))
                  (\<lambda>client.
                bind_action (on_base (update_entry L ce (access_to_socket client)
                  (access_to_sockaddr_in client) EGRESS_T)) (\<lambda>_.
                return_action (access_to_socket client)))
           else return_action fd) (\<lambda>sock.
        bind_action (on_sys (sys_do os (Send sock v))) (\<lambda>_.
        return_action header)))))"

definition manage_exiting_tcp_packets ::
    "os_lib \<Rightarrow> 'j libs \<Rightarrow> (string \<Rightarrow> u32) \<Rightarrow> byte list \<Rightarrow> nat \<Rightarrow> connection_entry \<Rightarrow> socket_fd \<Rightarrow>
     byte list \<Rightarrow> received list \<Rightarrow> reply_end proxy_action" where
  "manage_exiting_tcp_packets os L pton pkt pkt_len ce fd stack rs =
     bind_action (exit_tcp_start os L pton pkt pkt_len ce fd) (\<lambda>header. tcp_reply_loop os L header stack rs)"

lemma manage_exiting_tcp_steps:
  "manage_exiting_tcp_packets os L pton pkt pkt_len ce fd stack rs =
     bind_action (lift_result (retrieve_header pkt)) (\<lambda>header.
     bind_action (lift_result (tcp_packet_header_size (drop header_size pkt))) (\<lambda>n.
     let pkt_calc = header_size + n;
         len = unat (size_minus pkt_len pkt_calc)
     in bind_action (lift_result (if 2 ^ 63 \<le> len then Inl (Throw Length_error)
          else strncpy (replicate len 0) 0 pkt pkt_calc len)) (\<lambda>v.
        bind_action
          (if fd = - 1
           then bind_action (on_sys (connect_to_server os pton
                  (int_to_ip (sfc_destination_address header)) (htons (sfc_destination_port header))))
                  (\<lambda>client.
                bind_action (on_base (update_entry L ce (access_to_socket client)
                  (access_to_sockaddr_in client) EGRESS_T)) (\<lambda>_.
                return_action (access_to_socket client)))
           else return_action fd) (\<lambda>sock.
        bind_action (on_sys (sys_do os (Send sock v))) (\<lambda>_.
        tcp_reply_loop os L header stack rs)))))"
  by (simp add: manage_exiting_tcp_packets_def exit_tcp_start_def action_laws Let_def
      del: return_action_apply)

section \<open>A packet from the chain\<close>

record exit_task =
  task_prt :: protocol_type
  task_args :: udp_pkt_mngmnt_args
  task_ce :: connection_entry

text \<open>The handler acknowledges the packet and starts a detached thread on a task, which is its value.\<close>

definition egress_pkt_from_chain ::
    "os_lib \<Rightarrow> udp_pkt_mngmnt_args \<Rightarrow> exit_task proxy_action" where
  "egress_pkt_from_chain os args =
     bind_action (on_sys (sys_do os (Sendto (ua_socket_fd args) ack (Ipv4 (ua_client_address args)))))
       (\<lambda>_.
     bind_action (lift_result (retrieve_header (ua_pkt args))) (\<lambda>flh.
     bind_action (lift_result (retrieve_ip_udp_header (drop header_size (ua_pkt args))))
       (\<lambda>(iph, udph) s.
     let conn_type = (if ip_protocol iph = 6 then TCP else UDP);
         ce = chain_key flh conn_type
     in (Inr \<lparr> task_prt = conn_type,
               task_args = args \<lparr> ua_socket_fd := fst (retrieve_connection_2 ce (base s)) \<rparr>,
               task_ce = ce \<rparr>, s))))"

definition run_exit_task ::
    "os_lib \<Rightarrow> 'j libs \<Rightarrow> (string \<Rightarrow> u32) \<Rightarrow> exit_task \<Rightarrow> byte list \<Rightarrow> byte list \<Rightarrow> received list \<Rightarrow>
     reply_end proxy_action" where
  "run_exit_task os L pton task stack buf rs =
     (if task_prt task = TCP
      then manage_exiting_tcp_packets os L pton (ua_pkt (task_args task)) (ua_pkt_len (task_args task))
             (task_ce task) (ua_socket_fd (task_args task)) stack rs
      else manage_exiting_udp_packets os L (ua_pkt (task_args task)) (ua_pkt_len (task_args task))
             (task_ce task) stack buf rs)"

end
