(* ===== verification/Ingress_Streams.thy ===== *)
theory Ingress_Streams
  imports Ingress_Facts
begin

text \<open>
  A TCP connection at Ingress: what of the stream reaches the chain, what the table holds while the
  connection lasts and after it, and what happens to packets that belong to no connection.
\<close>

section \<open>One read\<close>

text \<open>Bytes that start with a plain IP header of TCP or UDP.\<close>

definition classified :: "byte list \<Rightarrow> bool" where
  "classified b \<longleftrightarrow> 20 < length b \<and> claimed_ip_len b = 20 \<and> (b ! 9 = 6 \<or> b ! 9 = 17)"

definition tcp_packet :: "iphdr \<Rightarrow> tcphdr \<Rightarrow> byte list \<Rightarrow> bool" where
  "tcp_packet iph tcph b \<longleftrightarrow> ip_ihl iph = 5 \<and> ip_protocol iph = 6 \<and> tcp_doff tcph = 5 \<and>
     (\<exists>rest. b = iphdr_bytes iph @ tcphdr_bytes tcph @ rest)"

lemma tcp_packet_classified: "tcp_packet iph tcph b \<Longrightarrow> classified b"
proof -
  assume b: "tcp_packet iph tcph b"
  then obtain rest where rest: "b = iphdr_bytes iph @ tcphdr_bytes tcph @ rest"
    by (auto simp: tcp_packet_def)
  have "claimed_ip_len b = 20" "20 < length b" using b by (simp_all add: rest tcp_packet_def)
  moreover have "b ! 9 = 6"
    using b by (simp add: rest tcp_packet_def iphdr_bytes_def le16_def nth_append)
  ultimately show ?thesis by (simp add: classified_def)
qed

lemma tcp_packet_headers:
  "tcp_packet iph tcph b \<Longrightarrow> retrieve_ip_tcp_header (receive_into b buf) = Inr (iph, tcph)"
  by (auto simp: tcp_packet_def receive_into_def retrieve_ip_tcp_header_layout)

lemma classify_received:
  assumes "classified b" "chain_table (chains e)" "shapes_ok L"
  obtains c where "classify L (receive_into b buf) (length b) e = (Inr ''0'', e \<lparr> chains := c \<rparr>)"
    "chain_table c"
proof -
  have "claimed_ip_len (receive_into b buf) = 20"
    using assms(1)
    by (cases b) (simp_all add: classified_def claimed_ip_len_def receive_into_def)
  moreover have "receive_into b buf ! 9 = 6 \<or> receive_into b buf ! 9 = 17"
    using assms(1) by (simp add: classified_def receive_into_def nth_append)
  ultimately show thesis
    using classify_value [of "length b" "receive_into b buf" e L] assms that
    by (auto simp: classified_def receive_into_def)
qed




text \<open>The first chunk of a connection, with a path and without one.\<close>

lemma first_chunk:
  fixes iph tcph path
  defines "key \<equiv> entering_key (ip_saddr iph) (ip_daddr iph) (tcp_source tcph) (tcp_dest tcph) ''0'' TCP"
  assumes "tcp_packet iph tcph b" "tl_first_pkt c"
    and "network_up os" "shapes_ok L" "chain_table (chains (base s))" "roulette (base s) \<noteq> None"
    and "service_up L path"
    and "comparable K" "tables_ordered K (base s)" "key \<in> K" "connections (base s) key = None"
  shows "\<exists>t. entering_tcp_chunk os L fd client c b s =
      (Inr (path \<noteq> [], if path \<noteq> []
         then c \<lparr> tl_pkt := receive_into b (tl_pkt c), tl_sfcid := ''0'', tl_headers := (iph, tcph),
           tl_prev_sfcid := ''0'', tl_first_pkt := False \<rparr>
         else c \<lparr> tl_pkt := receive_into b (tl_pkt c), tl_sfcid := ''0'', tl_headers := (iph, tcph) \<rparr>), t) \<and>
    (if path \<noteq> []
     then delivered (calls t) = delivered (calls s) @
       [sfc_header_bytes (entering_header iph (tcp_source tcph) (tcp_dest tcph) path) @ b]
     else calls t = calls s) \<and>
    tables_ordered K (base t) \<and> connections (base t) = (connections (base s))(key \<mapsto> (fd, client)) \<and>
    chain_table (chains (base t))"
proof -
  let ?pkt = "receive_into b (tl_pkt c)"
  obtain d where d: "classify L ?pkt (length b) (base s) = (Inr ''0'', base s \<lparr> chains := d \<rparr>)"
      "chain_table d"
    by (rule classify_received [OF tcp_packet_classified [OF assms(2)] assms(6,5)])
  let ?b0 = "base s \<lparr> chains := d \<rparr>"
  let ?add = "add_entry L key fd client INGRESS_T TCP"
  have b0: "roulette ?b0 \<noteq> None" "tables_ordered K ?b0" "connections ?b0 = connections (base s)"
    using assms(7,10) by (simp_all add: tables_ordered_def connections_def)
  obtain b1 where b1: "?add ?b0 = (Inr (), b1)"
    using assms(8) b0(1) by (metis prod.collapse service_up_def)
  have tab: "tables_ordered K b1" "roulette b1 \<noteq> None"
    "connections b1 = (connections (base s))(key \<mapsto> (fd, client))"
    using add_entry_ordered [OF assms(9) b0(2) assms(11,5), of fd client INGRESS_T TCP]
      add_entry_roulette [of L key fd client INGRESS_T TCP ?b0] b1 b0 assms(12) by auto
  have ch1: "chains b1 = d"
    using add_entry_chains [of L key fd client INGRESS_T TCP ?b0] b1 by simp
  obtain b2 where b2: "route_of_chain L ''0'' b1 = (Inr path, b2)"
    using assms(8) tab(2) by (metis prod.collapse service_up_def)
  have b2': "tables_ordered K b2" "connections b2 = connections b1" "chains b2 = d"
    using route_of_chain_tables(1) [of L "''0''" b1] route_of_chain_tables(2) [of K L "''0''" b1]
      route_of_chain_frame [of L "''0''" b1] b2 tab(1) ch1 by auto
  let ?s2 = "s \<lparr> base := b2 \<rparr>"
  have take: "take (length b) ?pkt = b" "length b \<le> length ?pkt" by (simp_all add: receive_into_def)
  show ?thesis
  proof (cases "path = []")
    case True
    have "entering_tcp_chunk os L fd client c b s =
        (Inr (False, c \<lparr> tl_pkt := ?pkt, tl_sfcid := ''0'', tl_headers := (iph, tcph) \<rparr>), ?s2)"
      using d(1) b1 b2 True assms(3) tcp_packet_headers [OF assms(2)]
      by (simp add: entering_tcp_chunk_def bind_action_def catch_failure_def key_def Let_def)
    then show ?thesis using True b2' tab(3) d(2) by simp
  next
    case False
    obtain u where u: "send_into_chain os ''0'' (ip_saddr iph) (tcp_source tcph) (ip_daddr iph)
        (tcp_dest tcph) 0 path ?pkt (length b) ?s2 = (Inr (), ?s2 \<lparr> calls := u \<rparr>)"
      "delivered u = delivered (calls s) @
        [sfc_header_bytes (entering_header iph (tcp_source tcph) (tcp_dest tcph) path) @ b]"
      using send_into_chain_up [OF assms(4) _ take(2), of 0 "ip_saddr iph" "tcp_source tcph"
          "ip_daddr iph" "tcp_dest tcph" 0 path ?s2] take(1)
      by (auto simp: to_string_0 entering_header_def)
    have "entering_tcp_chunk os L fd client c b s = (Inr (True, c \<lparr> tl_pkt := ?pkt, tl_sfcid := ''0'',
        tl_headers := (iph, tcph), tl_prev_sfcid := ''0'', tl_first_pkt := False \<rparr>),
        ?s2 \<lparr> calls := u \<rparr>)"
      using d(1) b1 b2 u(1) False assms(3) tcp_packet_headers [OF assms(2)]
      by (simp add: entering_tcp_chunk_def bind_action_def catch_failure_def key_def Let_def)
    then show ?thesis using False u(2) b2' tab(3) d(2) by simp
  qed
qed

section \<open>Whole connections\<close>

lemma first_locals_first [simp]: "tl_first_pkt (first_locals stack)"
  by (simp add: first_locals_def)


text \<open>
  C13: When the service has no path for the chain of a new TCP connection, the handler gives the
  client up: after the first chunk it reads nothing more, and no call of the system is made, so
  nothing is forwarded, the client's socket is neither answered nor closed, and the connection stays
  in the table. Here the network is up, the chain is asked of a service that answers, the chunk is a
  packet whose headers are plain, and the keys in use are comparable in an ordered table.
\<close>
theorem tcp_no_route_abandons:
  fixes iph tcph
  defines "key \<equiv> entering_key (ip_saddr iph) (ip_daddr iph) (tcp_source tcph) (tcp_dest tcph) ''0'' TCP"
  assumes "tcp_packet iph tcph b"
    and "network_up os" "shapes_ok L" "chain_table (chains (base s))" "roulette (base s) \<noteq> None"
    and "service_up L []"
    and "comparable K" "tables_ordered K (base s)" "key \<in> K" "connections (base s) key = None"
  shows "\<exists>t. manage_entering_tcp_packets os L fd client stack (Data b # rs) s = (Inr Stopped, t) \<and>
    calls t = calls s \<and> connections (base t) = (connections (base s))(key \<mapsto> (fd, client))"
proof -
  let ?c0 = "first_locals stack"
  let ?c1 = "?c0 \<lparr> tl_pkt := receive_into b (tl_pkt ?c0), tl_sfcid := ''0'', tl_headers := (iph, tcph) \<rparr>"
  obtain t where t: "entering_tcp_chunk os L fd client ?c0 b s = (Inr (False, ?c1), t)"
    "calls t = calls s" "connections (base t) = (connections (base s))(key \<mapsto> (fd, client))"
    using first_chunk [OF assms(2) first_locals_first assms(3-9) assms(10,11) [unfolded key_def],
        of fd client stack] unfolding key_def by auto
  have "\<not> tl_db_error ?c1" by (simp add: first_locals_def)
  then have "manage_entering_tcp_packets os L fd client stack (Data b # rs) s = (Inr Stopped, t)"
    using t(1) by (simp add: manage_entering_tcp_packets_def bind_action_def when_action_def)
  then show ?thesis using t(2,3) by blast
qed

text \<open>A connection to try the two on.\<close>

definition sample_tcp_iphdr :: iphdr where
  "sample_tcp_iphdr = sample_iphdr \<lparr> ip_protocol := 6 \<rparr>"

definition sample_tcphdr :: tcphdr where
  "sample_tcphdr =
     \<lparr> tcp_source = 0x9210, tcp_dest = 0x5000, tcp_seq = 1, tcp_ack_seq = 0, tcp_res1 = 0, tcp_doff = 5,
       tcp_flags = 2, tcp_window = 0, tcp_check = 0, tcp_urg_ptr = 0 \<rparr>"

definition sample_chunk :: "byte list" where
  "sample_chunk = iphdr_bytes sample_tcp_iphdr @ tcphdr_bytes sample_tcphdr @ [1, 2, 3]"

lemma tcp_packet_sample: "tcp_packet sample_tcp_iphdr sample_tcphdr sample_chunk"
  by (auto simp: tcp_packet_def sample_chunk_def)
     (simp_all add: sample_tcp_iphdr_def sample_iphdr_def sample_tcphdr_def)

lemma sample_proxy_state:
  "chain_table (chains (base sample_proxy))" "roulette (base sample_proxy) \<noteq> None"
  "connections (base sample_proxy) key = None" "calls sample_proxy = []"
  "tables_ordered {key} (base sample_proxy)"
  using tables_ordered_sample [OF comparable_singleton, of key]
  by (simp_all add: sample_proxy_def) (simp_all add: sample_endpoint_def new_endpoint_def
      set_my_ip_def c_str_def)


theorem tcp_no_route_abandons_witness:
  "\<exists>t. manage_entering_tcp_packets (sample_os [sample_addrinfo]) (answering_libs []) 5 zero_sockaddr
      (replicate 65536 0) [Data sample_chunk, End_of_stream] sample_proxy = (Inr Stopped, t) \<and>
    calls t = [] \<and> connections (base t) \<noteq> (\<lambda>_. None)"
  using tcp_no_route_abandons [OF tcp_packet_sample network_up_sample shapes_ok_answering
      sample_proxy_state(1,2) service_up_no_route comparable_singleton
      sample_proxy_state(5) singletonI sample_proxy_state(3), of 5
      zero_sockaddr "replicate 65536 0" "[End_of_stream]"] sample_proxy_state(4) by fastforce

section \<open>Packets of no connection\<close>

text \<open>
  C29: A packet from the chain, UDP or TCP, whose headers can be read and whose payload lies in the
  buffer, and whose connection the look-up does not find, ends the whole process: the look-up gives
  descriptor -1, on which the system refuses to send, and the handler exits on the refusal. Before
  that it has made two calls, the acknowledgement of the packet and the refused send of the payload,
  and it has left the tables as they were.
\<close>
theorem unknown_chain_packet_exits:
  assumes "retrieve_header (ua_pkt args) = Inr h"
    and "retrieve_ip_header (drop header_size (ua_pkt args)) = Inr iph"
    and "prt = (if ip_protocol iph = 6 then TCP else UDP)"
    and "(if prt = TCP then tcp_packet_header_size else udp_packet_header_size)
      (drop header_size (ua_pkt args)) = Inr n"
    and "payload_bytes (ua_pkt args) (ua_pkt_len args) (header_size + n) = Inr payload"
    and "retrieve_connection_2 (chain_key h prt) (base s) = no_connection"
    and "\<And>t b d. os_ret os t (Sendto (- 1) b d) = - 1" "\<And>t b. os_ret os t (Send (- 1) b) = - 1"
  shows "\<exists>a. manage_pkt_from_chain os L args s =
    (Inl (Exit_process 1), s \<lparr> calls := calls s @
      [(Sendto (ua_socket_fd args) ack (Ipv4 (ua_client_address args)), a),
       (if prt = TCP then Send (- 1) payload
        else Sendto (- 1) payload (Ipv4 (snd no_connection)), - 1)] \<rparr>)"
  using assms by (cases "prt = TCP")
    (simp_all add: manage_pkt_from_chain_def bind_action_def Let_def no_connection_def split: if_splits, blast+)

theorem unknown_chain_packet_exits_witness:
  "\<exists>os args t args' t'. manage_pkt_from_chain os (answering_libs []) args sample_proxy = (Inl (Exit_process 1), t) \<and>
     last (calls t) = (Sendto (- 1) [1] (Ipv4 (snd no_connection)), - 1) \<and>
     manage_pkt_from_chain os (answering_libs []) args' sample_proxy = (Inl (Exit_process 1), t') \<and>
     last (calls t') = (Send (- 1) [1], - 1)"
proof -
  let ?os = "\<lparr> os_ret = (\<lambda>_ _. - 1), os_resolved = (\<lambda>_. []) \<rparr>"
  let ?h = "create_header 0 0 ''10.0.0.1'' 1 ''10.0.0.2'' 2 3 1"
  let ?udp = "\<lparr> ua_socket_fd = 5, ua_client_address = zero_sockaddr,
    ua_pkt = sfc_header_bytes ?h @ iphdr_bytes sample_iphdr @ udphdr_bytes sample_udphdr @ [1] @ [],
    ua_pkt_len = 53 \<rparr>"
  let ?tcp = "\<lparr> ua_socket_fd = 5, ua_client_address = zero_sockaddr,
    ua_pkt = sfc_header_bytes ?h @ iphdr_bytes sample_tcp_iphdr @ tcphdr_bytes sample_tcphdr @ [1],
    ua_pkt_len = 65 \<rparr>"
  have none: "retrieve_connection_2 (chain_key ?h prt) (base sample_proxy) = no_connection" for prt
    by (simp add: retrieve_connection_2_def sample_proxy_def sample_endpoint_def new_endpoint_def
        set_my_ip_def c_str_def map_find_def)
  have os: "os_ret ?os t (Sendto (- 1) b d) = - 1" "os_ret ?os t (Send (- 1) b) = - 1" for t b d
    by simp_all
  have "chain_udp_packet ?h [1] ?udp"
    unfolding chain_udp_packet_def
    by (intro exI [of _ sample_iphdr] exI [of _ sample_udphdr] exI [of _ "[]"])
       (simp add: sample_iphdr_def)
  then obtain iph where udp: "retrieve_header (ua_pkt ?udp) = Inr ?h"
    "retrieve_ip_header (drop header_size (ua_pkt ?udp)) = Inr iph" "ip_protocol iph \<noteq> 6"
    "udp_packet_header_size (drop header_size (ua_pkt ?udp)) = Inr 28"
    "payload_bytes (ua_pkt ?udp) (ua_pkt_len ?udp) (header_size + 28) = Inr [1]"
    by (rule chain_udp_packet_reads)
  have ihl: "ip_ihl sample_tcp_iphdr = 5" "ip_protocol sample_tcp_iphdr = 6"
    "unat (tcp_doff sample_tcphdr) = 5"
    by (simp_all add: sample_tcp_iphdr_def sample_iphdr_def sample_tcphdr_def)
  have inner: "drop header_size (ua_pkt ?tcp) =
      iphdr_bytes sample_tcp_iphdr @ [] @ tcphdr_bytes sample_tcphdr @ [1]"
    by (simp add: header_size_def)
  have tcp: "retrieve_header (ua_pkt ?tcp) = Inr ?h" by (simp add: retrieve_header_value)
  have ip: "retrieve_ip_header (drop header_size (ua_pkt ?tcp)) = Inr sample_tcp_iphdr"
    unfolding inner by (rule retrieve_ip_header_layout [OF ihl(1)])
  have size: "tcp_packet_header_size (drop header_size (ua_pkt ?tcp)) = Inr 40"
    unfolding inner using tcp_packet_header_size_layout [of sample_tcp_iphdr "[]" sample_tcphdr "[1]"]
    by (simp add: ihl)
  have bytes: "payload_bytes (ua_pkt ?tcp) (ua_pkt_len ?tcp) (header_size + 40) = Inr [1]"
    by (simp add: payload_bytes_def read_bytes_def header_size_def)
  have prt: "UDP = (if ip_protocol iph = 6 then TCP else UDP)"
    "TCP = (if ip_protocol sample_tcp_iphdr = 6 then TCP else UDP)" using udp(3) ihl(2) by simp_all
  have hs: "(if UDP = TCP then tcp_packet_header_size else udp_packet_header_size)
      (drop header_size (ua_pkt ?udp)) = Inr 28"
    "(if TCP = TCP then tcp_packet_header_size else udp_packet_header_size)
      (drop header_size (ua_pkt ?tcp)) = Inr 40"
    using udp(4) size by (simp_all only: if_True if_False refl protocol_type.distinct)
  have 1: "\<exists>a. manage_pkt_from_chain ?os (answering_libs []) ?udp sample_proxy =
    (Inl (Exit_process 1), sample_proxy \<lparr> calls := calls sample_proxy @
      [(Sendto 5 ack (Ipv4 zero_sockaddr), a), (Sendto (- 1) [1] (Ipv4 (snd no_connection)), - 1)] \<rparr>)"
    using unknown_chain_packet_exits [OF udp(1,2) prt(1) hs(1) udp(5) none os] by simp
  have 2: "\<exists>a. manage_pkt_from_chain ?os (answering_libs []) ?tcp sample_proxy =
    (Inl (Exit_process 1), sample_proxy \<lparr> calls := calls sample_proxy @
      [(Sendto 5 ack (Ipv4 zero_sockaddr), a), (Send (- 1) [1], - 1)] \<rparr>)"
    using unknown_chain_packet_exits [OF tcp ip prt(2) hs(2) bytes none os] by simp
  from 1 2 show ?thesis by fastforce
qed

end
