(* ===== verification/Egress_Facts.thy ===== *)
theory Egress_Facts
  imports Egress Ingress_Streams
begin

text \<open>
  What the handlers of Egress do: a datagram of the chain is forged again and sent to the destination
  of its header, an answer goes back into the chain behind a header of the same connection, and so
  through Ingress to the client that asked; what a TCP payload loses, which packets fault, and which
  descriptors stay open.
\<close>

section \<open>Packets of the chain\<close>

text \<open>A packet behind a header of the chain, in the buffer of a handler.\<close>

definition chain_packet :: "sfc_header \<Rightarrow> byte list \<Rightarrow> udp_pkt_mngmnt_args \<Rightarrow> bool" where
  "chain_packet h inner args \<longleftrightarrow>
     take (24 + length inner) (ua_pkt args) = sfc_header_bytes h @ inner \<and>
     ua_pkt_len args = 24 + length inner \<and> length (ua_pkt args) < 2 ^ 63"

lemma chain_packet_buffer:
  assumes "chain_packet h inner args"
  shows "ua_pkt args = sfc_header_bytes h @ inner @ drop (24 + length inner) (ua_pkt args)"
proof -
  have t: "take (24 + length inner) (ua_pkt args) = sfc_header_bytes h @ inner"
    using assms unfolding chain_packet_def by blast
  have "ua_pkt args = take (24 + length inner) (ua_pkt args) @ drop (24 + length inner) (ua_pkt args)"
    by (rule append_take_drop_id [symmetric])
  then show ?thesis unfolding t by simp
qed

lemma chain_packet_udp:
  assumes "chain_packet h (iphdr_bytes iph @ udphdr_bytes udph @ payload) args" "ip_ihl iph = 5"
    "ip_protocol iph \<noteq> 6"
  shows "chain_udp_packet h payload args"
proof -
  have "ua_pkt_len args = 52 + length payload" "length (ua_pkt args) < 2 ^ 63"
    using assms(1) by (simp_all add: chain_packet_def)
  then show ?thesis
    unfolding chain_udp_packet_def using chain_packet_buffer [OF assms(1)] assms(2,3)
    by (intro exI [of _ iph] exI [of _ udph] exI conjI) (assumption | simp)+
qed

section \<open>Answers\<close>

definition reply_header :: "sfc_header \<Rightarrow> address list \<Rightarrow> sfc_header" where
  "reply_header header path =
     create_header 0 0 (int_to_ip (sfc_source_address header)) (sfc_source_port header)
       (int_to_ip (sfc_destination_address header)) (sfc_destination_port header)
       (of_nat (length path + 2)) 1"

lemma reply_header_connection:
  "sfc_p_id header = 0 \<Longrightarrow> same_connection header (reply_header header path)"
  by (simp add: same_connection_def reply_header_def create_header_def ip_text.read_print)

lemma reply_header_direction: "sfc_direction_flag (reply_header header path) = 1"
  by (simp add: reply_header_def create_header_def)

text \<open>One answer of the destination: it is classified, routed, and sent behind its header.\<close>

lemma answer_steps:
  assumes "classified bs" "network_up os" "shapes_ok L" "chain_table (chains (base s))"
    "roulette (base s) \<noteq> None" "service_up L path"
  obtains b t where
    "classify L (receive_into bs buf) (length bs) (base s) = (Inr ''0'', b)"
    "fst (route_of_chain L ''0'' b) = Inr path"
    "send_reply os ''0'' header path (receive_into bs buf) (length bs)
      (s \<lparr> base := snd (route_of_chain L ''0'' b) \<rparr>) = (Inr (), t)"
    "delivered (calls t) = delivered (calls s) @ [sfc_header_bytes (reply_header header path) @ bs]"
    "base t = snd (route_of_chain L ''0'' b)" "connections (base t) = connections (base s)"
proof -
  obtain c where c: "classify L (receive_into bs buf) (length bs) (base s) =
      (Inr ''0'', base s \<lparr> chains := c \<rparr>)"
    by (rule classify_received [OF assms(1,4,3)])
  let ?b = "base s \<lparr> chains := c \<rparr>"
  have route: "fst (route_of_chain L ''0'' ?b) = Inr path"
    using assms(5,6) by (simp add: service_up_def)
  let ?s = "s \<lparr> base := snd (route_of_chain L ''0'' ?b) \<rparr>"
  have take: "take (length bs) (receive_into bs buf) = bs" "length bs \<le> length (receive_into bs buf)"
    by (simp_all add: receive_into_def)
  obtain u where u: "send_into_chain os ''0'' (sfc_source_address header) (sfc_source_port header)
      (sfc_destination_address header) (sfc_destination_port header) 1 path (receive_into bs buf)
      (length bs) ?s = (Inr (), ?s \<lparr> calls := u \<rparr>)"
    "delivered u = delivered (calls s) @ [sfc_header_bytes (reply_header header path) @ bs]"
    using send_into_chain_up [OF assms(2) _ take(2), of 0 "sfc_source_address header"
        "sfc_source_port header" "sfc_destination_address header" "sfc_destination_port header" 1
        path ?s] take(1) by (auto simp: to_string_0 reply_header_def)
  have "connections ?b = connections (base s)" by (simp add: connections_def)
  then show thesis
    using c route u by (intro that [of ?b "?s \<lparr> calls := u \<rparr>"]) (simp_all add: send_reply_def)
qed

text \<open>The two loops do the same with an answer that fits the buffer and has a path.\<close>

lemma answer_forwarded:
  assumes "classified bs" "length bs < buffer_size" "network_up os" "shapes_ok L"
    "chain_table (chains (base s))" "roulette (base s) \<noteq> None" "service_up L path" "path \<noteq> []"
  obtains t where "udp_reply_loop os L header buf (Data bs # rs) s = (Inr Reply_stopped, t)"
    "tcp_reply_loop os L header buf (Data bs # rs) s = (Inr Reply_stopped, t)"
    "delivered (calls t) = delivered (calls s) @ [sfc_header_bytes (reply_header header path) @ bs]"
    "connections (base t) = connections (base s)"
proof -
  obtain b t where st: "classify L (receive_into bs buf) (length bs) (base s) = (Inr ''0'', b)"
    "fst (route_of_chain L ''0'' b) = Inr path"
    "send_reply os ''0'' header path (receive_into bs buf) (length bs)
      (s \<lparr> base := snd (route_of_chain L ''0'' b) \<rparr>) = (Inr (), t)"
    "delivered (calls t) = delivered (calls s) @ [sfc_header_bytes (reply_header header path) @ bs]"
    "base t = snd (route_of_chain L ''0'' b)" "connections (base t) = connections (base s)"
    by (rule answer_steps [OF assms(1,3-7)])
  show thesis
    using st assms(2,8) by (intro that [of t]) (simp_all add: bind_action_def)
qed

section \<open>A datagram leaves the chain\<close>

text \<open>The service takes every update of the entry of a key.\<close>

definition updates_taken :: "'j libs \<Rightarrow> connection_entry \<Rightarrow> bool" where
  "updates_taken L ce \<longleftrightarrow>
     (\<forall>b fd a e. roulette b \<noteq> None \<longrightarrow> fst (update_entry L ce fd a e b) = Inr ())"

lemma update_entry_frame:
  "roulette (snd (update_entry L ce fd a e b)) = roulette b"
  "chains (snd (update_entry L ce fd a e b)) = chains b"
proof -
  obtain r t where "with_roulette (\<lambda>x. update_endpoint (lib_json L) (lib_http L) x
      (update_query ce) (own_endpoint b fd e)) b = (r, t)" "roulette t = roulette b" "chains t = chains b"
    by (rule with_roulette_cases)
  then show "roulette (snd (update_entry L ce fd a e b)) = roulette b"
    "chains (snd (update_entry L ce fd a e b)) = chains b"
    by (cases r; auto simp: update_entry_def insert_connection_def bind_action_def)+
qed

text \<open>The datagram that Egress sends for a payload: what a receiver reads in it.\<close>

definition leaving_datagram ::
    "byte list \<Rightarrow> u32 \<Rightarrow> u32 \<Rightarrow> u16 \<Rightarrow> u16 \<Rightarrow> byte list \<Rightarrow> bool" where
  "leaving_datagram d saddr daddr source dest payload \<longleftrightarrow>
     (\<exists>h u. retrieve_ip_udp_header d = Inr (h, u) \<and> ip_saddr h = saddr \<and> ip_daddr h = daddr \<and>
        ip_protocol h = 17 \<and> htons (udp_source u) = source \<and> htons (udp_dest u) = dest \<and>
        drop 28 d = strncpy_bytes payload (length payload))"

lemma forged_datagram:
  assumes "length stack = buffer_size" "length payload \<le> 65507"
  obtains d where "forge_ip_udp_pkt (payload @ rest) (of_nat (length payload)) sip dip sport dport stack
      = Inr d"
    "unat (ip_tot_len (iphdr_of_bytes d)) = 28 + length payload" "28 + length payload \<le> length d"
    "leaving_datagram (take (28 + length payload) d) (ip_to_int sip) (ip_to_int dip) sport dport payload"
proof -
  let ?n = "length payload"
  have n: "?n \<le> length (payload @ rest)" "?n \<le> 65508" using assms(2) by simp_all
  have copy: "strncpy_bytes (payload @ rest) ?n = strncpy_bytes payload ?n"
    using strncpy_bytes_take [of ?n "payload @ rest"] by simp
  obtain ipc udpc where d: "forge_ip_udp_pkt (payload @ rest) (of_nat ?n) sip dip sport dport stack =
      Inr (iphdr_bytes (forged_iphdr (of_nat ?n) sip dip ipc) @
        udphdr_bytes (forged_udphdr (of_nat ?n) sport dport udpc) @ forged_tail (payload @ rest) ?n stack)"
    using forge_layout [OF assms(1) n] by blast
  let ?ip = "forged_iphdr (of_nat ?n) sip dip ipc" and ?udp = "forged_udphdr (of_nat ?n) sport dport udpc"
  let ?d = "iphdr_bytes ?ip @ udphdr_bytes ?udp @ forged_tail (payload @ rest) ?n stack"
  have take: "take (28 + ?n) ?d = iphdr_bytes ?ip @ udphdr_bytes ?udp @ strncpy_bytes payload ?n"
    by (simp add: forged_tail_def copy)
  have leaving: "leaving_datagram (take (28 + ?n) ?d) (ip_to_int sip) (ip_to_int dip) sport dport payload"
    unfolding take leaving_datagram_def
    by (intro exI conjI, rule retrieve_ip_udp_header_layout)
       (simp_all add: forged_iphdr_def forged_udphdr_def ipproto_udp_def ip_to_int_def)
  have "unat (ip_tot_len ?ip) = 28 + ?n"
    using assms(2) by (simp add: forged_iphdr_def forged_lengths)
  then have tot: "unat (ip_tot_len (iphdr_of_bytes ?d)) = 28 + ?n" by simp
  have "28 + ?n \<le> length ?d"
    using length_forged_tail [OF assms(1) n(2), of "payload @ rest"] n(2) by simp
  from that [OF d tot this leaving] show thesis .
qed

lemma exiting_udp_up:
  assumes "chain_packet h (iphdr_bytes iph @ udphdr_bytes udph @ payload) args" "ip_ihl iph = 5"
    and "length payload \<le> 65507" "length stack = buffer_size"
    and "network_up os" "updates_taken L ce" "roulette (base s) \<noteq> None"
  obtains d fd u where
    "manage_exiting_udp_packets os L (ua_pkt args) (ua_pkt_len args) ce stack buf rs s =
       udp_reply_loop os L h buf rs u"
    "delivered (calls u) = delivered (calls s) @ [d]"
    "leaving_datagram d (ip_to_int (my_ip (base s))) (ip_to_int (ce_ip_dst ce))
       (ext_port (base s)) (ce_port_dst ce) payload"
    "base u = snd (update_entry L ce fd \<lparr> sin_port = htons (sfc_destination_port h),
       sin_addr = sfc_destination_address h \<rparr> EGRESS_T (base s))"
proof -
  let ?rest = "drop (52 + length payload) (ua_pkt args)"
  have pkt: "ua_pkt args = sfc_header_bytes h @ iphdr_bytes iph @ udphdr_bytes udph @ payload @ ?rest"
    using chain_packet_buffer [OF assms(1)] by simp
  have hdr: "retrieve_header (ua_pkt args) = Inr h" by (subst pkt) (rule retrieve_header_value)
  have "drop header_size (ua_pkt args) = iphdr_bytes iph @ udphdr_bytes udph @ payload @ ?rest"
    by (subst pkt) (simp add: header_size_def)
  then have size: "udp_packet_header_size (drop header_size (ua_pkt args)) = Inr 28"
    by (simp add: udp_packet_header_size_layout assms(2))
  have data: "drop (header_size + 28) (ua_pkt args) = payload @ ?rest"
    by (subst pkt) (simp add: header_size_def)
  have "ua_pkt_len args = 52 + length payload" using assms(1) by (simp add: chain_packet_def)
  then have len: "size_minus (ua_pkt_len args) (header_size + 28) = of_nat (length payload)"
    by (simp add: size_minus_def header_size_def)
  obtain d where d: "forge_ip_udp_pkt (payload @ ?rest) (of_nat (length payload)) (my_ip (base s))
      (ce_ip_dst ce) (ext_port (base s)) (ce_port_dst ce) stack = Inr d"
    "unat (ip_tot_len (iphdr_of_bytes d)) = 28 + length payload" "28 + length payload \<le> length d"
    "leaving_datagram (take (28 + length payload) d) (ip_to_int (my_ip (base s)))
      (ip_to_int (ce_ip_dst ce)) (ext_port (base s)) (ce_port_dst ce) payload"
    by (rule forged_datagram [OF assms(4,3)])
  let ?d = "take (28 + length payload) d"
  have read: "read_bytes d 0 (28 + length payload) = Inr ?d" "?d \<noteq> []"
    using d(3) by (auto simp: read_bytes_def)
  note up = network_upD [OF assms(5)]
  have pos: "os_ret os t (Socket f ty pr) \<noteq> - 1" for t f ty pr using up(3) [of t f ty pr] by simp
  have sent: "\<not> os_ret os t (Sendto fd ?d a) < 0" "0 < os_ret os t (Sendto fd ?d a)" for t fd a
    using up(5) [OF read(2), of t fd a] by simp_all
  have upd: "fst (update_entry L ce fd a EGRESS_T (base s)) = Inr ()" for fd a
    using assms(6,7) by (simp add: updates_taken_def)
  let ?open = "\<lambda>t p. os_ret os t (Socket AF_INET SOCK_RAW p)"
  let ?t1 = "calls s @ [(Socket AF_INET SOCK_RAW IPPROTO_RAW, ?open (calls s) IPPROTO_RAW)]"
  let ?t2 = "?t1 @ [(Socket AF_INET SOCK_RAW IPPROTO_UDP, ?open ?t1 IPPROTO_UDP)]"
  let ?bind = "Bind (?open ?t1 IPPROTO_UDP) \<lparr> sin_port = htons (ext_port (base s)),
    sin_addr = inet_addr (my_ip (base s)) \<rparr>"
  let ?t3 = "?t2 @ [(?bind, os_ret os ?t2 ?bind)]"
  let ?server = "\<lparr> sin_port = htons (sfc_destination_port h), sin_addr = sfc_destination_address h \<rparr>"
  let ?send = "Sendto (?open (calls s) IPPROTO_RAW) ?d (Ipv4 ?server)"
  let ?u = "s \<lparr> calls := ?t3 @ [(?send, os_ret os ?t3 ?send)],
    base := snd (update_entry L ce (?open (calls s) IPPROTO_RAW) ?server EGRESS_T (base s)) \<rparr>"
  have "manage_exiting_udp_packets os L (ua_pkt args) (ua_pkt_len args) ce stack buf rs s =
      udp_reply_loop os L h buf rs ?u"
    by (simp add: manage_exiting_udp_steps bind_action_def hdr size data len d(1,2) read(1)
         exit_if_def pos up(6) sent upd get_my_ip_def Let_def)
  then show thesis using d(4) sent(2) by (intro that [of ?u ?d]) simp_all
qed

text \<open>The task that the handler of a chain packet starts for a UDP packet.\<close>

lemma exit_task_udp:
  assumes "chain_packet h (iphdr_bytes iph @ udphdr_bytes udph @ payload) args"
    "ip_ihl iph = 5" "ip_protocol iph \<noteq> 6"
  shows "egress_pkt_from_chain os args s =
    (Inr \<lparr> task_prt = UDP,
       task_args = args \<lparr> ua_socket_fd := fst (retrieve_connection_2 (chain_key h UDP) (base s)) \<rparr>,
       task_ce = chain_key h UDP \<rparr>,
     s \<lparr> calls := calls s @ [(Sendto (ua_socket_fd args) ack (Ipv4 (ua_client_address args)),
       os_ret os (calls s) (Sendto (ua_socket_fd args) ack (Ipv4 (ua_client_address args))))] \<rparr>)"
proof -
  note pkt = chain_packet_buffer [OF assms(1)]
  have "retrieve_header (ua_pkt args) = Inr h" by (subst pkt) (rule retrieve_header_value)
  moreover have "retrieve_ip_udp_header (drop header_size (ua_pkt args)) = Inr (iph, udph)"
    by (subst pkt) (simp add: header_size_def retrieve_ip_udp_header_layout assms(2))
  ultimately show ?thesis
    using assms(3) by (simp add: egress_pkt_from_chain_def bind_action_def Let_def)
qed

section \<open>A TCP payload leaves the chain\<close>

text \<open>
  A TCP payload is copied with strncpy, then sent on the socket of the connection, or on a new one
  when there is none.
\<close>

lemma exiting_tcp:
  assumes "chain_packet h (iphdr_bytes iph @ tcphdr_bytes tcph @ payload) args"
    "ip_ihl iph = 5" "tcp_doff tcph = 5"
  shows "manage_exiting_tcp_packets os L pton (ua_pkt args) (ua_pkt_len args) ce fd stack rs s =
    bind_action (if fd = - 1
      then bind_action (on_sys (connect_to_server os pton (int_to_ip (sfc_destination_address h))
             (htons (sfc_destination_port h)))) (\<lambda>client.
           bind_action (on_base (update_entry L ce (access_to_socket client)
             (access_to_sockaddr_in client) EGRESS_T)) (\<lambda>_.
           return_action (access_to_socket client)))
      else return_action fd) (\<lambda>sock.
    bind_action (on_sys (sys_do os (Send sock (strncpy_bytes payload (length payload))))) (\<lambda>_.
    tcp_reply_loop os L h stack rs)) s"
proof -
  let ?n = "length payload" and ?rest = "drop (64 + length payload) (ua_pkt args)"
  have pkt: "ua_pkt args = sfc_header_bytes h @ iphdr_bytes iph @ tcphdr_bytes tcph @ payload @ ?rest"
    using chain_packet_buffer [OF assms(1)] by simp
  have hdr: "retrieve_header (ua_pkt args) = Inr h" by (subst pkt) (rule retrieve_header_value)
  have "drop header_size (ua_pkt args) = iphdr_bytes iph @ [] @ tcphdr_bytes tcph @ payload @ ?rest"
    by (subst pkt) (simp add: header_size_def)
  then have size: "tcp_packet_header_size (drop header_size (ua_pkt args)) = Inr 40"
    using tcp_packet_header_size_layout [of iph "[]" tcph] assms(2,3) by simp
  have data: "drop (header_size + 40) (ua_pkt args) = payload @ ?rest"
    by (subst pkt) (simp add: header_size_def)
  have total: "ua_pkt_len args = 64 + ?n" "length (ua_pkt args) < 2 ^ 63"
    using assms(1) by (simp_all add: chain_packet_def)
  have long: "64 + ?n \<le> length (ua_pkt args)" by (subst pkt) simp
  have len: "unat (size_minus (ua_pkt_len args) (header_size + 40)) = ?n"
    using total long by (simp add: size_minus_def header_size_def unat_of_nat)
  have copy: "strncpy (replicate ?n 0) 0 (ua_pkt args) (header_size + 40) ?n =
      Inr (strncpy_bytes payload ?n)"
    using long strncpy_bytes_take [of ?n "payload @ ?rest"]
    by (simp add: strncpy_def data write_bytes_def Let_def) (auto simp: header_size_def)
  have small: "\<not> 2 ^ 63 \<le> ?n" using total(2) long by simp
  have lift: "bind_action (lift_result (Inr x)) k = k x" for x and k :: "'x \<Rightarrow> ('y, 'z) action"
    by (simp add: bind_action_def fun_eq_iff)
  show ?thesis
    unfolding manage_exiting_tcp_steps hdr size lift Let_def len if_not_P [OF small] copy
    by (rule refl)
qed

text \<open>The length of a packet shorter than its headers wraps to nearly the whole range.\<close>

lemma size_minus_wraps:
  assumes "pkt_len < m" "m \<le> 2 ^ 62"
  shows "2 ^ 63 \<le> unat (size_minus pkt_len m)"
proof -
  let ?k = "m - pkt_len"
  have "(of_nat (2 ^ 64 - ?k) :: u64) = of_nat (2 ^ 64) - of_nat ?k"
    using assms by (intro of_nat_diff) simp
  also have "\<dots> = size_minus pkt_len m"
    using assms(1) by (simp add: size_minus_def of_nat_diff)
  finally have eq: "size_minus pkt_len m = of_nat (2 ^ 64 - ?k)" by (rule sym)
  have "unat (of_nat j :: u64) = j" if "j < 2 ^ 64" for j using that by (simp add: unat_of_nat)
  then have "unat (of_nat (2 ^ 64 - ?k) :: u64) = 2 ^ 64 - ?k" using assms(1) by (simp del: of_nat_diff)
  then show ?thesis using assms unfolding eq by simp
qed

lemma tcp_packet_header_size_bounds: "tcp_packet_header_size pkt = Inr n \<Longrightarrow> n \<le> 120"
proof -
  assume "tcp_packet_header_size pkt = Inr n"
  then obtain v w :: "4 word" where "n = unat v * 4 + unat w * 4"
    by (auto simp: tcp_packet_header_size_def bind_result_eq_Inr header_lengths Let_def)
  then show ?thesis using unat_nibble_less [of v] unat_nibble_less [of w] by simp
qed

lemma forge_wrapped_length:
  assumes "length stack = buffer_size" "2 ^ 63 \<le> unat n" "length pkt < 2 ^ 63"
  shows "\<exists>u. forge_ip_udp_pkt pkt n sip dip sport dport stack = Inl (Undefined u)"
proof -
  have "memset_zero stack 4096 = Inr (replicate 4096 0 @ drop 4096 stack)"
    by (rule forge_prefix(1) [OF assms(1), of 0 "[]"]) simp_all
  moreover have "\<exists>u. strncpy (replicate 4096 0 @ drop 4096 stack) (20 + 8) pkt 0 (unat n) =
      Inl (Undefined u)"
    using assms by (auto simp: strncpy_def write_bytes_def buffer_size_def)
  ultimately show ?thesis by (auto simp: forge_ip_udp_pkt_def)
qed

text \<open>
  C28: A packet from the chain that is shorter than the headers it claims: the length of the payload
  wraps around. For TCP the vector's constructor throws in a thread where nothing catches, for UDP
  the forging runs over its buffers. The chain header and the size of the headers can be read here,
  and the raw socket could be opened.
\<close>
theorem exit_short_packet:
  assumes "retrieve_header pkt = Inr h" "length pkt < 2 ^ 63" "length stack = buffer_size"
    and "pkt_len < header_size + n"
    and "os_ret os (calls s) (Socket AF_INET SOCK_RAW IPPROTO_RAW) \<noteq> - 1"
  shows "(tcp_packet_header_size (drop header_size pkt) = Inr n \<longrightarrow>
      manage_exiting_tcp_packets os L pton pkt pkt_len ce fd stack rs s = (Inl (Throw Length_error), s)) \<and>
    (udp_packet_header_size (drop header_size pkt) = Inr n \<longrightarrow>
      (\<exists>u. fst (manage_exiting_udp_packets os L pkt pkt_len ce stack buf rs s) = Inl (Undefined u)))"
proof (intro conjI impI)
  assume n: "tcp_packet_header_size (drop header_size pkt) = Inr n"
  have "2 ^ 63 \<le> unat (size_minus pkt_len (header_size + n))"
    by (rule size_minus_wraps [OF assms(4)])
       (use tcp_packet_header_size_bounds [OF n] in \<open>simp add: header_size_def\<close>)
  then show "manage_exiting_tcp_packets os L pton pkt pkt_len ce fd stack rs s =
      (Inl (Throw Length_error), s)"
    by (simp add: manage_exiting_tcp_steps bind_action_def assms(1) n Let_def)
next
  assume n: "udp_packet_header_size (drop header_size pkt) = Inr n"
  have big: "2 ^ 63 \<le> unat (size_minus pkt_len (header_size + n))"
    by (rule size_minus_wraps [OF assms(4)])
       (use udp_packet_header_size_bounds [OF n] in \<open>simp add: header_size_def\<close>)
  have "length (drop (header_size + n) pkt) < 2 ^ 63" using assms(2) by simp
  from forge_wrapped_length [OF assms(3) big this] obtain u where "forge_ip_udp_pkt
      (drop (header_size + n) pkt) (size_minus pkt_len (header_size + n)) (my_ip (base s))
      (ce_ip_dst ce) (ext_port (base s)) (ce_port_dst ce) stack = Inl (Undefined u)" by blast
  then show "\<exists>u. fst (manage_exiting_udp_packets os L pkt pkt_len ce stack buf rs s) =
      Inl (Undefined u)"
    using assms(5)
    by (simp add: manage_exiting_udp_steps bind_action_def assms(1) n exit_if_def get_my_ip_def)
qed

section \<open>A service to try it on\<close>

lemma segment_int_to_ip: "segment (int_to_ip a)"
proof -
  have "\<not> is_digit CHR 0x00" "\<not> is_digit CHR ''/''" by (simp_all add: is_digit_def char_code_def)
  then show ?thesis by (simp add: segment_def int_to_ip_def inet_ntoa_def to_string_no_char)
qed

lemma updates_taken_answering:
  "updates_taken (answering_libs si) (entering_key saddr daddr source dest ''0'' prt)"
proof -
  let ?L = "answering_libs si" and ?ce = "entering_key saddr daddr source dest ''0'' prt"
  have q: "plain_query (update_query ?ce)" "q_endpoints (update_query ?ce) = []"
    "q_type (update_query ?ce) = Some INGRESS_T"
    using segment_int_to_ip
    by (simp_all add: update_query_def plain_query_def build_query_fields set_protocol_def set_port_dst_def
        set_port_src_def set_ip_dst_def set_ip_src_def set_id_sfc_def set_endpoint_type_def
        new_builder_def entering_key_def new_entry_def) (simp add: segment_def)
  obtain path where path: "to_url (update_query ?ce) = Inr path"
    using to_url_segments [OF q(1)] q(2,3) by simp
  have url: "\<exists>u. service_url r [path] = Inr u" for r
    by (simp add: service_url_def add_path_def add_path_c_def set_address_def new_url_builder_def)
  note libs = answering_libs_def sample_libs_def sample_json_def sample_reply_def
    handle_req_def is_op_ok_def REPLY_RESULT_def REPLY_OK_def
  have "fst (update_entry ?L ?ce fd a e b) = Inr ()" if "roulette b = Some r" for fd a e b r
  proof -
    obtain u where "service_url r [path] = Inr u" using url by blast
    then show ?thesis
      using that path by (simp add: update_entry_def insert_connection_def with_roulette_def
          update_endpoint_def curl_req_handle_apply perform_request_def slist_append_def
          bind_action_def libs Let_def)
  qed
  then show ?thesis by (auto simp: updates_taken_def)
qed

theorem exit_short_packet_witness:
  "manage_exiting_tcp_packets (sample_os []) (answering_libs []) (\<lambda>_. 0)
    (sfc_header_bytes (entering_header sample_tcp_iphdr 1 2 []) @ iphdr_bytes sample_tcp_iphdr @
     tcphdr_bytes sample_tcphdr) 30 sample_key 7 (replicate buffer_size 0) [] sample_proxy =
    (Inl (Throw Length_error), sample_proxy)"
proof -
  let ?pkt = "sfc_header_bytes (entering_header sample_tcp_iphdr 1 2 []) @
    iphdr_bytes sample_tcp_iphdr @ tcphdr_bytes sample_tcphdr"
  have hdr: "retrieve_header ?pkt = Inr (entering_header sample_tcp_iphdr 1 2 [])"
    by (rule retrieve_header_value)
  have "tcp_packet_header_size (drop header_size ?pkt) = Inr 40"
    using tcp_packet_header_size_layout [of sample_tcp_iphdr "[]" sample_tcphdr "[]"]
    by (simp add: header_size_def sample_tcp_iphdr_def sample_iphdr_def sample_tcphdr_def)
  moreover have "os_ret (sample_os []) (calls sample_proxy) (Socket AF_INET SOCK_RAW IPPROTO_RAW) \<noteq> - 1"
    by (simp add: sample_os_def)
  moreover have "length ?pkt < 2 ^ 63" "length (replicate buffer_size (0 :: byte)) = buffer_size"
    "30 < header_size + 40" by (simp_all add: header_size_def)
  ultimately show ?thesis using exit_short_packet [OF hdr] by blast
qed

end
