(* ===== verification/Round_Trip.thy ===== *)
theory Round_Trip
  imports Egress_Facts
begin

text \<open>
  The two proxies together: a datagram that enters at Ingress, passes the chain and leaves at Egress,
  and the answer on its way back. Each proxy has its own system and its own libraries.
\<close>

text \<open>What Egress does with the datagram of a connection that Ingress made.\<close>

lemma egress_exchange:
  fixes udph dst
  assumes "chain_packet h (iphdr_bytes iph @ udphdr_bytes udph @ payload) args"
    "ip_ihl iph = 5" "ip_protocol iph = 17" "length payload \<le> 65507" "length stack = buffer_size"
    and "network_up os" "shapes_ok L" "service_up L path" "path \<noteq> []" "updates_taken L (chain_key h UDP)"
    and "roulette (base e) \<noteq> None" "chain_table (chains (base e))"
    and "classified reply" "length reply < buffer_size"
  shows "\<exists>task e1 e2 d. egress_pkt_from_chain os args e = (Inr task, e1) \<and>
    run_exit_task os L pton task stack buf [Data reply] e1 = (Inr Reply_stopped, e2) \<and>
    delivered (calls e2) = delivered (calls e) @
      [ack, d, sfc_header_bytes (reply_header h path) @ reply] \<and>
    leaving_datagram d (ip_to_int (my_ip (base e))) (sfc_destination_address h) (ext_port (base e))
      (htons (sfc_destination_port h)) payload"
proof -
  let ?ce = "chain_key h UDP"
  let ?task = "\<lparr> task_prt = UDP, task_args = args \<lparr> ua_socket_fd :=
    fst (retrieve_connection_2 ?ce (base e)) \<rparr>, task_ce = ?ce \<rparr>"
  let ?ack = "Sendto (ua_socket_fd args) ack (Ipv4 (ua_client_address args))"
  let ?e1 = "e \<lparr> calls := calls e @ [(?ack, os_ret os (calls e) ?ack)] \<rparr>"
  have task: "egress_pkt_from_chain os args e = (Inr ?task, ?e1)"
    using exit_task_udp [OF assms(1,2)] assms(3) by simp
  have acked: "delivered (calls ?e1) = delivered (calls e) @ [ack]"
    using network_upD(5) [OF assms(6), of ack] by (simp add: ack_def)
  have r1: "roulette (base ?e1) \<noteq> None" using assms(11) by simp
  obtain d fd u where u: "manage_exiting_udp_packets os L (ua_pkt args) (ua_pkt_len args) ?ce stack
      buf [Data reply] ?e1 = udp_reply_loop os L h buf [Data reply] u"
    "delivered (calls u) = delivered (calls ?e1) @ [d]"
    "leaving_datagram d (ip_to_int (my_ip (base ?e1))) (ip_to_int (ce_ip_dst ?ce))
       (ext_port (base ?e1)) (ce_port_dst ?ce) payload"
    "base u = snd (update_entry L ?ce fd \<lparr> sin_port = htons (sfc_destination_port h),
       sin_addr = sfc_destination_address h \<rparr> EGRESS_T (base ?e1))"
    by (rule exiting_udp_up [OF assms(1,2,4,5,6,10) r1])
  have b: "chain_table (chains (base u))" "roulette (base u) \<noteq> None"
    using assms(11,12) u(4) by (simp_all add: update_entry_frame)
  obtain t where t: "udp_reply_loop os L h buf [Data reply] u = (Inr Reply_stopped, t)"
    "delivered (calls t) = delivered (calls u) @ [sfc_header_bytes (reply_header h path) @ reply]"
    by (rule answer_forwarded [OF assms(13,14,6,7) b assms(8,9)])
  have "run_exit_task os L pton ?task stack buf [Data reply] ?e1 = (Inr Reply_stopped, t)"
    using u(1) t(1) by (simp add: run_exit_task_def)
  moreover have "ip_to_int (ce_ip_dst ?ce) = sfc_destination_address h"
    "ce_port_dst ?ce = htons (sfc_destination_port h)"
    by (simp_all add: chain_key_def new_entry_def ip_text.read_print)
  ultimately show ?thesis
    using task t(2) u(2,3) acked by (intro exI [of _ ?task] exI [of _ ?e1] exI [of _ t] exI [of _ d]) simp
qed

text \<open>A plain UDP datagram as bytes, and what the classifier makes of it.\<close>

definition udp_bytes :: "iphdr \<Rightarrow> udphdr \<Rightarrow> byte list \<Rightarrow> byte list" where
  "udp_bytes iph udph payload = iphdr_bytes iph @ udphdr_bytes udph @ payload"

lemma udp_bytes_classified:
  "ip_ihl iph = 5 \<Longrightarrow> ip_protocol iph = 17 \<Longrightarrow> classified (udp_bytes iph udph payload)"
  by (simp add: classified_def udp_bytes_def) (simp add: iphdr_bytes_def le16_def nth_append)

lemma entering_header_p_id: "sfc_p_id (entering_header iph source dest path) = 0"
  by (simp add: entering_header_def create_header_def)

lemma entering_header_destination:
  "sfc_destination_address (entering_header iph source dest path) = ip_daddr iph"
  "sfc_destination_port (entering_header iph source dest path) = dest"
  by (simp_all add: entering_header_def create_header_def ip_text.read_print)

lemma entering_header_direction: "sfc_direction_flag (entering_header iph source dest path) = 0"
  by (simp add: entering_header_def create_header_def)

text \<open>Egress on the header that Ingress made, and Ingress on the header that Egress made.\<close>

lemma egress_of_entering:
  fixes iph source dest path
  defines "h \<equiv> entering_header iph source dest path"
    and "key \<equiv> entering_key (ip_saddr iph) (ip_daddr iph) source dest ''0'' UDP"
  assumes "same_connection h h'" "chain_packet h' (udp_bytes iph udph payload) args"
    and "ip_ihl iph = 5" "ip_protocol iph = 17" "length payload \<le> 65507" "length stack = buffer_size"
    and "network_up os" "shapes_ok L" "service_up L path'" "path' \<noteq> []" "updates_taken L key"
    and "roulette (base e) \<noteq> None" "chain_table (chains (base e))"
    and "classified reply" "length reply < buffer_size"
  shows "\<exists>task e1 e2 d h2. egress_pkt_from_chain os args e = (Inr task, e1) \<and>
    run_exit_task os L pton task stack buf [Data reply] e1 = (Inr Reply_stopped, e2) \<and>
    delivered (calls e2) = delivered (calls e) @ [ack, d, sfc_header_bytes h2 @ reply] \<and>
    leaving_datagram d (ip_to_int (my_ip (base e))) (ip_daddr iph) (ext_port (base e)) (htons dest)
      payload \<and>
    sfc_direction_flag h2 = 1 \<and> (\<forall>h3. same_connection h2 h3 \<longrightarrow> chain_key h3 UDP = key)"
proof -
  have h': "sfc_destination_address h' = ip_daddr iph" "sfc_destination_port h' = dest" "sfc_p_id h' = 0"
    using assms(3) by (simp_all add: same_connection_def h_def entering_header_destination
      entering_header_p_id)
  have key: "chain_key h' UDP = key"
    using entering_header_key [of iph source dest path UDP] same_connection_key [OF assms(3)]
    by (simp add: h_def key_def)
  have "chain_key h3 UDP = key" if "same_connection (reply_header h' path') h3" for h3
    using same_connection_key [OF that] same_connection_key [OF reply_header_connection [OF h'(3)]] key
    by simp
  then show ?thesis
    using egress_exchange [OF assms(4) [unfolded udp_bytes_def] assms(5-12) _ assms(14-17)] assms(13)
      reply_header_direction unfolding h' key by blast
qed

lemma answer_home:
  assumes "network_up os" "shapes_ok L" "comparable K" "tables_ordered K (base t)" "key \<in> K"
    and "connections (base t) key = Some (fd, client)"
    and "ip_ihl rih = 5" "ip_protocol rih = 17" "answer \<noteq> []"
    and "chain_key h UDP = key" "chain_packet h (udp_bytes rih ruh answer) args"
  shows "(\<exists>a r. calls (snd (manage_pkt_from_chain os L args t)) = calls t @
      [(Sendto (ua_socket_fd args) ack (Ipv4 (ua_client_address args)), a),
       (Sendto fd answer (Ipv4 client), r)]) \<and>
    connections (base (snd (manage_pkt_from_chain os L args t))) = (connections (base t))(key := None)"
proof -
  have "ip_protocol rih \<noteq> 6" using assms(8) by simp
  with assms(11) have "chain_udp_packet h answer args"
    unfolding udp_bytes_def by (intro chain_packet_udp [OF _ assms(7)])
  from answer_to_client [OF assms(1-4) _ _ this assms(9)] show ?thesis
    using assms(5,6) unfolding assms(10) by blast
qed

text \<open>
  C1: A UDP exchange through both proxies. Ingress sends a client's new datagram into the chain
  behind a header with direction 0. When the chain hands it to Egress behind a header of the same
  connection, Egress acknowledges it, sends the destination a datagram of its own with the payload
  (as strncpy copies it) from its address and external port, and sends the answer into the chain
  behind a header with direction 1. When the chain hands that to Ingress, the payload of the answer
  goes once to the client that asked, and the connection is forgotten. Here the network and the
  route services of both proxies are up and know a path, the service of Egress takes its updates,
  the IP headers have no options, the connection is new to Ingress, and the keys in use there are
  comparable in an ordered table.
\<close>
theorem udp_round_trip:
  fixes iph udph args path
  defines "key \<equiv> entering_key (ip_saddr iph) (ip_daddr iph) (udp_source udph) (udp_dest udph) ''0'' UDP"
  assumes "udp_datagram iph udph payload args" "length payload \<le> 65507"
    and "network_up os" "shapes_ok L" "service_up L path" "path \<noteq> []"
    and "chain_table (chains (base s))" "roulette (base s) \<noteq> None"
    and "comparable K" "tables_ordered K (base s)" "key \<in> K" "connections (base s) key = None"
    and "network_up os'" "shapes_ok L'" "service_up L' path'" "path' \<noteq> []" "updates_taken L' key"
    and "chain_table (chains (base e))" "roulette (base e) \<noteq> None" "length stack = buffer_size"
    and "ip_ihl rih = 5" "ip_protocol rih = 17" "answer \<noteq> []"
    and "length (udp_bytes rih ruh answer) < buffer_size"
  shows "\<exists>t h. manage_entering_udp_packets os L args s = (Inr (), t) \<and>
    delivered (calls t) = delivered (calls s) @ [sfc_header_bytes h @ udp_bytes iph udph payload] \<and>
    sfc_direction_flag h = 0 \<and>
    (\<forall>h' args1. same_connection h h' \<and> chain_packet h' (udp_bytes iph udph payload) args1 \<longrightarrow>
     (\<exists>task e1 e2 d h2. egress_pkt_from_chain os' args1 e = (Inr task, e1) \<and>
        run_exit_task os' L' pton task stack buf [Data (udp_bytes rih ruh answer)] e1 =
          (Inr Reply_stopped, e2) \<and>
        delivered (calls e2) = delivered (calls e) @
          [ack, d, sfc_header_bytes h2 @ udp_bytes rih ruh answer] \<and>
        leaving_datagram d (ip_to_int (my_ip (base e))) (ip_daddr iph) (ext_port (base e))
          (htons (udp_dest udph)) payload \<and>
        sfc_direction_flag h2 = 1 \<and>
        (\<forall>h3 args2. same_connection h2 h3 \<and> chain_packet h3 (udp_bytes rih ruh answer) args2 \<longrightarrow>
         (\<exists>a r. calls (snd (manage_pkt_from_chain os L args2 t)) = calls t @
            [(Sendto (ua_socket_fd args2) ack (Ipv4 (ua_client_address args2)), a),
             (Sendto (ua_socket_fd args) answer (Ipv4 (ua_client_address args)), r)]) \<and>
         connections (base (snd (manage_pkt_from_chain os L args2 t))) = connections (base s))))"
proof -
  let ?h = "entering_header iph (udp_source udph) (udp_dest udph) path"
  let ?c = "(ua_socket_fd args, ua_client_address args)"
  obtain t where t: "manage_entering_udp_packets os L args s = (Inr (), t)"
    "delivered (calls t) = delivered (calls s) @ [sfc_header_bytes ?h @ udp_bytes iph udph payload]"
    "tables_ordered K (base t)" "connections (base t) = (connections (base s))(key \<mapsto> ?c)"
    using entering_udp_step [OF assms(2,4,5,8,9,6,7,10,11) assms(12,13) [unfolded key_def]]
    unfolding key_def udp_bytes_def by blast
  have plain: "ip_ihl iph = 5" "ip_protocol iph = 17" using assms(2) by (simp_all add: udp_datagram_def)
  have con: "connections (base t) key = Some ?c" using t(4) by simp
  have old: "(connections (base t))(key := None) = connections (base s)"
    using t(4) assms(13) by (simp add: fun_upd_idem)
  note home = answer_home [OF assms(4,5,10) t(3) assms(12) con assms(22-24), unfolded old]
  note out = egress_of_entering [OF _ _ plain assms(3,21,14-17) assms(18) [unfolded key_def]
      assms(20,19) udp_bytes_classified [OF assms(22,23), of ruh answer] assms(25), folded key_def]
  show ?thesis
  proof (intro exI [of _ t] exI [of _ ?h] conjI t(1,2) entering_header_direction allI impI; elim conjE)
    fix h' args1
    assume "same_connection ?h h'" "chain_packet h' (udp_bytes iph udph payload) args1"
    from out [OF this, where pton = pton and buf = buf]
    show "\<exists>task e1 e2 d h2. egress_pkt_from_chain os' args1 e = (Inr task, e1) \<and>
        run_exit_task os' L' pton task stack buf [Data (udp_bytes rih ruh answer)] e1 =
          (Inr Reply_stopped, e2) \<and>
        delivered (calls e2) = delivered (calls e) @
          [ack, d, sfc_header_bytes h2 @ udp_bytes rih ruh answer] \<and>
        leaving_datagram d (ip_to_int (my_ip (base e))) (ip_daddr iph) (ext_port (base e))
          (htons (udp_dest udph)) payload \<and>
        sfc_direction_flag h2 = 1 \<and>
        (\<forall>h3 args2. same_connection h2 h3 \<and> chain_packet h3 (udp_bytes rih ruh answer) args2 \<longrightarrow>
         (\<exists>a r. calls (snd (manage_pkt_from_chain os L args2 t)) = calls t @
            [(Sendto (ua_socket_fd args2) ack (Ipv4 (ua_client_address args2)), a),
             (Sendto (ua_socket_fd args) answer (Ipv4 (ua_client_address args)), r)]) \<and>
         connections (base (snd (manage_pkt_from_chain os L args2 t))) = connections (base s))"
      using home by blast
  qed
qed

section \<open>A chain to try it on\<close>

definition sample_answer_iphdr :: iphdr where
  "sample_answer_iphdr = sample_iphdr \<lparr> ip_saddr := 0x0200000A, ip_daddr := 0x0100000A \<rparr>"

lemma sample_headers [simp]:
  "ip_ihl sample_iphdr = 5" "ip_protocol sample_iphdr = 17"
  "ip_ihl sample_answer_iphdr = 5" "ip_protocol sample_answer_iphdr = 17"
  by (simp_all add: sample_answer_iphdr_def sample_iphdr_def)

theorem udp_round_trip_witness:
  "\<exists>t h. manage_entering_udp_packets (sample_os [sample_addrinfo]) (answering_libs [sample_node])
      sample_args sample_proxy = (Inr (), t) \<and>
    (\<exists>task e1 e2. egress_pkt_from_chain (sample_os [sample_addrinfo])
        (sample_args \<lparr> ua_pkt := sfc_header_bytes h @ udp_bytes sample_iphdr sample_udphdr [1, 2, 3],
           ua_pkt_len := 55 \<rparr>) sample_proxy = (Inr task, e1) \<and>
      run_exit_task (sample_os [sample_addrinfo]) (answering_libs [sample_node]) (\<lambda>_. 0) task
        (replicate buffer_size 0) [] [Data (udp_bytes sample_answer_iphdr sample_udphdr [4, 5])] e1 =
        (Inr Reply_stopped, e2))"
proof -
  let ?os = "sample_os [sample_addrinfo]" and ?L = "answering_libs [sample_node]"
  let ?key = "entering_key (ip_saddr sample_iphdr) (ip_daddr sample_iphdr) (udp_source sample_udphdr)
    (udp_dest sample_udphdr) ''0'' UDP"
  let ?reply = "udp_bytes sample_answer_iphdr sample_udphdr [4, 5]"
  have len: "length [1, 2, 3 :: byte] \<le> 65507" "length (replicate buffer_size (0 :: byte)) = buffer_size"
    "[4, 5 :: byte] \<noteq> []" "length ?reply < buffer_size"
    by (simp_all add: udp_bytes_def buffer_size_def)
  note trip = udp_round_trip [OF udp_datagram_sample len(1) network_up_sample shapes_ok_answering
      service_up_answering sample_path_not_Nil sample_proxy_state(1,2) comparable_singleton
      sample_proxy_state(5) singletonI sample_proxy_state(3) network_up_sample shapes_ok_answering
      service_up_answering sample_path_not_Nil updates_taken_answering sample_proxy_state(1,2) len(2)
      sample_headers(3,4) len(3,4), of "\<lambda>_. 0" "[]"]
  obtain t h where t: "manage_entering_udp_packets ?os ?L sample_args sample_proxy = (Inr (), t)"
    and out: "\<And>h' args1. same_connection h h' \<Longrightarrow>
      chain_packet h' (udp_bytes sample_iphdr sample_udphdr [1, 2, 3]) args1 \<Longrightarrow>
      \<exists>task e1 e2. egress_pkt_from_chain ?os args1 sample_proxy = (Inr task, e1) \<and>
        run_exit_task ?os ?L (\<lambda>_. 0) task (replicate buffer_size 0) [] [Data ?reply] e1 =
          (Inr Reply_stopped, e2)"
    by (insert trip, elim exE conjE, rule that, assumption, blast)
  have "chain_packet h (udp_bytes sample_iphdr sample_udphdr [1, 2, 3])
      (sample_args \<lparr> ua_pkt := sfc_header_bytes h @ udp_bytes sample_iphdr sample_udphdr [1, 2, 3],
         ua_pkt_len := 55 \<rparr>)"
    by (simp add: chain_packet_def udp_bytes_def)
  from out [OF _ this] have "\<exists>task e1 e2. egress_pkt_from_chain ?os
      (sample_args \<lparr> ua_pkt := sfc_header_bytes h @ udp_bytes sample_iphdr sample_udphdr [1, 2, 3],
         ua_pkt_len := 55 \<rparr>) sample_proxy = (Inr task, e1) \<and>
      run_exit_task ?os ?L (\<lambda>_. 0) task (replicate buffer_size 0) [] [Data ?reply] e1 =
        (Inr Reply_stopped, e2)" by (simp only: same_connection_def simp_thms)
  then show ?thesis by (intro exI [of _ t] exI [of _ h] conjI t)
qed

end
