(* ===== verification/Egress_Threads.thy ===== *)
theory Egress_Threads
  imports Round_Trip Call_Traces
begin

text \<open>
  The threads of Egress, src/src/endpoint/egress.cpp, read by read: a detached thread starts on its
  task, up to the loop that waits for answers, and takes a step for each result of its receive. What
  such a step can send, whatever the system, the libraries and the sender of the answer do.
\<close>

section \<open>One answer\<close>

text \<open>The value is how the thread ended, or the buffer with which it waits for the next answer.\<close>

definition udp_reply_read ::
    "os_lib \<Rightarrow> 'j libs \<Rightarrow> sfc_header \<Rightarrow> byte list \<Rightarrow> received \<Rightarrow> (reply_end + byte list) proxy_action" where
  "udp_reply_read os L header buf r =
     (case r of
        Receive_error \<Rightarrow> fail_action (Exit_process 1)
      | End_of_stream \<Rightarrow> return_action (Inl Reply_closed)
      | Data bs \<Rightarrow>
          bind_action (on_base (classify L (receive_into bs buf) (length bs))) (\<lambda>sfcid.
          bind_action (on_base (route_of_chain L sfcid)) (\<lambda>path.
          bind_action
            (if path \<noteq> [] then send_reply os sfcid header path (receive_into bs buf) (length bs)
             else return_action ()) (\<lambda>_.
          return_action (if length bs < buffer_size then Inl Reply_stopped else Inr (receive_into bs buf))))))"

definition tcp_reply_read ::
    "os_lib \<Rightarrow> 'j libs \<Rightarrow> sfc_header \<Rightarrow> byte list \<Rightarrow> received \<Rightarrow> (reply_end + byte list) proxy_action" where
  "tcp_reply_read os L header buf r =
     (case r of
        Receive_error \<Rightarrow> fail_action (Exit_process 1)
      | End_of_stream \<Rightarrow> return_action (Inl Reply_closed)
      | Data bs \<Rightarrow>
          bind_action (on_base (classify L (receive_into bs buf) (length bs))) (\<lambda>sfcid.
          bind_action (on_base (route_of_chain L sfcid)) (\<lambda>path.
          if path \<noteq> []
          then bind_action (send_reply os sfcid header path (receive_into bs buf) (length bs)) (\<lambda>_.
               return_action (if length bs < buffer_size then Inl Reply_stopped else Inr (receive_into bs buf)))
          else return_action (Inl Reply_stopped))))"

definition reply_read ::
    "os_lib \<Rightarrow> 'j libs \<Rightarrow> protocol_type \<Rightarrow> sfc_header \<Rightarrow> byte list \<Rightarrow> received \<Rightarrow>
     (reply_end + byte list) proxy_action" where
  "reply_read os L prt = (if prt = TCP then tcp_reply_read os L else udp_reply_read os L)"

fun run_replies ::
    "os_lib \<Rightarrow> 'j libs \<Rightarrow> protocol_type \<Rightarrow> sfc_header \<Rightarrow> byte list \<Rightarrow> received list \<Rightarrow> reply_end proxy_action" where
  "run_replies os L prt header buf [] = return_action Reply_waiting"
| "run_replies os L prt header buf (r # rs) =
     bind_action (reply_read os L prt header buf r) (\<lambda>x. case x of
         Inl e \<Rightarrow> return_action e
       | Inr buf' \<Rightarrow> run_replies os L prt header buf' rs)"

text \<open>A thread up to its loop; \<open>stack\<close> and \<open>buf\<close> are as in Egress.\<close>

definition exit_start ::
    "os_lib \<Rightarrow> 'j libs \<Rightarrow> (string \<Rightarrow> u32) \<Rightarrow> exit_task \<Rightarrow> byte list \<Rightarrow> sfc_header proxy_action" where
  "exit_start os L pton task stack =
     (if task_prt task = TCP
      then exit_tcp_start os L pton (ua_pkt (task_args task)) (ua_pkt_len (task_args task)) (task_ce task)
        (ua_socket_fd (task_args task))
      else exit_udp_start os L (ua_pkt (task_args task)) (ua_pkt_len (task_args task)) (task_ce task) stack)"

lemma udp_loop_stepwise: "udp_reply_loop os L header buf rs = run_replies os L UDP header buf rs"
  and tcp_loop_stepwise: "tcp_reply_loop os L header buf rs = run_replies os L TCP header buf rs"
proof -
  note simps = reply_read_def udp_reply_read_def tcp_reply_read_def action_laws
  have if_bind: "bind_action (if b then m else n) k = (if b then bind_action m k else bind_action n k)"
    for b and m n :: "(proxy, 'x) action" and k :: "'x \<Rightarrow> (proxy, 'y) action" by simp
  show "udp_reply_loop os L header buf rs = run_replies os L UDP header buf rs"
    by (induction rs arbitrary: buf rule: list.induct)
      (simp_all add: simps split: received.split del: return_action_apply fail_action_apply)
  show "tcp_reply_loop os L header buf rs = run_replies os L TCP header buf rs"
    by (induction rs arbitrary: buf rule: list.induct)
      (simp_all add: simps if_bind cong: if_cong split: received.split del: return_action_apply fail_action_apply)
qed

text \<open>The thread is the task of Egress, step by step.\<close>

lemma exit_task_stepwise:
  "run_exit_task os L pton task stack buf rs =
     bind_action (exit_start os L pton task stack) (\<lambda>header.
       run_replies os L (task_prt task) header (if task_prt task = TCP then stack else buf) rs)"
  by (cases "task_prt task")
    (simp_all add: run_exit_task_def exit_start_def manage_exiting_udp_packets_def
      manage_exiting_tcp_packets_def udp_loop_stepwise tcp_loop_stepwise)

section \<open>What a thread sends\<close>

text \<open>Calls that send, if anything, a datagram with exactly these bytes.\<close>

fun sends_only :: "byte list \<Rightarrow> sys_call \<Rightarrow> bool" where
  "sends_only m (Sendto fd b d) \<longleftrightarrow> b = m"
| "sends_only m (Send fd b) \<longleftrightarrow> False"
| "sends_only m _ \<longleftrightarrow> True"

lemma lets_client_sends_only: "lets_client (sends_only m) m"
  by (simp add: lets_client_def)

lemma reply_header_chain_0:
  "reply_header header path = chain_0_header (sfc_source_address header) (sfc_source_port header)
     (sfc_destination_address header) (sfc_destination_port header) 1 path"
  by (simp add: reply_header_def chain_0_header_def)

lemma send_reply_adds:
  assumes "lets_client C (sfc_header_bytes (reply_header header path) @ take n pkt)"
  shows "base (snd (send_reply os ''0'' header path pkt n s)) = base s"
    "adds C (calls s) (calls (snd (send_reply os ''0'' header path pkt n s)))"
  using send_into_chain_adds [OF assms [unfolded reply_header_chain_0]] by (simp_all add: send_reply_def)

text \<open>The bytes of a receive, and the state in which answers are classified.\<close>

definition received_bytes :: "received \<Rightarrow> byte list" where
  "received_bytes r = (case r of Data bs \<Rightarrow> bs | _ \<Rightarrow> [])"

text \<open>
  One answer, whatever it is: what goes into the chain are its bytes behind a reply header of the
  thread's own header.
\<close>

lemma reply_read_sends:
  assumes "shapes_ok L" "chain_table (chains (base s))"
  shows "\<exists>path. \<forall>C. lets_client C (sfc_header_bytes (reply_header header path) @ received_bytes r) \<longrightarrow>
      adds C (calls s) (calls (snd (reply_read os L prt header buf r s)))"
    and "chain_table (chains (base (snd (reply_read os L prt header buf r s))))"
    and "roulette (base (snd (reply_read os L prt header buf r s))) = roulette (base s)"
proof -
  let ?run = "reply_read os L prt header buf r s"
  have "(\<exists>path. \<forall>C. lets_client C (sfc_header_bytes (reply_header header path) @ received_bytes r) \<longrightarrow>
      adds C (calls s) (calls (snd ?run))) \<and> chain_table (chains (base (snd ?run))) \<and> roulette (base (snd ?run)) = roulette (base s)"
  proof (cases r)
    case (Data bs)
    let ?pkt = "receive_into bs buf"
    obtain c d where c: "classify L ?pkt (length bs) (base s) = (c, base s \<lparr> chains := d \<rparr>)"
      "chain_table d" "\<forall>x. c = Inr x \<longrightarrow> x = ''0''"
      by (rule classify_any [OF assms])
    let ?b1 = "base s \<lparr> chains := d \<rparr>"
    note run = reply_read_def udp_reply_read_def tcp_reply_read_def bind_action_def Data c(1)
    show ?thesis
    proof (cases c)
      case (Inl f)
      then show ?thesis using c(2) by (simp add: run)
    next
      case (Inr x)
      then have x: "x = ''0''" using c(3) by simp
      obtain h where route: "snd (route_of_chain L ''0'' ?b1) = ?b1 \<lparr> http := h \<rparr>"
        using route_of_chain_frame by blast
      let ?s2 = "s \<lparr> base := ?b1 \<lparr> http := h \<rparr> \<rparr>"
      show ?thesis
      proof (cases "fst (route_of_chain L ''0'' ?b1)")
        case (Inl f)
        then show ?thesis using Inr x route c(2) by (simp add: run)
      next
        case path: (Inr path)
        let ?sent = "send_reply os ''0'' header path ?pkt (length bs) ?s2"
        have sent: "base (snd ?sent) = base ?s2"
          "\<forall>C. lets_client C (sfc_header_bytes (reply_header header path) @ bs) \<longrightarrow>
             adds C (calls s) (calls (snd ?sent))"
        proof -
          have take: "take (length bs) ?pkt = bs" by (simp add: receive_into_def)
          note sends = send_reply_adds [where header = header and path = path and n = "length bs" and pkt = ?pkt and os = os and s = ?s2, unfolded take]
          show "base (snd ?sent) = base ?s2" by (rule sends(1) [OF lets_client_sends_only])
          show "\<forall>C. lets_client C (sfc_header_bytes (reply_header header path) @ bs) \<longrightarrow>
              adds C (calls s) (calls (snd ?sent))" using sends(2) by simp
        qed
        obtain v u where vu: "?sent = (v, u)" by fastforce
        have "snd ?run \<in> {u, ?s2}"
          using Inr x path route vu
          by (cases v; cases "path = []"; cases prt) (simp_all add: run)
        then have "snd ?run = u \<or> snd ?run = ?s2" by simp
        then show ?thesis
          using sent vu c(2) by (elim disjE) (auto simp: received_bytes_def Data)
      qed
    qed
  qed (use assms(2) in \<open>simp_all add: reply_read_def udp_reply_read_def tcp_reply_read_def\<close>)
  then show "\<exists>path. \<forall>C. lets_client C (sfc_header_bytes (reply_header header path) @ received_bytes r) \<longrightarrow>
      adds C (calls s) (calls (snd ?run))" "chain_table (chains (base (snd ?run)))"
    "roulette (base (snd ?run)) = roulette (base s)" by blast+
qed

end
