(* ===== verification/Egress_Turns.thy ===== *)
theory Egress_Turns
  imports Client_Threads Egress_Threads
begin

text \<open>
  The handler and the detached threads of src/src/endpoint/egress.cpp at the grain at which they
  interleave, as in Ingress_Threads: a turn is one operation on the shared table, one request to the
  route service or one system call. Alone, each thread is the operation of Egress.
\<close>

section \<open>The handler of a chain packet, in turns\<close>

definition hand_over_thread :: "os_lib \<Rightarrow> udp_pkt_mngmnt_args \<Rightarrow> (proxy, exit_task) thread" where
  "hand_over_thread os args =
     bind_thread (do_turn os (Sendto (ua_socket_fd args) ack (Ipv4 (ua_client_address args)))) (\<lambda>_.
     bind_thread (Done (retrieve_header (ua_pkt args))) (\<lambda>flh.
     bind_thread (Done (retrieve_ip_udp_header (drop header_size (ua_pkt args)))) (\<lambda>(iph, udph).
     let conn_type = (if ip_protocol iph = 6 then TCP else UDP);
         ce = chain_key flh conn_type
     in bind_thread (turn (\<lambda>s. (Inr (retrieve_connection_2 ce (base s)), s))) (\<lambda>(fd, addr).
        Done (Inr \<lparr> task_prt = conn_type, task_args = args \<lparr> ua_socket_fd := fd \<rparr>, task_ce = ce \<rparr>)))))"

section \<open>The start of a task, in turns\<close>

definition request_update ::
    "'j libs \<Rightarrow> connection_entry \<Rightarrow> socket_fd \<Rightarrow> endpoint_type \<Rightarrow> bool endpoint_action" where
  "request_update L ce fd e s =
     with_roulette (\<lambda>a. update_endpoint (lib_json L) (lib_http L) a (update_query ce) (own_endpoint s fd e)) s"

definition update_entry_thread ::
    "'j libs \<Rightarrow> connection_entry \<Rightarrow> socket_fd \<Rightarrow> sockaddr_in \<Rightarrow> endpoint_type \<Rightarrow> (proxy, unit) thread" where
  "update_entry_thread L ce fd sockin e =
     bind_thread (turn (on_base (request_update L ce fd e))) (\<lambda>_.
     turn (on_base (insert_connection L ce (fd, sockin))))"

definition exit_thread_if :: "bool \<Rightarrow> (proxy, unit) thread" where
  "exit_thread_if b = (if b then Done (Inl (Exit_process 1)) else Done (Inr ()))"

definition exit_udp_thread ::
    "os_lib \<Rightarrow> 'j libs \<Rightarrow> byte list \<Rightarrow> nat \<Rightarrow> connection_entry \<Rightarrow> byte list \<Rightarrow> (proxy, sfc_header) thread" where
  "exit_udp_thread os L pkt pkt_len ce stack =
     bind_thread (Done (udp_packet_header_size (drop header_size pkt))) (\<lambda>n.
     bind_thread (Done (retrieve_header pkt)) (\<lambda>header.
     bind_thread (call_turn os (Socket AF_INET SOCK_RAW IPPROTO_RAW)) (\<lambda>sock.
     bind_thread (exit_thread_if (sock = - 1)) (\<lambda>_.
     bind_thread (turn current_base) (\<lambda>b0.
     bind_thread (Done (forge_ip_udp_pkt (drop (header_size + n) pkt)
       (size_minus pkt_len (header_size + n)) (get_my_ip b0) (ce_ip_dst ce)
       (ext_port b0) (ce_port_dst ce) stack)) (\<lambda>datagram.
     bind_thread (call_turn os (Socket AF_INET SOCK_RAW IPPROTO_UDP)) (\<lambda>raw_socket.
     bind_thread (exit_thread_if (raw_socket = - 1)) (\<lambda>_.
     bind_thread (call_turn os (Bind raw_socket \<lparr> sin_port = htons (ext_port b0),
       sin_addr = inet_addr (get_my_ip b0) \<rparr>)) (\<lambda>b.
     bind_thread (if b = - 1
       then bind_thread (do_turn os (Close raw_socket)) (\<lambda>_. Done (Inl (Exit_process 1)))
       else Done (Inr ())) (\<lambda>_.
     let server = \<lparr> sin_port = htons (sfc_destination_port header),
                    sin_addr = sfc_destination_address header \<rparr>
     in bind_thread (Done (read_bytes datagram 0 (unat (ip_tot_len (iphdr_of_bytes datagram))))) (\<lambda>bytes.
        bind_thread (call_turn os (Sendto sock bytes (Ipv4 server))) (\<lambda>sent_len.
        bind_thread (exit_thread_if (sent_len < 0)) (\<lambda>_.
        bind_thread (update_entry_thread L ce sock server EGRESS_T) (\<lambda>_.
        Done (Inr header)))))))))))))))"

definition exit_tcp_thread ::
    "os_lib \<Rightarrow> 'j libs \<Rightarrow> (string \<Rightarrow> u32) \<Rightarrow> byte list \<Rightarrow> nat \<Rightarrow> connection_entry \<Rightarrow> socket_fd \<Rightarrow>
     (proxy, sfc_header) thread" where
  "exit_tcp_thread os L pton pkt pkt_len ce fd =
     bind_thread (Done (retrieve_header pkt)) (\<lambda>header.
     bind_thread (Done (tcp_packet_header_size (drop header_size pkt))) (\<lambda>n.
     let pkt_calc = header_size + n;
         len = unat (size_minus pkt_len pkt_calc)
     in bind_thread (Done (if 2 ^ 63 \<le> len then Inl (Throw Length_error)
          else strncpy (replicate len 0) 0 pkt pkt_calc len)) (\<lambda>v.
        bind_thread
          (if fd = - 1
           then bind_thread (connect_thread os pton
                  (int_to_ip (sfc_destination_address header)) (htons (sfc_destination_port header)))
                  (\<lambda>client.
                bind_thread (update_entry_thread L ce (access_to_socket client)
                  (access_to_sockaddr_in client) EGRESS_T) (\<lambda>_.
                Done (Inr (access_to_socket client))))
           else Done (Inr fd)) (\<lambda>sock.
        bind_thread (do_turn os (Send sock v)) (\<lambda>_.
        Done (Inr header))))))"

definition exit_start_thread ::
    "os_lib \<Rightarrow> 'j libs \<Rightarrow> (string \<Rightarrow> u32) \<Rightarrow> exit_task \<Rightarrow> byte list \<Rightarrow> (proxy, sfc_header) thread" where
  "exit_start_thread os L pton task stack =
     (if task_prt task = TCP
      then exit_tcp_thread os L pton (ua_pkt (task_args task)) (ua_pkt_len (task_args task)) (task_ce task)
        (ua_socket_fd (task_args task))
      else exit_udp_thread os L (ua_pkt (task_args task)) (ua_pkt_len (task_args task)) (task_ce task) stack)"

section \<open>One answer, in turns\<close>

definition send_reply_thread ::
    "os_lib \<Rightarrow> string \<Rightarrow> sfc_header \<Rightarrow> address list \<Rightarrow> byte list \<Rightarrow> nat \<Rightarrow> (proxy, unit) thread" where
  "send_reply_thread os sfcid header path buf n =
     into_chain_thread os sfcid (sfc_source_address header) (sfc_source_port header)
       (sfc_destination_address header) (sfc_destination_port header) 1 path buf n"

definition udp_reply_thread ::
    "os_lib \<Rightarrow> 'j libs \<Rightarrow> sfc_header \<Rightarrow> byte list \<Rightarrow> received \<Rightarrow> (proxy, reply_end + byte list) thread" where
  "udp_reply_thread os L header buf r =
     (case r of
        Receive_error \<Rightarrow> Done (Inl (Exit_process 1))
      | End_of_stream \<Rightarrow> Done (Inr (Inl Reply_closed))
      | Data bs \<Rightarrow>
          bind_thread (turn (on_base (classify L (receive_into bs buf) (length bs)))) (\<lambda>sfcid.
          bind_thread (turn (on_base (route_of_chain L sfcid))) (\<lambda>path.
          bind_thread
            (if path \<noteq> [] then send_reply_thread os sfcid header path (receive_into bs buf) (length bs)
             else Done (Inr ())) (\<lambda>_.
          Done (Inr (if length bs < buffer_size then Inl Reply_stopped else Inr (receive_into bs buf)))))))"

definition tcp_reply_thread ::
    "os_lib \<Rightarrow> 'j libs \<Rightarrow> sfc_header \<Rightarrow> byte list \<Rightarrow> received \<Rightarrow> (proxy, reply_end + byte list) thread" where
  "tcp_reply_thread os L header buf r =
     (case r of
        Receive_error \<Rightarrow> Done (Inl (Exit_process 1))
      | End_of_stream \<Rightarrow> Done (Inr (Inl Reply_closed))
      | Data bs \<Rightarrow>
          bind_thread (turn (on_base (classify L (receive_into bs buf) (length bs)))) (\<lambda>sfcid.
          bind_thread (turn (on_base (route_of_chain L sfcid))) (\<lambda>path.
          if path \<noteq> []
          then bind_thread (send_reply_thread os sfcid header path (receive_into bs buf) (length bs)) (\<lambda>_.
               Done (Inr (if length bs < buffer_size then Inl Reply_stopped else Inr (receive_into bs buf))))
          else Done (Inr (Inl Reply_stopped)))))"

definition reply_thread ::
    "os_lib \<Rightarrow> 'j libs \<Rightarrow> protocol_type \<Rightarrow> sfc_header \<Rightarrow> byte list \<Rightarrow> received \<Rightarrow>
     (proxy, reply_end + byte list) thread" where
  "reply_thread os L prt = (if prt = TCP then tcp_reply_thread os L else udp_reply_thread os L)"

section \<open>Alone they are the operations\<close>

lemma run_hand_over: "run_alone (hand_over_thread os args) = egress_pkt_from_chain os args"
proof -
  have look: "bind_action (\<lambda>s. (Inr (g s), s)) k = (\<lambda>s. k (g s) s)" for g :: "proxy \<Rightarrow> 'x" and k :: "'x \<Rightarrow> exit_task proxy_action"
    by (simp add: fun_eq_iff bind_action_def)
  show ?thesis
    by (simp add: hand_over_thread_def egress_pkt_from_chain_def run_Done lift_Inr Let_def split_def look
        cong: if_cong del: run_alone.simps bind_thread.simps on_sys_apply on_base_apply)
qed

lemma run_update_entry [simp]:
  "run_alone (update_entry_thread L ce fd a e) = on_base (update_entry L ce fd a e)"
  by (auto simp: fun_eq_iff update_entry_thread_def update_entry_def bind_action_def request_update_def
      on_base_def split: prod.split sum.split)

lemma run_exit_if [simp]: "run_alone (exit_thread_if b) = exit_if b"
  by (simp add: exit_thread_if_def exit_if_def run_Done lift_Inr if_distrib [of run_alone] cong: if_cong
      del: run_alone.simps)

lemmas turn_by_turn = run_Done lift_Inr Let_def split_def if_distrib [of run_alone]

lemma run_exit_start: "run_alone (exit_start_thread os L pton task stack) = exit_start os L pton task stack"
  by (simp add: exit_start_thread_def exit_start_def exit_udp_thread_def exit_udp_start_def exit_tcp_thread_def
      exit_tcp_start_def turn_by_turn cong: if_cong
      del: run_alone.simps bind_thread.simps on_sys_apply on_base_apply)

lemma run_reply: "run_alone (reply_thread os L prt header buf r) = reply_read os L prt header buf r"
  by (cases r) (simp_all add: reply_thread_def reply_read_def udp_reply_thread_def udp_reply_read_def
      tcp_reply_thread_def tcp_reply_read_def send_reply_thread_def send_reply_def turn_by_turn cong: if_cong
      del: run_alone.simps bind_thread.simps on_sys_apply on_base_apply)

end
