(* ===== verification/Egress_System.thy ===== *)
theory Egress_System
  imports Egress_Threads
begin

text \<open>
  A running Egress: the endpoint and the detached threads of its tasks, in any interleaving. The
  handler of a chain packet is one step, a thread takes one for its start and one for each answer it
  receives. The process ends when a handler or a thread exits or throws. \<open>handed\<close> records the packets
  that the chain handed over; it decides nothing.
\<close>

section \<open>State and steps\<close>

text \<open>A thread before it starts, with its two arrays, and while it waits for answers.\<close>

datatype exit_thread =
    Starting exit_task "byte list" "byte list"
  | Replies protocol_type sfc_header "byte list"
  | Returned

record egress_system =
  egress_proxy :: proxy
  exit_threads :: "exit_thread list"
  egress_ended :: bool
  handed :: "udp_pkt_mngmnt_args list"

definition start_egress :: "endpoint_state \<Rightarrow> sys_trace \<Rightarrow> egress_system" where
  "start_egress e t =
     \<lparr> egress_proxy = \<lparr> base = e, calls = t \<rparr>, exit_threads = [], egress_ended = False, handed = [] \<rparr>"

datatype egress_event =
    Chain_packet udp_pkt_mngmnt_args "byte list" "byte list"
  | Starts nat
  | Receives nat received

definition thread_at :: "nat \<Rightarrow> egress_system \<Rightarrow> exit_thread" where
  "thread_at i s = (if i < length (exit_threads s) then exit_threads s ! i else Returned)"

text \<open>The thread is replaced by what its action gives; a fault ends the process.\<close>

definition thread_acts ::
    "nat \<Rightarrow> ('a \<Rightarrow> exit_thread) \<Rightarrow> 'a result \<times> proxy \<Rightarrow> egress_system \<Rightarrow> egress_system" where
  "thread_acts i next = (\<lambda>(r, p) s.
     s \<lparr> egress_proxy := p, egress_ended := isl r,
       exit_threads := (exit_threads s)[i := (case r of Inl _ \<Rightarrow> Returned | Inr x \<Rightarrow> next x)] \<rparr>)"

lemma thread_acts_proxy [simp]: "egress_proxy (thread_acts i next rp s) = snd rp"
  by (simp add: thread_acts_def split: prod.split)

fun egress_event_step ::
    "os_lib \<Rightarrow> 'j libs \<Rightarrow> (string \<Rightarrow> u32) \<Rightarrow> egress_event \<Rightarrow> egress_system \<Rightarrow> egress_system option" where
  "egress_event_step os L pton (Chain_packet args stack buf) s =
     (let (r, p) = egress_pkt_from_chain os args (egress_proxy s)
      in Some (s \<lparr> egress_proxy := p, egress_ended := isl r, handed := handed s @ [args],
           exit_threads := exit_threads s @ [case r of Inl _ \<Rightarrow> Returned | Inr task \<Rightarrow> Starting task stack buf] \<rparr>))"
| "egress_event_step os L pton (Starts i) s =
     (case thread_at i s of
        Starting task stack buf \<Rightarrow>
          Some (thread_acts i
            (\<lambda>header. Replies (task_prt task) header (if task_prt task = TCP then stack else buf))
            (exit_start os L pton task stack (egress_proxy s)) s)
      | _ \<Rightarrow> None)"
| "egress_event_step os L pton (Receives i r) s =
     (case thread_at i s of
        Replies prt header buf \<Rightarrow>
          Some (thread_acts i (\<lambda>x. case x of Inl _ \<Rightarrow> Returned | Inr buf' \<Rightarrow> Replies prt header buf')
            (reply_read os L prt header buf r (egress_proxy s)) s)
      | _ \<Rightarrow> None)"

fun egress_event_fits :: "egress_event \<Rightarrow> bool" where
  "egress_event_fits (Chain_packet args stack buf) \<longleftrightarrow>
     length (ua_pkt args) = buffer_size \<and> ua_pkt_len args \<le> buffer_size \<and>
     length stack = buffer_size \<and> length buf = buffer_size"
| "egress_event_fits (Starts i) \<longleftrightarrow> True"
| "egress_event_fits (Receives i r) \<longleftrightarrow> (\<forall>bs. r = Data bs \<longrightarrow> 0 < length bs \<and> length bs \<le> buffer_size)"

definition egress_next ::
    "os_lib \<Rightarrow> 'j libs \<Rightarrow> (string \<Rightarrow> u32) \<Rightarrow> egress_event \<Rightarrow> egress_system \<Rightarrow> egress_system option" where
  "egress_next os L pton e s =
     (if egress_ended s \<or> \<not> egress_event_fits e then None else egress_event_step os L pton e s)"

inductive egress_reachable ::
    "os_lib \<Rightarrow> 'j libs \<Rightarrow> (string \<Rightarrow> u32) \<Rightarrow> endpoint_state \<Rightarrow> egress_system \<Rightarrow> bool"
  for os L pton e where
  egress_reachable_start: "egress_reachable os L pton e (start_egress e t)"
| egress_reachable_next: "egress_reachable os L pton e s \<Longrightarrow> egress_next os L pton ev s = Some s' \<Longrightarrow>
    egress_reachable os L pton e s'"

fun egress_run ::
    "os_lib \<Rightarrow> 'j libs \<Rightarrow> (string \<Rightarrow> u32) \<Rightarrow> egress_event list \<Rightarrow> egress_system \<Rightarrow> egress_system option" where
  "egress_run os L pton [] s = Some s"
| "egress_run os L pton (e # es) s = Option.bind (egress_next os L pton e s) (egress_run os L pton es)"

lemma egress_run_reachable:
  "egress_run os L pton es s = Some s' \<Longrightarrow> egress_reachable os L pton e s \<Longrightarrow> egress_reachable os L pton e s'"
  by (induction es arbitrary: s) (auto simp: bind_eq_Some_conv intro: egress_reachable_next)

section \<open>Threads belong to packets\<close>

fun thread_of :: "udp_pkt_mngmnt_args set \<Rightarrow> exit_thread \<Rightarrow> bool" where
  "thread_of A (Starting task stack buf) \<longleftrightarrow> ua_pkt (task_args task) \<in> ua_pkt ` A"
| "thread_of A (Replies prt header buf) \<longleftrightarrow> (\<exists>args \<in> A. retrieve_header (ua_pkt args) = Inr header)"
| "thread_of A Returned \<longleftrightarrow> True"

lemma thread_of_mono: "thread_of A x \<Longrightarrow> A \<subseteq> B \<Longrightarrow> thread_of B x"
  by (cases x) auto

definition egress_ok :: "egress_system \<Rightarrow> bool" where
  "egress_ok s \<longleftrightarrow> chain_table (chains (base (egress_proxy s))) \<and>
     (\<forall>x \<in> set (exit_threads s). thread_of (set (handed s)) x)"

text \<open>The table is kept, and since the trace t nothing is called but what P and R allow.\<close>

abbreviation table_kept ::
    "(byte list \<Rightarrow> destination \<Rightarrow> bool) \<Rightarrow> (string \<times> string \<Rightarrow> bool) \<Rightarrow> sys_trace \<Rightarrow> proxy \<Rightarrow> bool" where
  "table_kept P R t s \<equiv> chain_table (chains (base s)) \<and> adds (calls_if P R) t (calls s)"

lemma kept_sys: "adding (calls_if P R) m \<Longrightarrow> keeps_value (table_kept P R t) (on_sys m) (\<lambda>_. True)"
  by (auto simp: keeps_value_def adding_def intro: adds_trans)

lemma kept_update: "keeps_value (table_kept P R t) (on_base (update_entry L ce fd a e)) (\<lambda>_. True)"
  by (simp add: keeps_value_def update_entry_frame)

lemma kept_base: "keeps_value (table_kept P R t) current_base (\<lambda>_. True)"
  by (simp add: keeps_value_def)

lemma kept_lift: "keeps_value I (lift_result r) (\<lambda>_. True)"
  by (rule keeps_value_lift) simp

definition exit_address :: "sfc_header \<Rightarrow> sockaddr_in" where
  "exit_address h = \<lparr> sin_port = htons (sfc_destination_port h), sin_addr = sfc_destination_address h \<rparr>"

text \<open>The port goes through htons once more, and is looked up as a number in text.\<close>

definition exit_stream :: "sfc_header \<Rightarrow> string \<times> string" where
  "exit_stream h = (c_str (int_to_ip (sfc_destination_address h)), to_string (unat (htons (sfc_destination_port h))))"

lemma kept_exit_start:
  assumes "\<And>h b. retrieve_header (ua_pkt (task_args task)) = Inr h \<Longrightarrow>
    P b (Ipv4 (exit_address h)) \<and> R (exit_stream h)"
  shows "keeps_value (table_kept P R t) (exit_start os L pton task stack)
     (\<lambda>header. retrieve_header (ua_pkt (task_args task)) = Inr header)"
proof -
  let ?header = "\<lambda>pkt h. retrieve_header pkt = Inr h"
  note rest = keeps_value_bind [where Q = "\<lambda>_. True"] keeps_value_rules kept_sys kept_update kept_base
    kept_lift adding_sys adding_tcp TrueI
  have udp: "keeps_value (table_kept P R t) (exit_udp_start os L pkt n ce stack) (?header pkt)"
    if "\<And>h b. ?header pkt h \<Longrightarrow> P b (Ipv4 (exit_address h))" for pkt n ce
    unfolding exit_udp_start_def Let_def exit_if_def
    by (rule keeps_value_bind [OF kept_lift])
      (rule keeps_value_bind [OF keeps_value_lift [where Q = "?header pkt"]], assumption,
        intro rest, use that in \<open>simp_all add: exit_address_def\<close>)
  have tcp: "keeps_value (table_kept P R t) (exit_tcp_start os L pton pkt n ce fd) (?header pkt)"
    if "\<And>h. ?header pkt h \<Longrightarrow> R (exit_stream h)" for pkt n ce fd
    unfolding exit_tcp_start_def Let_def
    by (rule keeps_value_bind [OF keeps_value_lift [where Q = "?header pkt"]], assumption,
        intro rest, use that in \<open>simp_all add: exit_stream_def\<close>)
  show ?thesis
    using udp [of "ua_pkt (task_args task)"] tcp [of "ua_pkt (task_args task)"] assms by (simp add: exit_start_def)
qed

section \<open>What leaves Egress\<close>

text \<open>
  Acknowledgements, datagrams to the destinations of packets that were handed over, and answers behind
  the header of such a packet.
\<close>

definition egress_messages :: "udp_pkt_mngmnt_args set \<Rightarrow> byte list \<Rightarrow> destination \<Rightarrow> bool" where
  "egress_messages A b d \<longleftrightarrow>
     (case d of
        Resolved _ \<Rightarrow> \<exists>args \<in> A. \<exists>h h' p. retrieve_header (ua_pkt args) = Inr h \<and>
          same_connection (h \<lparr> sfc_p_id := 0 \<rparr>) h' \<and> b = sfc_header_bytes h' @ p
      | Ipv4 a \<Rightarrow> \<exists>args \<in> A. b = ack \<and> a = ua_client_address args \<or>
          (\<exists>h. retrieve_header (ua_pkt args) = Inr h \<and> a = exit_address h))"

definition egress_streams :: "udp_pkt_mngmnt_args set \<Rightarrow> string \<times> string \<Rightarrow> bool" where
  "egress_streams A x \<longleftrightarrow> (\<exists>args \<in> A. \<exists>h. retrieve_header (ua_pkt args) = Inr h \<and> x = exit_stream h)"

abbreviation egress_calls :: "udp_pkt_mngmnt_args set \<Rightarrow> sys_call \<Rightarrow> bool" where
  "egress_calls A \<equiv> calls_if (egress_messages A) (egress_streams A)"

lemma reply_header_endpoints: "same_connection (h \<lparr> sfc_p_id := 0 \<rparr>) (reply_header h path)"
  by (simp add: same_connection_def reply_header_def create_header_def ip_text.read_print)

text \<open>The actions of a thread of the packets A.\<close>

lemma started_ok:
  assumes "exit_start os L pton task stack s = (r, p)" "chain_table (chains (base s))"
    and "thread_of A (Starting task stack buf)"
  shows "chain_table (chains (base p)) \<and> adds (egress_calls A) (calls s) (calls p) \<and>
    (\<forall>h prt buf. r = Inr h \<longrightarrow> thread_of A (Replies prt h buf))"
proof -
  obtain args where args: "args \<in> A" "ua_pkt (task_args task) = ua_pkt args" using assms(3) by auto
  have s: "table_kept (egress_messages A) (egress_streams A) (calls s) s" using assms(2) by simp
  have kept: "keeps_value (table_kept (egress_messages A) (egress_streams A) (calls s))
      (exit_start os L pton task stack) (\<lambda>header. retrieve_header (ua_pkt (task_args task)) = Inr header)"
    by (rule kept_exit_start) (use args in \<open>auto simp: egress_messages_def egress_streams_def\<close>)
  have "retrieve_header (ua_pkt args) = Inr h" if "r = Inr h" for h
    using keeps_valueD(2) [OF kept s, of h p] assms(1) args(2) that by simp
  then show ?thesis using keeps_valueD(1) [OF kept s] assms(1) args(1) by auto
qed

lemma received_ok:
  assumes "shapes_ok L" "reply_read os L prt header buf r s = (v, p)" "chain_table (chains (base s))"
    and "thread_of A (Replies prt header buf)"
  shows "chain_table (chains (base p)) \<and> adds (egress_calls A) (calls s) (calls p)"
proof -
  note read = reply_read_sends [OF assms(1,3), where os = os and prt = prt and header = header and buf = buf
      and r = r, unfolded assms(2) snd_conv]
  obtain path where "\<forall>C. lets_client C (sfc_header_bytes (reply_header header path) @ received_bytes r) \<longrightarrow>
      adds C (calls s) (calls p)"
    using read(1) by blast
  moreover have "egress_messages A (sfc_header_bytes (reply_header header path) @ received_bytes r) (Resolved a)"
    for a using assms(4) reply_header_endpoints by (fastforce simp: egress_messages_def)
  ultimately show ?thesis using read(2) lets_client_calls_if by blast
qed

lemma handed_over_ok:
  assumes "egress_pkt_from_chain os args s = (r, p)" "args \<in> A"
  shows "base p = base s \<and> adds (egress_calls A) (calls s) (calls p) \<and>
    (\<forall>task stack buf. r = Inr task \<longrightarrow> thread_of A (Starting task stack buf))"
proof -
  let ?ack = "Sendto (ua_socket_fd args) ack (Ipv4 (ua_client_address args))"
  have "base p = base s" "\<And>task. r = Inr task \<Longrightarrow> ua_pkt (task_args task) = ua_pkt args"
    "calls p = calls s @ [(?ack, os_ret os (calls s) ?ack)]"
    using assms(1) by (auto simp: egress_pkt_from_chain_def bind_action_def Let_def split: sum.splits prod.splits)
  moreover have "egress_calls A ?ack" using assms(2) by (auto simp: egress_messages_def)
  ultimately show ?thesis using assms(2) adds_snoc by auto
qed

lemma egress_ok_next:
  assumes "shapes_ok L" "egress_ok s" "egress_next os L pton ev s = Some s'"
  shows "egress_ok s' \<and> adds (egress_calls (set (handed s'))) (calls (egress_proxy s)) (calls (egress_proxy s'))"
proof -
  let ?A = "set (handed s)" and ?t = "calls (egress_proxy s)"
  have step: "egress_event_step os L pton ev s = Some s'"
    using assms(3) by (auto simp: egress_next_def split: if_splits)
  have ct: "chain_table (chains (base (egress_proxy s)))" and
    th: "x \<in> set (exit_threads s) \<Longrightarrow> thread_of ?A x" for x
    using assms(2) by (auto simp: egress_ok_def)
  have at: "thread_at i s = x \<Longrightarrow> x \<noteq> Returned \<Longrightarrow> thread_of ?A x" for i x
    by (auto simp: thread_at_def split: if_splits intro: th)
  have acts: "egress_ok u \<and> adds (egress_calls (set (handed u))) ?t (calls (egress_proxy u))"
    if "u = thread_acts i next (r, p) s" "chain_table (chains (base p)) \<and> adds (egress_calls ?A) ?t (calls p)"
      "\<And>x. r = Inr x \<Longrightarrow> thread_of ?A (next x)"
    for u i r p and "next" :: "'x \<Rightarrow> exit_thread"
    using that th by (auto simp: egress_ok_def thread_acts_def split: sum.splits
        dest!: set_update_subset_insert [THEN subsetD])
  show ?thesis
  proof (cases ev)
    case (Chain_packet args stack buf)
    obtain r p where run: "egress_pkt_from_chain os args (egress_proxy s) = (r, p)" by fastforce
    moreover have "x \<in> set (exit_threads s) \<Longrightarrow> thread_of (insert args ?A) x" for x
      by (rule thread_of_mono [OF th]) auto
    moreover note handed_over_ok [OF run, of "insert args ?A"]
    ultimately show ?thesis
      using step ct Chain_packet by (auto simp: egress_ok_def split: sum.splits)
  next
    case (Starts i)
    then obtain task stack buf where t: "thread_at i s = Starting task stack buf"
      "s' = thread_acts i (\<lambda>header. Replies (task_prt task) header (if task_prt task = TCP then stack else buf))
        (exit_start os L pton task stack (egress_proxy s)) s"
      using step by (auto split: exit_thread.splits)
    obtain r p where run: "exit_start os L pton task stack (egress_proxy s) = (r, p)" by fastforce
    show ?thesis
      using started_ok [OF run ct at [OF t(1)]] by (intro acts [OF t(2) [unfolded run]]) simp_all
  next
    case (Receives i r)
    then obtain prt header buf where t: "thread_at i s = Replies prt header buf"
      "s' = thread_acts i (\<lambda>x. case x of Inl _ \<Rightarrow> Returned | Inr buf' \<Rightarrow> Replies prt header buf')
        (reply_read os L prt header buf r (egress_proxy s)) s"
      using step by (auto split: exit_thread.splits)
    obtain v p where run: "reply_read os L prt header buf r (egress_proxy s) = (v, p)" by fastforce
    show ?thesis
      using received_ok [OF assms(1) run ct at [OF t(1)]] at [OF t(1)]
      by (intro acts [OF t(2) [unfolded run]]) (auto split: sum.splits)
  qed
qed

lemma egress_ok_reachable:
  assumes "shapes_ok L" "chain_table (chains e)"
  shows "egress_reachable os L pton e s \<Longrightarrow> egress_ok s"
proof (induction rule: egress_reachable.induct)
  case (egress_reachable_start t)
  show ?case using assms(2) by (simp add: egress_ok_def start_egress_def)
qed (use egress_ok_next [OF assms(1)] in blast)

text \<open>
  Whatever a thread of Egress receives, from whomever, and however the threads interleave: all that
  it sends is what it received, behind a header with direction 1 and chain 0 that carries the addresses
  and ports of the header of a packet that the chain had handed over. Nothing is assumed of the system,
  the route service or the senders.
\<close>
lemma replies_name_their_request:
  assumes "shapes_ok L"
    and "egress_reachable os L pton (new_endpoint interfaces Leaf remote h external internal) s"
    and "egress_next os L pton (Receives i r) s = Some t"
  shows "\<exists>new args request reply. calls (egress_proxy t) = calls (egress_proxy s) @ new \<and>
    args \<in> set (handed s) \<and> retrieve_header (ua_pkt args) = Inr request \<and>
    (\<forall>(call, v) \<in> set new. sends_only (sfc_header_bytes reply @ received_bytes r) call) \<and>
    sfc_direction_flag reply = 1 \<and> sfc_p_id reply = 0 \<and>
    sfc_source_address reply = sfc_source_address request \<and>
    sfc_destination_address reply = sfc_destination_address request \<and>
    sfc_source_port reply = sfc_source_port request \<and>
    sfc_destination_port reply = sfc_destination_port request"
proof -
  have ok: "egress_ok s" using egress_ok_reachable [OF assms(1) _ assms(2)] by simp
  obtain prt header buf where t: "thread_at i s = Replies prt header buf"
    "egress_proxy t = snd (reply_read os L prt header buf r (egress_proxy s))"
    using assms(3) by (auto simp: egress_next_def split: if_splits exit_thread.splits)
  have "thread_of (set (handed s)) (Replies prt header buf)"
    using t(1) ok by (metis egress_ok_def exit_thread.distinct(5) nth_mem thread_at_def)
  then obtain args where args: "args \<in> set (handed s)" "retrieve_header (ua_pkt args) = Inr header" by auto
  obtain path where "adds (sends_only (sfc_header_bytes (reply_header header path) @ received_bytes r))
      (calls (egress_proxy s)) (calls (egress_proxy t))"
    using reply_read_sends(1) [OF assms(1)] ok lets_client_sends_only unfolding t(2) egress_ok_def by blast
  then obtain new where new: "calls (egress_proxy t) = calls (egress_proxy s) @ new"
    "\<forall>(call, v) \<in> set new. sends_only (sfc_header_bytes (reply_header header path) @ received_bytes r) call"
    unfolding adds_def by blast
  show ?thesis
    by (intro exI [of _ new] exI [of _ args] exI [of _ header] exI [of _ "reply_header header path"]
        conjI new args) (simp_all add: reply_header_def create_header_def ip_text.read_print)
qed

section \<open>One datagram for two threads\<close>

text \<open>The step of a thread that receives an answer in good conditions.\<close>

lemma udp_answer_step:
  assumes "thread_at i s = Replies UDP header buf" "\<not> egress_ended s"
    and "classified reply" "length reply < buffer_size" "network_up os" "shapes_ok L"
    and "chain_table (chains (base (egress_proxy s)))" "roulette (base (egress_proxy s)) \<noteq> None"
    and "service_up L path" "path \<noteq> []"
  obtains p where "egress_next os L pton (Receives i (Data reply)) s =
      Some (s \<lparr> egress_proxy := p, egress_ended := False, exit_threads := (exit_threads s)[i := Returned] \<rparr>)"
    "delivered (calls p) = delivered (calls (egress_proxy s)) @ [sfc_header_bytes (reply_header header path) @ reply]"
    "chain_table (chains (base p))" "roulette (base p) \<noteq> None"
proof -
  obtain p where p: "udp_reply_loop os L header buf (Data reply # []) (egress_proxy s) = (Inr Reply_stopped, p)"
    "delivered (calls p) = delivered (calls (egress_proxy s)) @ [sfc_header_bytes (reply_header header path) @ reply]"
    by (rule answer_forwarded [OF assms(3-10)])
  let ?read = "reply_read os L UDP header buf (Data reply) (egress_proxy s)"
  have "?read = (Inr (Inl Reply_stopped), p)"
  proof -
    have "\<And>x u. ?read = (Inr x, u) \<Longrightarrow> x = Inl Reply_stopped"
      using assms(4) by (auto simp: reply_read_def udp_reply_read_def bind_action_def split: sum.splits prod.splits)
    then show ?thesis
      using p(1) unfolding udp_loop_stepwise by (cases ?read; cases "fst ?read") (auto simp: bind_action_def)
  qed
  moreover from this have "chain_table (chains (base p))" "roulette (base p) \<noteq> None"
    using reply_read_sends(2,3) [OF assms(6,7), of os UDP header buf "Data reply"] assms(8) by simp_all
  moreover have "0 < length reply" using assms(3) by (auto simp: classified_def)
  ultimately show thesis
    using assms(1,2,4) p(2) by (intro that [of p]) (simp_all add: egress_next_def thread_acts_def)
qed

text \<open>
  C17: The raw socket of a thread gets every UDP datagram that the host receives, and no thread
  looks at where an answer comes from. When two threads wait for the answers of two connections, one
  datagram that both their sockets get and the classifier knows goes into the chain twice, behind
  the headers of the one and of the other connection, as the answer of either (when the requests
  have chain 0). Here the network and the route service are up and a path is known.
\<close>
theorem one_answer_for_two_connections:
  assumes "i \<noteq> j" "thread_at i s = Replies UDP request1 buf1" "thread_at j s = Replies UDP request2 buf2"
    and "\<not> egress_ended s" "classified answer" "length answer < buffer_size"
    and "network_up os" "shapes_ok L" "service_up L path" "path \<noteq> []"
    and "chain_table (chains (base (egress_proxy s)))" "roulette (base (egress_proxy s)) \<noteq> None"
  shows "\<exists>t reply1 reply2. egress_run os L pton [Receives i (Data answer), Receives j (Data answer)] s = Some t \<and>
    delivered (calls (egress_proxy t)) = delivered (calls (egress_proxy s)) @
      [sfc_header_bytes reply1 @ answer, sfc_header_bytes reply2 @ answer] \<and>
    sfc_direction_flag reply1 = 1 \<and> sfc_direction_flag reply2 = 1 \<and>
    (sfc_p_id request1 = 0 \<longrightarrow> same_connection request1 reply1) \<and>
    (sfc_p_id request2 = 0 \<longrightarrow> same_connection request2 reply2)"
proof -
  obtain p where p: "egress_next os L pton (Receives i (Data answer)) s =
      Some (s \<lparr> egress_proxy := p, egress_ended := False, exit_threads := (exit_threads s)[i := Returned] \<rparr>)"
    "delivered (calls p) = delivered (calls (egress_proxy s)) @ [sfc_header_bytes (reply_header request1 path) @ answer]"
    "chain_table (chains (base p))" "roulette (base p) \<noteq> None"
    by (rule udp_answer_step [OF assms(2,4-8,11,12,9,10)])
  let ?s1 = "s \<lparr> egress_proxy := p, egress_ended := False, exit_threads := (exit_threads s)[i := Returned] \<rparr>"
  have "thread_at j ?s1 = Replies UDP request2 buf2" "\<not> egress_ended ?s1"
    "chain_table (chains (base (egress_proxy ?s1)))" "roulette (base (egress_proxy ?s1)) \<noteq> None"
    using assms(1,3) p(3,4) by (auto simp: thread_at_def split: if_splits)
  then obtain q where q: "egress_next os L pton (Receives j (Data answer)) ?s1 =
      Some (?s1 \<lparr> egress_proxy := q, egress_ended := False, exit_threads := (exit_threads ?s1)[j := Returned] \<rparr>)"
    "delivered (calls q) = delivered (calls (egress_proxy ?s1)) @ [sfc_header_bytes (reply_header request2 path) @ answer]"
    using udp_answer_step [OF _ _ assms(5-8) _ _ assms(9,10)] by metis
  let ?t = "?s1 \<lparr> egress_proxy := q, egress_ended := False, exit_threads := (exit_threads ?s1)[j := Returned] \<rparr>"
  have "egress_run os L pton [Receives i (Data answer), Receives j (Data answer)] s = Some ?t"
    using p(1) q(1) by simp
  then show ?thesis
    using p(2) q(2) reply_header_connection reply_header_direction
    by (intro exI [of _ ?t] exI [of _ "reply_header request1 path"] exI [of _ "reply_header request2 path"]) simp
qed

section \<open>A run to try them on\<close>

text \<open>Two packets of the chain, of two ports of one client.\<close>

definition sample_request :: "u16 \<Rightarrow> sfc_header" where
  "sample_request port = entering_header sample_iphdr port (udp_dest sample_udphdr) sample_path"

definition sample_handed :: "u16 \<Rightarrow> udp_pkt_mngmnt_args" where
  "sample_handed port =
     \<lparr> ua_socket_fd = 3, ua_client_address = zero_sockaddr,
       ua_pkt = sfc_header_bytes (sample_request port) @ udp_bytes sample_iphdr sample_udphdr [1] @
         replicate (buffer_size - 53) 0,
       ua_pkt_len = 53 \<rparr>"

lemma sample_handed_packet:
  "chain_packet (sample_request port) (iphdr_bytes sample_iphdr @ udphdr_bytes sample_udphdr @ [1])
     (sample_handed port)"
  by (simp add: chain_packet_def sample_handed_def udp_bytes_def buffer_size_def)

abbreviation sample_arrays :: "byte list" where
  "sample_arrays \<equiv> replicate buffer_size 0"

text \<open>A packet is handed over and its thread starts.\<close>

lemma thread_starts:
  fixes port
  defines "key \<equiv> chain_key (sample_request port) UDP"
  assumes "network_up os" "updates_taken L key" "roulette (base (egress_proxy s)) \<noteq> None" "\<not> egress_ended s"
    and "chain_table (chains (base (egress_proxy s)))"
  obtains t where "egress_run os L pton [Chain_packet (sample_handed port) sample_arrays sample_arrays,
      Starts (length (exit_threads s))] s = Some t"
    "exit_threads t = exit_threads s @ [Replies UDP (sample_request port) sample_arrays]"
    "\<not> egress_ended t" "roulette (base (egress_proxy t)) \<noteq> None"
    "chain_table (chains (base (egress_proxy t)))"
proof -
  let ?args = "sample_handed port"
  let ?ack = "Sendto (ua_socket_fd ?args) ack (Ipv4 (ua_client_address ?args))"
  let ?p = "(egress_proxy s) \<lparr> calls := calls (egress_proxy s) @ [(?ack, os_ret os (calls (egress_proxy s)) ?ack)] \<rparr>"
  let ?task = "\<lparr> task_prt = UDP, task_args = ?args \<lparr> ua_socket_fd := fst (retrieve_connection_2 key
    (base (egress_proxy s))) \<rparr>, task_ce = key \<rparr>"
  have task: "egress_pkt_from_chain os ?args (egress_proxy s) = (Inr ?task, ?p)"
    using exit_task_udp [OF sample_handed_packet sample_headers(1)] by (simp add: key_def)
  have r: "roulette (base ?p) \<noteq> None" and table: "chain_table (chains (base ?p))" using assms(4,6) by simp_all
  have lens: "length [1 :: byte] \<le> 65507" "length sample_arrays = buffer_size" by simp_all
  obtain d fd u where u: "manage_exiting_udp_packets os L (ua_pkt ?args) (ua_pkt_len ?args) key sample_arrays
        sample_arrays [] ?p = udp_reply_loop os L (sample_request port) sample_arrays [] u"
    "base u = snd (update_entry L key fd \<lparr> sin_port = htons (sfc_destination_port (sample_request port)),
       sin_addr = sfc_destination_address (sample_request port) \<rparr> EGRESS_T (base ?p))"
    by (rule exiting_udp_up [OF sample_handed_packet sample_headers(1) lens assms(2,3) r])
  have b: "roulette (base u) \<noteq> None" "chain_table (chains (base u))" using r table u(2) by (simp_all add: update_entry_frame)
  obtain h where h: "exit_start os L pton ?task sample_arrays ?p = (Inr h, u)"
    using u(1) by (cases "exit_udp_start os L (ua_pkt ?args) (ua_pkt_len ?args) key sample_arrays ?p";
      cases "fst (exit_udp_start os L (ua_pkt ?args) (ua_pkt_len ?args) key sample_arrays ?p)")
      (auto simp: manage_exiting_udp_packets_def bind_action_def exit_start_def)
  have "retrieve_header (ua_pkt ?args) = Inr h"
    using keeps_valueD(2) [OF kept_exit_start [of ?task "\<lambda>_ _. True" "\<lambda>_. True"] _ h, of "calls ?p"] table by simp
  moreover have "retrieve_header (ua_pkt ?args) = Inr (sample_request port)"
    by (simp add: sample_handed_def retrieve_header_value)
  ultimately have h: "exit_start os L pton ?task sample_arrays ?p = (Inr (sample_request port), u)"
    using h by simp
  let ?t = "s \<lparr> egress_proxy := u, egress_ended := False, handed := handed s @ [?args],
    exit_threads := exit_threads s @ [Replies UDP (sample_request port) sample_arrays] \<rparr>"
  have "length (ua_pkt ?args) = buffer_size" "ua_pkt_len ?args \<le> buffer_size"
    by (simp_all add: sample_handed_def udp_bytes_def buffer_size_def)
  then have "egress_run os L pton [Chain_packet ?args sample_arrays sample_arrays,
      Starts (length (exit_threads s))] s = Some ?t"
    using task h assms(5) by (simp add: egress_next_def thread_at_def thread_acts_def)
  then show thesis by (rule that) (use b in simp_all)
qed

text \<open>Two threads wait.\<close>

lemma sample_threads:
  obtains s where
    "egress_reachable (sample_os [sample_addrinfo]) (answering_libs [sample_node]) (\<lambda>_. 0) sample_endpoint s"
    "exit_threads s = [Replies UDP (sample_request 1) sample_arrays, Replies UDP (sample_request 2) sample_arrays]"
    "\<not> egress_ended s" "roulette (base (egress_proxy s)) \<noteq> None"
    "chain_table (chains (base (egress_proxy s)))"
proof -
  let ?os = "sample_os [sample_addrinfo]" and ?L = "answering_libs [sample_node]"
  let ?s0 = "start_egress sample_endpoint []"
  have s0: "egress_proxy ?s0 = sample_proxy" "exit_threads ?s0 = []" "\<not> egress_ended ?s0"
    by (simp_all add: start_egress_def sample_proxy_def)
  have key: "chain_key (sample_request port) UDP =
      entering_key (ip_saddr sample_iphdr) (ip_daddr sample_iphdr) port (udp_dest sample_udphdr) ''0'' UDP" for port
    by (simp add: sample_request_def entering_header_key)
  have taken: "updates_taken ?L (chain_key (sample_request port) UDP)" for port
    unfolding key by (rule updates_taken_answering)
  obtain s1 where s1: "egress_run ?os ?L (\<lambda>_. 0) [Chain_packet (sample_handed 1) sample_arrays sample_arrays,
      Starts (length (exit_threads ?s0))] ?s0 = Some s1"
    "exit_threads s1 = exit_threads ?s0 @ [Replies UDP (sample_request 1) sample_arrays]"
    "\<not> egress_ended s1" "roulette (base (egress_proxy s1)) \<noteq> None" "chain_table (chains (base (egress_proxy s1)))"
    by (rule thread_starts [OF network_up_sample taken, of ?s0]) (use s0 sample_proxy_state in simp_all)
  obtain s2 where s2: "egress_run ?os ?L (\<lambda>_. 0) [Chain_packet (sample_handed 2) sample_arrays sample_arrays,
      Starts (length (exit_threads s1))] s1 = Some s2"
    "exit_threads s2 = exit_threads s1 @ [Replies UDP (sample_request 2) sample_arrays]"
    "\<not> egress_ended s2" "roulette (base (egress_proxy s2)) \<noteq> None" "chain_table (chains (base (egress_proxy s2)))"
    by (rule thread_starts [OF network_up_sample taken s1(4,3,5)])
  have "egress_reachable ?os ?L (\<lambda>_. 0) sample_endpoint s2"
    by (rule egress_run_reachable [OF s2(1) egress_run_reachable [OF s1(1) egress_reachable_start]])
  then show thesis using that s1(2) s2 s0(2) by simp
qed

definition sample_datagram :: "byte list" where
  "sample_datagram = udp_bytes sample_answer_iphdr sample_udphdr [4, 5]"

lemma sample_datagram_ok: "classified sample_datagram" "length sample_datagram < buffer_size"
  "0 < length sample_datagram"
  using udp_bytes_classified [OF sample_headers(3,4)]
  by (simp_all add: sample_datagram_def) (simp_all add: udp_bytes_def buffer_size_def)

theorem one_answer_for_two_connections_witness:
  "\<exists>s t reply1 reply2.
    egress_reachable (sample_os [sample_addrinfo]) (answering_libs [sample_node]) (\<lambda>_. 0) sample_endpoint s \<and>
    egress_run (sample_os [sample_addrinfo]) (answering_libs [sample_node]) (\<lambda>_. 0)
      [Receives 0 (Data sample_datagram), Receives 1 (Data sample_datagram)] s = Some t \<and>
    delivered (calls (egress_proxy t)) = delivered (calls (egress_proxy s)) @
      [sfc_header_bytes reply1 @ sample_datagram, sfc_header_bytes reply2 @ sample_datagram]"
proof -
  obtain s where s:
    "egress_reachable (sample_os [sample_addrinfo]) (answering_libs [sample_node]) (\<lambda>_. 0) sample_endpoint s"
    "exit_threads s = [Replies UDP (sample_request 1) sample_arrays, Replies UDP (sample_request 2) sample_arrays]"
    "\<not> egress_ended s" "roulette (base (egress_proxy s)) \<noteq> None" "chain_table (chains (base (egress_proxy s)))"
    by (rule sample_threads)
  have at: "thread_at 0 s = Replies UDP (sample_request 1) sample_arrays"
    "thread_at 1 s = Replies UDP (sample_request 2) sample_arrays"
    by (simp_all add: thread_at_def s(2))
  from one_answer_for_two_connections [OF zero_neq_one at s(3) sample_datagram_ok(1,2) network_up_sample
      shapes_ok_answering service_up_answering sample_path_not_Nil s(5,4)] s(1)
  show ?thesis by blast
qed

lemma egress_handed_grows:
  "egress_next os L pton ev s = Some s' \<Longrightarrow>
   handed s' = handed s @ (case ev of Chain_packet args stack buf \<Rightarrow> [args] | _ \<Rightarrow> [])"
  by (cases ev) (auto simp: egress_next_def thread_acts_def Let_def
      split: if_splits exit_thread.splits prod.splits)

end
