(* ===== verification/Egress_Crew.thy ===== *)
theory Egress_Crew
  imports Egress_Turns Egress_System
begin

text \<open>
  Egress with the threads of its handlers: a thread for each packet of the chain, which a detached thread
  follows, and any of them may take the next turn. The runs of Egress_System are those in which a thread
  is not interrupted before it blocks.
\<close>

section \<open>State and steps\<close>

text \<open>
  A packet is handed over, the thread of its task opens its sockets and sends, and then waits for
  answers and sends each into the chain. The detached thread takes the place of the one that started it,
  which does nothing more. Each phase carries what its thread is about.
\<close>

datatype exit_worker =
    Handing udp_pkt_mngmnt_args "byte list" "byte list" "(proxy, exit_task) thread"
  | Opening exit_task "byte list" "(proxy, sfc_header) thread"
  | Awaiting protocol_type sfc_header "byte list"
  | Answering protocol_type sfc_header received "(proxy, reply_end + byte list) thread"
  | Left

record egress_crew =
  exit_proxy :: proxy
  exit_workers :: "exit_worker list"
  exit_ended :: bool
  exit_handed :: "udp_pkt_mngmnt_args list"

definition start_exit_crew :: "endpoint_state \<Rightarrow> sys_trace \<Rightarrow> egress_crew" where
  "start_exit_crew e t =
     \<lparr> exit_proxy = \<lparr> base = e, calls = t \<rparr>, exit_workers = [], exit_ended = False, exit_handed = [] \<rparr>"

datatype exit_event =
    Packet_comes udp_pkt_mngmnt_args "byte list" "byte list"
  | Answer_comes nat received
  | Takes_turn nat

definition worker_at :: "nat \<Rightarrow> egress_crew \<Rightarrow> exit_worker" where
  "worker_at i s = (if i < length (exit_workers s) then exit_workers s ! i else Left)"

text \<open>A thread takes a turn, or ends, with its process if at a fault.\<close>

definition thread_goes ::
    "nat \<Rightarrow> ((proxy, 'x) thread \<Rightarrow> exit_worker) \<Rightarrow> ('x \<Rightarrow> exit_worker) \<Rightarrow> (proxy, 'x) thread \<Rightarrow>
     egress_crew \<Rightarrow> egress_crew" where
  "thread_goes i same further th s =
     (case th of
        Done r \<Rightarrow> s \<lparr> exit_workers := (exit_workers s)[i := (case r of Inl _ \<Rightarrow> Left | Inr x \<Rightarrow> further x)],
          exit_ended := isl r \<rparr>
      | Turn f \<Rightarrow> (let (u, p) = f (exit_proxy s)
          in s \<lparr> exit_workers := (exit_workers s)[i := same u], exit_proxy := p \<rparr>))"

definition after_hand_over ::
    "os_lib \<Rightarrow> 'j libs \<Rightarrow> (string \<Rightarrow> u32) \<Rightarrow> byte list \<Rightarrow> byte list \<Rightarrow> exit_task \<Rightarrow> exit_worker" where
  "after_hand_over os L pton stack buf task =
     Opening task (if task_prt task = TCP then stack else buf) (exit_start_thread os L pton task stack)"

definition after_answer :: "protocol_type \<Rightarrow> sfc_header \<Rightarrow> reply_end + byte list \<Rightarrow> exit_worker" where
  "after_answer prt header x = (case x of Inl _ \<Rightarrow> Left | Inr buf \<Rightarrow> Awaiting prt header buf)"

fun exit_event_step ::
    "os_lib \<Rightarrow> 'j libs \<Rightarrow> (string \<Rightarrow> u32) \<Rightarrow> exit_event \<Rightarrow> egress_crew \<Rightarrow> egress_crew option" where
  "exit_event_step os L pton (Packet_comes args stack buf) s =
     Some (s \<lparr> exit_workers := exit_workers s @ [Handing args stack buf (hand_over_thread os args)],
       exit_handed := exit_handed s @ [args] \<rparr>)"
| "exit_event_step os L pton (Answer_comes i r) s =
     (case worker_at i s of
        Awaiting prt header buf \<Rightarrow>
          Some (s \<lparr> exit_workers := (exit_workers s)[i := Answering prt header r (reply_thread os L prt header buf r)] \<rparr>)
      | _ \<Rightarrow> None)"
| "exit_event_step os L pton (Takes_turn i) s =
     (case worker_at i s of
        Handing args stack buf th \<Rightarrow>
          Some (thread_goes i (Handing args stack buf) (after_hand_over os L pton stack buf) th s)
      | Opening task buf th \<Rightarrow>
          Some (thread_goes i (Opening task buf) (\<lambda>header. Awaiting (task_prt task) header buf) th s)
      | Answering prt header r th \<Rightarrow>
          Some (thread_goes i (Answering prt header r) (after_answer prt header) th s)
      | _ \<Rightarrow> None)"

fun exit_event_fits :: "exit_event \<Rightarrow> bool" where
  "exit_event_fits (Packet_comes args stack buf) \<longleftrightarrow> egress_event_fits (Chain_packet args stack buf)"
| "exit_event_fits (Answer_comes i r) \<longleftrightarrow> egress_event_fits (Receives i r)"
| "exit_event_fits (Takes_turn i) \<longleftrightarrow> True"

definition exit_next ::
    "os_lib \<Rightarrow> 'j libs \<Rightarrow> (string \<Rightarrow> u32) \<Rightarrow> exit_event \<Rightarrow> egress_crew \<Rightarrow> egress_crew option" where
  "exit_next os L pton ev s =
     (if exit_ended s \<or> \<not> exit_event_fits ev then None else exit_event_step os L pton ev s)"

inductive exit_reachable ::
    "os_lib \<Rightarrow> 'j libs \<Rightarrow> (string \<Rightarrow> u32) \<Rightarrow> endpoint_state \<Rightarrow> egress_crew \<Rightarrow> bool"
  for os L pton e where
  exit_reachable_start: "exit_reachable os L pton e (start_exit_crew e t)"
| exit_reachable_next: "exit_reachable os L pton e s \<Longrightarrow> exit_next os L pton ev s = Some s' \<Longrightarrow>
    exit_reachable os L pton e s'"

fun exit_run ::
    "os_lib \<Rightarrow> 'j libs \<Rightarrow> (string \<Rightarrow> u32) \<Rightarrow> exit_event list \<Rightarrow> egress_crew \<Rightarrow> egress_crew option" where
  "exit_run os L pton [] s = Some s"
| "exit_run os L pton (e # es) s = Option.bind (exit_next os L pton e s) (exit_run os L pton es)"

lemma exit_run_append:
  "exit_run os L pton es s = Some t \<Longrightarrow> exit_run os L pton fs t = Some u \<Longrightarrow>
   exit_run os L pton (es @ fs) s = Some u"
  by (induction es arbitrary: s) (auto simp: bind_eq_Some_conv)

lemma exit_run_reachable:
  "exit_run os L pton es s = Some s' \<Longrightarrow> exit_reachable os L pton e s \<Longrightarrow> exit_reachable os L pton e s'"
  by (induction es arbitrary: s) (auto simp: bind_eq_Some_conv intro: exit_reachable_next)

section \<open>Threads that are not interrupted\<close>

text \<open>A phase of a thread that runs to its end, for any phase whose turns go on as thread_goes says.\<close>

lemma phase_alone:
  assumes "\<And>u t. i < length (exit_workers t) \<Longrightarrow> exit_workers t ! i = same u \<Longrightarrow> \<not> exit_ended t \<Longrightarrow>
      exit_next os L pton (Takes_turn i) t = Some (thread_goes i same further u t)"
    and "i < length (exit_workers s)" "exit_workers s ! i = same th" "\<not> exit_ended s"
  shows "\<exists>n. exit_run os L pton (replicate n (Takes_turn i)) s = Some (s \<lparr> exit_workers := (exit_workers s)[i :=
      (case fst (run_alone th (exit_proxy s)) of Inl _ \<Rightarrow> Left | Inr x \<Rightarrow> further x)],
    exit_proxy := snd (run_alone th (exit_proxy s)), exit_ended := isl (fst (run_alone th (exit_proxy s))) \<rparr>)"
  using assms(2-)
proof (induction th arbitrary: s)
  case (Done r)
  then show ?case using assms(1) by (intro exI [of _ 1]) (simp add: thread_goes_def)
next
  case (Turn f)
  obtain th p where f: "f (exit_proxy s) = (th, p)" by fastforce
  let ?s = "s \<lparr> exit_workers := (exit_workers s)[i := same th], exit_proxy := p \<rparr>"
  have "th \<in> Basic_BNFs.fsts (f (exit_proxy s))" by (simp add: f Basic_BNFs.fsts.simps)
  from Turn.IH [OF rangeI this, of ?s] obtain n where
    "exit_run os L pton (replicate n (Takes_turn i)) ?s = Some (?s \<lparr> exit_workers := (exit_workers ?s)[i :=
        (case fst (run_alone th p) of Inl _ \<Rightarrow> Left | Inr x \<Rightarrow> further x)],
      exit_proxy := snd (run_alone th p), exit_ended := isl (fst (run_alone th p)) \<rparr>)"
    using Turn.prems by auto
  then show ?case
    using Turn.prems f assms(1) by (intro exI [of _ "Suc n"]) (simp add: thread_goes_def)
qed

fun worker_of :: "os_lib \<Rightarrow> 'j libs \<Rightarrow> (string \<Rightarrow> u32) \<Rightarrow> exit_thread \<Rightarrow> exit_worker" where
  "worker_of os L pton (Starting task stack buf) = after_hand_over os L pton stack buf task"
| "worker_of os L pton (Replies prt header buf) = Awaiting prt header buf"
| "worker_of os L pton Returned = Left"

definition exit_crew_of :: "os_lib \<Rightarrow> 'j libs \<Rightarrow> (string \<Rightarrow> u32) \<Rightarrow> egress_system \<Rightarrow> egress_crew" where
  "exit_crew_of os L pton s =
     \<lparr> exit_proxy = egress_proxy s, exit_workers = map (worker_of os L pton) (exit_threads s),
       exit_ended = egress_ended s, exit_handed = handed s \<rparr>"

fun arrivals :: "exit_event list \<Rightarrow> egress_event list" where
  "arrivals [] = []"
| "arrivals (Packet_comes args stack buf # es) = Chain_packet args stack buf # arrivals es"
| "arrivals (Answer_comes i r # es) = Receives i r # arrivals es"
| "arrivals (Takes_turn i # es) = arrivals es"

fun is_arrival :: "egress_event \<Rightarrow> bool" where
  "is_arrival (Starts i) \<longleftrightarrow> False"
| "is_arrival _ \<longleftrightarrow> True"

lemma arrivals_append [simp]: "arrivals (es @ fs) = arrivals es @ arrivals fs"
  by (induction es rule: arrivals.induct) simp_all

lemma arrivals_turns [simp]: "arrivals (replicate n (Takes_turn i)) = []"
  by (induction n) simp_all

fun first_events :: "egress_event \<Rightarrow> exit_event list" where
  "first_events (Chain_packet args stack buf) = [Packet_comes args stack buf]"
| "first_events (Receives i r) = [Answer_comes i r]"
| "first_events (Starts i) = []"

lemma arrivals_first: "arrivals (first_events ev) = filter is_arrival [ev]"
  by (cases ev) simp_all

lemma exit_crew_of_next:
  assumes "egress_next os L pton ev s = Some s'"
  shows "\<exists>es. exit_run os L pton (first_events ev @ es) (exit_crew_of os L pton s) =
    Some (exit_crew_of os L pton s') \<and> arrivals es = []"
proof -
  let ?s = "exit_crew_of os L pton s" and ?s' = "exit_crew_of os L pton s'"
  have step: "egress_event_step os L pton ev s = Some s'" and fits: "egress_event_fits ev"
    and on: "\<not> egress_ended s"
    using assms by (auto simp: egress_next_def split: if_splits)
  show ?thesis
  proof (cases ev)
    case (Chain_packet args stack buf)
    let ?i = "length (exit_threads s)"
    let ?t = "?s \<lparr> exit_workers := exit_workers ?s @ [Handing args stack buf (hand_over_thread os args)],
      exit_handed := exit_handed ?s @ [args] \<rparr>"
    have t: "exit_next os L pton (Packet_comes args stack buf) ?s = Some ?t"
      using Chain_packet fits on by (simp add: exit_next_def exit_crew_of_def del: egress_event_fits.simps)
    have "\<exists>n. exit_run os L pton (replicate n (Takes_turn ?i)) ?t = Some (?t \<lparr> exit_workers := (exit_workers ?t)[?i :=
        (case fst (run_alone (hand_over_thread os args) (exit_proxy ?t)) of Inl _ \<Rightarrow> Left
          | Inr x \<Rightarrow> after_hand_over os L pton stack buf x)],
        exit_proxy := snd (run_alone (hand_over_thread os args) (exit_proxy ?t)),
        exit_ended := isl (fst (run_alone (hand_over_thread os args) (exit_proxy ?t))) \<rparr>)"
      by (rule phase_alone [where same = "Handing args stack buf"])
        (use on in \<open>simp_all add: exit_next_def worker_at_def exit_crew_of_def nth_append\<close>)
    then obtain n where n: "exit_run os L pton (replicate n (Takes_turn ?i)) ?t = Some ?s'"
      using step Chain_packet
      by (auto simp: run_hand_over exit_crew_of_def list_update_append split: prod.splits sum.splits)
    show ?thesis
      using t n Chain_packet by (intro exI [of _ "replicate n (Takes_turn ?i)"]) simp
  next
    case (Starts i)
    then obtain task stack buf where th: "thread_at i s = Starting task stack buf"
      "s' = thread_acts i (\<lambda>header. Replies (task_prt task) header (if task_prt task = TCP then stack else buf))
        (exit_start os L pton task stack (egress_proxy s)) s"
      using step by (auto split: exit_thread.splits)
    then have i: "i < length (exit_threads s)" "exit_threads s ! i = Starting task stack buf"
      by (auto simp: thread_at_def split: if_splits)
    let ?buf = "if task_prt task = TCP then stack else buf"
    have "\<exists>n. exit_run os L pton (replicate n (Takes_turn i)) ?s = Some (?s \<lparr> exit_workers := (exit_workers ?s)[i :=
        (case fst (run_alone (exit_start_thread os L pton task stack) (exit_proxy ?s)) of Inl _ \<Rightarrow> Left
          | Inr header \<Rightarrow> Awaiting (task_prt task) header ?buf)],
        exit_proxy := snd (run_alone (exit_start_thread os L pton task stack) (exit_proxy ?s)),
        exit_ended := isl (fst (run_alone (exit_start_thread os L pton task stack) (exit_proxy ?s))) \<rparr>)"
      by (rule phase_alone [where same = "Opening task ?buf"])
        (use on i in \<open>simp_all add: exit_next_def worker_at_def exit_crew_of_def after_hand_over_def\<close>)
    then show ?thesis
      using th(2) Starts
      by (auto simp: run_exit_start exit_crew_of_def thread_acts_def map_update split: prod.splits sum.splits)
  next
    case (Receives i r)
    then obtain prt header buf where th: "thread_at i s = Replies prt header buf"
      "s' = thread_acts i (\<lambda>x. case x of Inl _ \<Rightarrow> Returned | Inr buf' \<Rightarrow> Replies prt header buf')
        (reply_read os L prt header buf r (egress_proxy s)) s"
      using step by (auto split: exit_thread.splits)
    then have i: "i < length (exit_threads s)" "exit_threads s ! i = Replies prt header buf"
      by (auto simp: thread_at_def split: if_splits)
    let ?t = "?s \<lparr> exit_workers := (exit_workers ?s)[i := Answering prt header r (reply_thread os L prt header buf r)] \<rparr>"
    have t: "exit_next os L pton (Answer_comes i r) ?s = Some ?t"
      using Receives fits on i
      by (simp add: exit_next_def exit_crew_of_def worker_at_def del: egress_event_fits.simps)
    have "\<exists>n. exit_run os L pton (replicate n (Takes_turn i)) ?t = Some (?t \<lparr> exit_workers := (exit_workers ?t)[i :=
        (case fst (run_alone (reply_thread os L prt header buf r) (exit_proxy ?t)) of Inl _ \<Rightarrow> Left
          | Inr x \<Rightarrow> after_answer prt header x)],
        exit_proxy := snd (run_alone (reply_thread os L prt header buf r) (exit_proxy ?t)),
        exit_ended := isl (fst (run_alone (reply_thread os L prt header buf r) (exit_proxy ?t))) \<rparr>)"
      by (rule phase_alone [where same = "Answering prt header r"])
        (use on i in \<open>simp_all add: exit_next_def worker_at_def exit_crew_of_def\<close>)
    then obtain n where n: "exit_run os L pton (replicate n (Takes_turn i)) ?t = Some ?s'"
      using th(2)
      by (auto simp: run_reply exit_crew_of_def thread_acts_def after_answer_def map_update
          split: prod.splits sum.splits)
    show ?thesis
      using t n Receives by (intro exI [of _ "replicate n (Takes_turn i)"]) simp
  qed
qed

text \<open>The finer model has the runs of the coarser one, with the same packets and answers.\<close>

lemma uninterrupted_exits:
  assumes "egress_run os L pton evs s = Some s'"
  shows "\<exists>es. exit_run os L pton es (exit_crew_of os L pton s) = Some (exit_crew_of os L pton s') \<and>
    arrivals es = filter is_arrival evs"
  using assms
proof (induction evs arbitrary: s)
  case Nil
  then show ?case by (intro exI [of _ "[]"]) simp
next
  case (Cons ev evs)
  then obtain t where t: "egress_next os L pton ev s = Some t" "egress_run os L pton evs t = Some s'"
    by (auto simp: bind_eq_Some_conv)
  obtain es fs where "exit_run os L pton (first_events ev @ es) (exit_crew_of os L pton s) = Some (exit_crew_of os L pton t)"
    "arrivals es = []"
    "exit_run os L pton fs (exit_crew_of os L pton t) = Some (exit_crew_of os L pton s')"
    "arrivals fs = filter is_arrival evs"
    using exit_crew_of_next [OF t(1)] Cons.IH [OF t(2)] by blast
  then show ?case
    using exit_run_append arrivals_first [of ev] by (intro exI [of _ "(first_events ev @ es) @ fs"]) fastforce
qed

lemma exit_crew_of_reachable:
  "egress_reachable os L pton e s \<Longrightarrow> exit_reachable os L pton e (exit_crew_of os L pton s)"
proof (induction rule: egress_reachable.induct)
  case (egress_reachable_start t)
  have "exit_crew_of os L pton (start_egress e t) = start_exit_crew e t"
    by (simp add: exit_crew_of_def start_egress_def start_exit_crew_def)
  then show ?case by (simp add: exit_reachable_start)
next
  case (egress_reachable_next s ev s')
  then show ?case using exit_crew_of_next exit_run_reachable by blast
qed

end
