(* ===== verification/Egress_Safety.thy ===== *)
theory Egress_Safety
  imports Egress_Crew
begin

text \<open>
  What the threads of Egress call on the system, whatever the others do between their turns. The facts
  on the operations are those of Egress_Threads and Egress_System, taken turn by turn.
\<close>

section \<open>Pieces of the threads\<close>

text \<open>The table of the classifier has no entries but those it makes, and the calls are in C.\<close>

abbreviation keeps_table :: "(sys_call \<Rightarrow> bool) \<Rightarrow> ('a \<Rightarrow> bool) \<Rightarrow> (proxy, 'a) thread \<Rightarrow> bool" where
  "keeps_table \<equiv> keeps_calls (\<lambda>b. chain_table (chains b))"

lemma table_classify:
  "shapes_ok L \<Longrightarrow> keeps_value (\<lambda>b. chain_table (chains b)) (classify L pkt n) (\<lambda>x. x = ''0'')"
  unfolding keeps_value_def
  by (intro allI impI, erule (1) classify_any [where pkt = pkt and n = n]) auto

lemma table_route: "keeps_value (\<lambda>b. chain_table (chains b)) (route_of_chain L sfcid) (\<lambda>_. True)"
proof (rule keeps_value_pure)
  fix b :: endpoint_state assume b: "chain_table (chains b)"
  obtain h where "snd (route_of_chain L sfcid b) = b \<lparr> http := h \<rparr>" using route_of_chain_frame by blast
  then show "chain_table (chains (snd (route_of_chain L sfcid b)))" using b by simp
qed

lemma update_keeps: "keeps_table C (\<lambda>_. True) (update_entry_thread L ce fd a e)"
proof -
  have "keeps_value (\<lambda>b. chain_table (chains b)) (request_update L ce fd e) (\<lambda>_. True)"
    by (intro keeps_value_pure) (metis request_update_def with_roulette_cases snd_conv)
  moreover have "keeps_value (\<lambda>b. chain_table (chains b)) (insert_connection L ce c) (\<lambda>_. True)" for c
    by (intro keeps_value_pure) (simp add: insert_connection_def)
  ultimately show ?thesis
    unfolding update_entry_thread_def
    by (intro thread_keeps_bind [where Q = "\<lambda>_. True"] turn_base)
qed

lemma exit_if_keeps: "keeps_table C (\<lambda>_. True) (exit_thread_if b)"
  by (simp add: exit_thread_if_def thread_any)

section \<open>The phases of a thread\<close>

definition hand_call :: "udp_pkt_mngmnt_args \<Rightarrow> sys_call \<Rightarrow> bool" where
  "hand_call args call \<longleftrightarrow> call = Sendto (ua_socket_fd args) ack (Ipv4 (ua_client_address args))"

definition opening_call :: "byte list \<Rightarrow> sys_call \<Rightarrow> bool" where
  "opening_call pkt =
     calls_if (\<lambda>b d. \<exists>h. retrieve_header pkt = Inr h \<and> d = Ipv4 (exit_address h))
       (\<lambda>x. \<exists>h. retrieve_header pkt = Inr h \<and> x = exit_stream h)"

fun answering_call :: "sfc_header \<Rightarrow> received \<Rightarrow> sys_call \<Rightarrow> bool" where
  "answering_call header r (Sendto fd b d) \<longleftrightarrow>
     (\<exists>path a. b = sfc_header_bytes (reply_header header path) @ received_bytes r \<and> d = Resolved a)"
| "answering_call header r (Send fd b) \<longleftrightarrow> False"
| "answering_call header r (Getaddrinfo host port ty pr) \<longleftrightarrow> ty \<noteq> SOCK_STREAM"
| "answering_call header r _ \<longleftrightarrow> True"

lemma hand_keeps:
  "keeps_table (hand_call args) (\<lambda>task. ua_pkt (task_args task) = ua_pkt args) (hand_over_thread os args)"
  unfolding hand_over_thread_def
  apply (rule thread_keeps_bind [OF turn_call(2)])
   apply (simp add: hand_call_def)
  apply (rule thread_keeps_bind [OF thread_any])
  apply (rule thread_keeps_bind [OF thread_any])
  apply (simp only: split_paired_all prod.case Let_def)
  apply (rule thread_keeps_bind [where Q = "\<lambda>_. True"])
   apply (rule thread_keeps_turn, simp)
  apply (simp only: split_paired_all prod.case)
  apply (rule thread_return, simp)
  done

lemma opening_keeps:
  "keeps_table (opening_call (ua_pkt (task_args task)))
     (\<lambda>header. retrieve_header (ua_pkt (task_args task)) = Inr header) (exit_start_thread os L pton task stack)"
proof -
  let ?header = "\<lambda>pkt h. retrieve_header pkt = Inr h"
  note rest = thread_keeps_bind [where Q = "\<lambda>_. True"] thread_rules update_keeps exit_if_keeps connect_keeps TrueI
  have base: "keeps_table C (\<lambda>_. True) (turn current_base)" for C by (rule thread_keeps_turn) simp
  have udp: "keeps_table (opening_call pkt) (?header pkt) (exit_udp_thread os L pkt n ce stack)" for pkt n ce
    unfolding exit_udp_thread_def Let_def
    by (rule thread_keeps_bind [OF thread_any], rule thread_keeps_bind [OF thread_lift],
        intro rest base) (simp_all add: opening_call_def exit_address_def thread_return)
  have tcp: "keeps_table (opening_call pkt) (?header pkt) (exit_tcp_thread os L pton pkt n ce fd)" for pkt n ce fd
    unfolding exit_tcp_thread_def Let_def opening_call_def
    by (rule thread_keeps_bind [OF thread_lift], intro rest)
      (simp_all add: exit_stream_def thread_return)
  show ?thesis using udp tcp by (simp add: exit_start_thread_def)
qed

lemma answering_keeps:
  assumes "shapes_ok L"
  shows "keeps_table (answering_call header r) (\<lambda>_. True) (reply_thread os L prt header buf r)"
proof (cases r)
  case (Data bs)
  have send: "keeps_table (answering_call header r) (\<lambda>_. True)
      (send_reply_thread os ''0'' header path (receive_into bs buf) (length bs))" for path
    unfolding send_reply_thread_def
    by (rule into_chain_keeps)
      (auto simp: lets_client_def SOCK_DGRAM_def SOCK_STREAM_def reply_header_chain_0 received_bytes_def
        Data receive_into_def)
  note known = thread_keeps_bind [OF turn_base [OF table_classify [OF assms]]]
    thread_keeps_bind [OF turn_base [OF table_route]]
  have "keeps_table (answering_call header r) (\<lambda>_. True) (udp_reply_thread os L header buf r)"
    unfolding udp_reply_thread_def Data received.case
    by (rule known(1), rule known(2), rule thread_keeps_bind [where Q = "\<lambda>_. True"])
      (use send in \<open>simp_all add: Data thread_any\<close>)
  moreover have "keeps_table (answering_call header r) (\<lambda>_. True) (tcp_reply_thread os L header buf r)"
    unfolding tcp_reply_thread_def Data received.case
    by (rule known(1), rule known(2), intro thread_rules thread_keeps_bind [where Q = "\<lambda>_. True"])
      (use send in \<open>simp_all add: Data\<close>)
  ultimately show ?thesis by (simp add: reply_thread_def)
qed (simp_all add: reply_thread_def udp_reply_thread_def tcp_reply_thread_def thread_any)

section \<open>Every reachable state\<close>

fun worker_call :: "exit_worker \<Rightarrow> sys_call \<Rightarrow> bool" where
  "worker_call (Handing args stack buf th) = hand_call args"
| "worker_call (Opening task buf th) = opening_call (ua_pkt (task_args task))"
| "worker_call (Answering prt header r th) = answering_call header r"
| "worker_call _ = (\<lambda>_. False)"

text \<open>A thread of one of the packets A.\<close>

fun worker_ok :: "udp_pkt_mngmnt_args set \<Rightarrow> exit_worker \<Rightarrow> bool" where
  "worker_ok A (Handing args stack buf th) \<longleftrightarrow> args \<in> A \<and>
     keeps_table (hand_call args) (\<lambda>task. ua_pkt (task_args task) = ua_pkt args) th"
| "worker_ok A (Opening task buf th) \<longleftrightarrow> (\<exists>args \<in> A. ua_pkt (task_args task) = ua_pkt args) \<and>
     keeps_table (opening_call (ua_pkt (task_args task)))
       (\<lambda>header. retrieve_header (ua_pkt (task_args task)) = Inr header) th"
| "worker_ok A (Awaiting prt header buf) \<longleftrightarrow> (\<exists>args \<in> A. retrieve_header (ua_pkt args) = Inr header)"
| "worker_ok A (Answering prt header r th) \<longleftrightarrow> (\<exists>args \<in> A. retrieve_header (ua_pkt args) = Inr header) \<and>
     keeps_table (answering_call header r) (\<lambda>_. True) th"
| "worker_ok A Left \<longleftrightarrow> True"

lemma worker_ok_mono: "worker_ok A w \<Longrightarrow> A \<subseteq> B \<Longrightarrow> worker_ok B w"
  by (cases w) auto

definition exit_crew_ok :: "egress_crew \<Rightarrow> bool" where
  "exit_crew_ok s \<longleftrightarrow> chain_table (chains (base (exit_proxy s))) \<and>
     (\<forall>w \<in> set (exit_workers s). worker_ok (set (exit_handed s)) w)"

lemma exit_crew_ok_at: "exit_crew_ok s \<Longrightarrow> worker_ok (set (exit_handed s)) (worker_at i s)"
  by (simp add: exit_crew_ok_def worker_at_def)

lemma thread_goes_ok:
  assumes "exit_crew_ok s" "keeps_table C Q th" "s' = thread_goes i same further th s"
    and "\<And>u. keeps_table C Q u \<Longrightarrow> worker_ok (set (exit_handed s)) (same u)"
    and "\<And>x. Q x \<Longrightarrow> worker_ok (set (exit_handed s)) (further x)"
  shows "exit_crew_ok s' \<and> exit_handed s' = exit_handed s \<and> adds C (calls (exit_proxy s)) (calls (exit_proxy s'))"
proof (cases th)
  case (Done r)
  have "worker_ok (set (exit_handed s)) (case r of Inl _ \<Rightarrow> Left | Inr x \<Rightarrow> further x)"
    using assms(2,5) unfolding Done by (auto elim!: keeps_DoneE split: sum.split)
  then show ?thesis
    using assms(1,3) by (auto simp: Done thread_goes_def exit_crew_ok_def dest!: update_set_member)
next
  case (Turn f)
  obtain u p where f: "f (exit_proxy s) = (u, p)" by fastforce
  have "chain_table (chains (base p)) \<and> adds C (calls (exit_proxy s)) (calls p) \<and> keeps_table C Q u"
    using assms(1,2) f unfolding Turn exit_crew_ok_def by (elim keeps_TurnE) force
  then show ?thesis
    using assms(1,3,4) f by (auto simp: Turn thread_goes_def exit_crew_ok_def dest!: update_set_member)
qed

text \<open>The calls of one step: those of the thread that takes its turn.\<close>

fun exit_calls :: "egress_crew \<Rightarrow> exit_event \<Rightarrow> sys_call \<Rightarrow> bool" where
  "exit_calls s (Takes_turn i) = worker_call (worker_at i s)"
| "exit_calls s _ = (\<lambda>_. False)"

lemma exit_calls_egress:
  assumes "exit_crew_ok s" "exit_calls s ev c"
  shows "egress_calls (set (exit_handed s)) c"
proof -
  obtain i where i: "ev = Takes_turn i" "worker_call (worker_at i s) c" using assms(2) by (cases ev) auto
  show ?thesis
  proof (cases "worker_at i s")
    case (Answering prt header r th)
    then show ?thesis
      using exit_crew_ok_at [OF assms(1), of i] i(2) reply_header_endpoints
      by (cases c) (fastforce simp: egress_messages_def)+
  qed (use exit_crew_ok_at [OF assms(1), of i] i(2) in
    \<open>cases c; fastforce simp: hand_call_def opening_call_def egress_messages_def egress_streams_def\<close>)+
qed

lemma exit_crew_ok_next:
  assumes "shapes_ok L" "exit_crew_ok s" "exit_next os L pton ev s = Some s'"
  shows "exit_crew_ok s' \<and> set (exit_handed s) \<subseteq> set (exit_handed s') \<and>
    adds (exit_calls s ev) (calls (exit_proxy s)) (calls (exit_proxy s'))"
proof -
  have step: "exit_event_step os L pton ev s = Some s'"
    using assms(3) by (auto simp: exit_next_def split: if_splits)
  note at = exit_crew_ok_at [OF assms(2)]
  show ?thesis
  proof (cases ev)
    case (Packet_comes args stack buf)
    then show ?thesis
      using step assms(2) worker_ok_mono [OF _ subset_insertI]
      by (auto simp: exit_crew_ok_def hand_keeps)
  next
    case (Answer_comes i r)
    then obtain prt header buf where w: "worker_at i s = Awaiting prt header buf"
      "s' = s \<lparr> exit_workers := (exit_workers s)[i := Answering prt header r (reply_thread os L prt header buf r)] \<rparr>"
      using step by (auto split: exit_worker.splits)
    show ?thesis
      using at [of i] assms(2) answering_keeps [OF assms(1)] Answer_comes
      by (auto simp: w exit_crew_ok_def dest!: update_set_member)
  next
    case (Takes_turn i)
    have goes: ?thesis
      if "exit_crew_ok s' \<and> exit_handed s' = exit_handed s \<and>
        adds (worker_call (worker_at i s)) (calls (exit_proxy s)) (calls (exit_proxy s'))"
      using that Takes_turn by simp
    show ?thesis
    proof (cases "worker_at i s")
      case (Handing args stack buf th)
      have later: "worker_ok (set (exit_handed s)) (after_hand_over os L pton stack buf task)"
        if "ua_pkt (task_args task) = ua_pkt args" for task
        using at [of i] that opening_keeps [of task] Handing unfolding after_hand_over_def by auto
      show ?thesis
        by (rule goes, unfold Handing worker_call.simps,
            rule thread_goes_ok [where th = th and same = "Handing args stack buf" and
              Q = "\<lambda>task. ua_pkt (task_args task) = ua_pkt args"])
          (use step Takes_turn assms(2) at [of i] Handing later in auto)
    next
      case (Opening task buf th)
      show ?thesis
        by (rule goes, unfold Opening worker_call.simps,
            rule thread_goes_ok [where th = th and same = "Opening task buf" and
              Q = "\<lambda>header. retrieve_header (ua_pkt (task_args task)) = Inr header"])
          (use step Takes_turn assms(2) at [of i] Opening in auto)
    next
      case (Answering prt header r th)
      show ?thesis
        by (rule goes, unfold Answering worker_call.simps,
            rule thread_goes_ok [where th = th and same = "Answering prt header r" and
              Q = "\<lambda>_. True"])
          (use step Takes_turn assms(2) at [of i] Answering in
            \<open>auto simp: after_answer_def split: sum.splits\<close>)
    qed (use step Takes_turn in simp_all)
  qed
qed

lemma exit_crew_ok_reachable:
  assumes "shapes_ok L" "chain_table (chains e)"
  shows "exit_reachable os L pton e s \<Longrightarrow> exit_crew_ok s"
proof (induction rule: exit_reachable.induct)
  case (exit_reachable_start t)
  show ?case using assms(2) by (simp add: exit_crew_ok_def start_exit_crew_def)
qed (use exit_crew_ok_next [OF assms(1)] in blast)

text \<open>
  C8: Whatever Egress receives, from whomever, and however its threads interleave: between any two
  operations on the shared table, requests to the route service and system calls every other thread may
  take its turn. All that goes into the chain is what the thread received, behind a header with direction
  1 and chain 0 that carries the addresses and ports of the header of a packet the chain had handed over;
  to plain addresses go only the acknowledgement of such a packet, to its sender, and datagrams of the
  thread of such a packet, to the destination its header names; and only such a thread sends on streams.
\<close>
theorem threads_answer_their_request:
  assumes "shapes_ok L"
    and "exit_reachable os L pton (new_endpoint interfaces Leaf remote h external internal) s"
    and "exit_next os L pton ev s = Some t"
  shows "\<exists>new. calls (exit_proxy t) = calls (exit_proxy s) @ new \<and> (\<forall>(call, v) \<in> set new.
    (\<forall>fd b a. call = Sendto fd b (Resolved a) \<longrightarrow>
      (\<exists>i prt request got th args reply. ev = Takes_turn i \<and> worker_at i s = Answering prt request got th \<and>
        args \<in> set (exit_handed s) \<and> retrieve_header (ua_pkt args) = Inr request \<and>
        b = sfc_header_bytes reply @ received_bytes got \<and> sfc_direction_flag reply = 1 \<and>
        same_connection (request \<lparr> sfc_p_id := 0 \<rparr>) reply)) \<and>
    (\<forall>fd b a. call = Sendto fd b (Ipv4 a) \<longrightarrow>
      (\<exists>i args. ev = Takes_turn i \<and> args \<in> set (exit_handed s) \<and>
        ((\<exists>stack buf th. worker_at i s = Handing args stack buf th \<and>
            fd = ua_socket_fd args \<and> b = ack \<and> a = ua_client_address args) \<or>
         (\<exists>task buf th request. worker_at i s = Opening task buf th \<and> ua_pkt (task_args task) = ua_pkt args \<and>
            retrieve_header (ua_pkt args) = Inr request \<and> a = exit_address request)))) \<and>
    (\<forall>fd b. call = Send fd b \<longrightarrow>
      (\<exists>i task buf th args. ev = Takes_turn i \<and> worker_at i s = Opening task buf th \<and>
        args \<in> set (exit_handed s) \<and> ua_pkt (task_args task) = ua_pkt args)))"
proof -
  have ok: "exit_crew_ok s" using exit_crew_ok_reachable [OF assms(1) _ assms(2)] by simp
  note at = exit_crew_ok_at [OF ok]
  obtain new where new: "calls (exit_proxy t) = calls (exit_proxy s) @ new"
    "\<forall>(call, v) \<in> set new. exit_calls s ev call"
    using exit_crew_ok_next [OF assms(1) ok assms(3)] by (auto simp: adds_def)
  have into: "\<exists>i prt request got th args reply. ev = Takes_turn i \<and> worker_at i s = Answering prt request got th \<and>
      args \<in> set (exit_handed s) \<and> retrieve_header (ua_pkt args) = Inr request \<and>
      b = sfc_header_bytes reply @ received_bytes got \<and> sfc_direction_flag reply = 1 \<and>
      same_connection (request \<lparr> sfc_p_id := 0 \<rparr>) reply"
    if call: "exit_calls s ev (Sendto fd b (Resolved a))" for fd b a
  proof -
    obtain i where i: "ev = Takes_turn i" using call by (cases ev) auto
    then obtain prt request got th path where w: "worker_at i s = Answering prt request got th"
      "b = sfc_header_bytes (reply_header request path) @ received_bytes got"
      using call by (cases "worker_at i s") (auto simp: hand_call_def opening_call_def)
    then show ?thesis
      using at [of i] i reply_header_direction reply_header_endpoints
      by (intro exI [of _ i] exI [of _ prt] exI [of _ request] exI [of _ got] exI [of _ th]) fastforce
  qed
  have plain: "\<exists>i args. ev = Takes_turn i \<and> args \<in> set (exit_handed s) \<and>
      ((\<exists>stack buf th. worker_at i s = Handing args stack buf th \<and>
          fd = ua_socket_fd args \<and> b = ack \<and> a = ua_client_address args) \<or>
       (\<exists>task buf th request. worker_at i s = Opening task buf th \<and> ua_pkt (task_args task) = ua_pkt args \<and>
          retrieve_header (ua_pkt args) = Inr request \<and> a = exit_address request))"
    if call: "exit_calls s ev (Sendto fd b (Ipv4 a))" for fd b a
  proof -
    obtain i where i: "ev = Takes_turn i" using call by (cases ev) auto
    then show ?thesis
      using call at [of i] by (cases "worker_at i s") (auto simp: hand_call_def opening_call_def)
  qed
  have stream: "\<exists>i task buf th args. ev = Takes_turn i \<and> worker_at i s = Opening task buf th \<and>
      args \<in> set (exit_handed s) \<and> ua_pkt (task_args task) = ua_pkt args"
    if call: "exit_calls s ev (Send fd b)" for fd b
  proof -
    obtain i where i: "ev = Takes_turn i" using call by (cases ev) auto
    then show ?thesis
      using call at [of i] by (cases "worker_at i s") (auto simp: hand_call_def)
  qed
  show ?thesis
    using into plain stream new(2) by (intro exI [of _ new] conjI new(1)) fast
qed

section \<open>A turn to try it on\<close>

lemma exit_run_changes:
  assumes "exit_run os L pton es s = Some t" "f s \<noteq> f t" "exit_reachable os L pton e s"
  shows "\<exists>ev u v. exit_reachable os L pton e u \<and> exit_next os L pton ev u = Some v \<and> f u \<noteq> f v"
  using assms
proof (induction es arbitrary: s)
  case (Cons ev es)
  then obtain u where u: "exit_next os L pton ev s = Some u" "exit_run os L pton es u = Some t"
    by (auto simp: bind_eq_Some_conv)
  show ?case
  proof (cases "f s = f u")
    case True
    then show ?thesis using Cons.IH [OF u(2)] Cons.prems(2,3) u(1) exit_reachable_next by metis
  qed (use u(1) Cons.prems(3) in blast)
qed simp

text \<open>The answer of the second of two threads goes into the chain.\<close>

lemma sample_answer_sent:
  obtains s t where
    "egress_reachable (sample_os [sample_addrinfo]) (answering_libs [sample_node]) (\<lambda>_. 0) sample_endpoint s"
    "egress_next (sample_os [sample_addrinfo]) (answering_libs [sample_node]) (\<lambda>_. 0)
      (Receives 1 (Data sample_datagram)) s = Some t"
    "chain_messages (calls (egress_proxy t)) \<noteq> chain_messages (calls (egress_proxy s))"
proof -
  let ?os = "sample_os [sample_addrinfo]" and ?L = "answering_libs [sample_node]"
  let ?reply = "sfc_header_bytes (reply_header (sample_request 2) sample_path) @ sample_datagram"
  let ?C = "sends_if (\<lambda>b d. \<exists>a. d = Resolved a)"
  obtain s where s: "egress_reachable ?os ?L (\<lambda>_. 0) sample_endpoint s"
    "exit_threads s = [Replies UDP (sample_request 1) sample_arrays, Replies UDP (sample_request 2) sample_arrays]"
    "\<not> egress_ended s" "roulette (base (egress_proxy s)) \<noteq> None"
    "chain_table (chains (base (egress_proxy s)))"
    by (rule sample_threads)
  have at: "thread_at 1 s = Replies UDP (sample_request 2) sample_arrays" by (simp add: thread_at_def s(2))
  obtain p where p: "egress_next ?os ?L (\<lambda>_. 0) (Receives 1 (Data sample_datagram)) s =
      Some (s \<lparr> egress_proxy := p, egress_ended := False, exit_threads := (exit_threads s)[1 := Returned] \<rparr>)"
    "delivered (calls p) = delivered (calls (egress_proxy s)) @ [?reply]"
    by (rule udp_answer_step [OF at s(3) sample_datagram_ok(1,2) network_up_sample shapes_ok_answering
        s(5,4) service_up_answering sample_path_not_Nil])
  have "map_option egress_proxy (egress_next ?os ?L (\<lambda>_. 0) (Receives 1 (Data sample_datagram)) s) =
      Some (snd (reply_read ?os ?L UDP (sample_request 2) sample_arrays (Data sample_datagram) (egress_proxy s)))"
    using at s(3) sample_datagram_ok by (simp add: egress_next_def)
  then have "p = snd (reply_read ?os ?L UDP (sample_request 2) sample_arrays (Data sample_datagram) (egress_proxy s))"
    unfolding p(1) by simp
  moreover have "lets_client ?C m" for m by (rule lets_client_calls_if) simp
  ultimately have "adds ?C (calls (egress_proxy s)) (calls p)"
    using reply_read_sends(1) [OF shapes_ok_answering s(5)] by blast
  then obtain new where new: "calls p = calls (egress_proxy s) @ new" "\<forall>(c, v) \<in> set new. ?C c"
    by (auto simp: adds_def)
  have "?reply \<in> set (chain_messages new)"
    by (rule delivered_in_chain [OF new(2)]) (use p(2) new(1) in simp)
  then have "chain_messages (calls p) \<noteq> chain_messages (calls (egress_proxy s))" by (auto simp: new(1))
  then show thesis using that [OF s(1) p(1)] by simp
qed

theorem threads_answer_their_request_witness:
  "\<exists>s ev t call v i prt request got th.
    exit_reachable (sample_os [sample_addrinfo]) (answering_libs [sample_node]) (\<lambda>_. 0) sample_endpoint s \<and>
    exit_next (sample_os [sample_addrinfo]) (answering_libs [sample_node]) (\<lambda>_. 0) ev s = Some t \<and>
    (call, v) \<in> set (calls (exit_proxy t)) \<and> worker_at i s = Answering prt request got th \<and>
    (\<exists>fd reply a. call = Sendto fd (sfc_header_bytes reply @ received_bytes got) (Resolved a) \<and>
      sfc_direction_flag reply = 1)"
proof -
  let ?os = "sample_os [sample_addrinfo]" and ?L = "answering_libs [sample_node]"
  let ?f = "\<lambda>s. chain_messages (calls (exit_proxy s))"
  obtain s t where s: "egress_reachable ?os ?L (\<lambda>_. 0) sample_endpoint s"
    "egress_next ?os ?L (\<lambda>_. 0) (Receives 1 (Data sample_datagram)) s = Some t"
    "chain_messages (calls (egress_proxy t)) \<noteq> chain_messages (calls (egress_proxy s))"
    by (rule sample_answer_sent)
  obtain es where "exit_run ?os ?L (\<lambda>_. 0) es (exit_crew_of ?os ?L (\<lambda>_. 0) s) = Some (exit_crew_of ?os ?L (\<lambda>_. 0) t)"
    using exit_crew_of_next [OF s(2)] by blast
  moreover have "?f (exit_crew_of ?os ?L (\<lambda>_. 0) s) \<noteq> ?f (exit_crew_of ?os ?L (\<lambda>_. 0) t)"
    using s(3) by (simp add: exit_crew_of_def)
  ultimately obtain ev u w where u: "exit_reachable ?os ?L (\<lambda>_. 0) sample_endpoint u"
    "exit_next ?os ?L (\<lambda>_. 0) ev u = Some w" "?f u \<noteq> ?f w"
    using exit_run_changes [of ?os ?L _ _ _ _ ?f] exit_crew_of_reachable [OF s(1)] by blast
  obtain new where new: "calls (exit_proxy w) = calls (exit_proxy u) @ new" and
    into: "\<And>fd b a v. (Sendto fd b (Resolved a), v) \<in> set new \<Longrightarrow>
      \<exists>i prt request got th reply. worker_at i u = Answering prt request got th \<and>
        b = sfc_header_bytes reply @ received_bytes got \<and> sfc_direction_flag reply = 1"
    using threads_answer_their_request [OF shapes_ok_answering u(1) [unfolded sample_endpoint_def] u(2)] by fast
  have "chain_messages new \<noteq> []" using u(3) by (simp add: new)
  then obtain x where x: "x \<in> set new" "chain_message x \<noteq> []" by (auto simp: chain_messages_def)
  then obtain fd b a v where "(Sendto fd b (Resolved a), v) \<in> set new" by (cases x rule: chain_message.cases) auto
  moreover from into [OF this] obtain i prt request got th reply where
    "worker_at i u = Answering prt request got th" "b = sfc_header_bytes reply @ received_bytes got"
    "sfc_direction_flag reply = 1" by blast
  ultimately show ?thesis using u(1,2) new by fastforce
qed

end
