(* ===== verification/Ingress_Sessions.thy ===== *)
theory Ingress_Sessions
  imports Ingress
begin

text \<open>
  The TCP handler of src/src/endpoint/ingress.cpp, read by read: the thread of a connection is a value
  that one result of recv takes to the next, so the threads of different connections can be interleaved
  at the calls at which they block. Taken read by read it is the handler of Ingress.
\<close>

section \<open>The thread of a connection\<close>

record session =
  ss_fd :: socket_fd
  ss_client :: sockaddr_in
  ss_locals :: tcp_locals

definition new_session :: "socket_fd \<Rightarrow> sockaddr_in \<Rightarrow> byte list \<Rightarrow> session" where
  "new_session fd client stack =
     \<lparr> ss_fd = fd, ss_client = client, ss_locals = first_locals stack \<rparr>"

text \<open>What follows the loop: after a disconnection the entry of the last headers is deleted.\<close>

definition after_loop :: "os_lib \<Rightarrow> 'j libs \<Rightarrow> bool \<Rightarrow> session \<Rightarrow> unit proxy_action" where
  "after_loop os L disconnected ss =
     (let c = ss_locals ss; (iph, tcph) = tl_headers c
      in bind_action
        (if disconnected
         then on_base (delete_entry L (entering_key (ip_saddr iph) (ip_daddr iph) (tcp_source tcph)
           (tcp_dest tcph) (tl_sfcid c) TCP))
         else return_action ()) (\<lambda>_.
        when_action (tl_db_error c) (on_sys (sys_do os (Close (ss_fd ss))))))"

text \<open>One result of recv. The value is the thread that waits for the next, or how it ended.\<close>

definition session_read :: "os_lib \<Rightarrow> 'j libs \<Rightarrow> session \<Rightarrow> received \<Rightarrow> (loop_end + session) proxy_action" where
  "session_read os L ss r =
     (case r of
        Receive_error \<Rightarrow> fail_action (Exit_process 1)
      | End_of_stream \<Rightarrow>
          bind_action (after_loop os L True ss) (\<lambda>_. return_action (Inl Disconnected))
      | Data bs \<Rightarrow>
          bind_action (entering_tcp_chunk os L (ss_fd ss) (ss_client ss) (ss_locals ss) bs) (\<lambda>(go_on, c).
          if go_on then return_action (Inr (ss \<lparr> ss_locals := c \<rparr>))
          else bind_action (after_loop os L False (ss \<lparr> ss_locals := c \<rparr>)) (\<lambda>_.
               return_action (Inl Stopped))))"

fun run_session :: "os_lib \<Rightarrow> 'j libs \<Rightarrow> session \<Rightarrow> received list \<Rightarrow> loop_end proxy_action" where
  "run_session os L ss [] = return_action Waiting"
| "run_session os L ss (r # rs) =
     bind_action (session_read os L ss r) (\<lambda>x. case x of
         Inl e \<Rightarrow> return_action e
       | Inr ss' \<Rightarrow> run_session os L ss' rs)"

section \<open>The threads are the handler\<close>

definition ends_handler :: "os_lib \<Rightarrow> 'j libs \<Rightarrow> socket_fd \<Rightarrow> sockaddr_in \<Rightarrow> loop_end \<times> tcp_locals \<Rightarrow>
    loop_end proxy_action" where
  "ends_handler os L fd client = (\<lambda>(e, c).
     if e = Waiting then return_action e
     else bind_action (after_loop os L (e = Disconnected) \<lparr> ss_fd = fd, ss_client = client, ss_locals = c \<rparr>)
       (\<lambda>_. return_action e))"

lemma loop_is_session:
  "bind_action (entering_tcp_loop os L fd client rs c) (ends_handler os L fd client) =
     run_session os L \<lparr> ss_fd = fd, ss_client = client, ss_locals = c \<rparr> rs"
proof (induction rs arbitrary: c)
  case Nil
  show ?case by (simp add: ends_handler_def action_laws del: return_action_apply)
next
  case (Cons r rs)
  note simps = session_read_def action_laws
  show ?case
  proof (cases r)
    case (Data bs)
    have "bind_action (if go_on then entering_tcp_loop os L fd client rs d else return_action (Stopped, d))
          (ends_handler os L fd client) =
        bind_action (if go_on then return_action (Inr \<lparr> ss_fd = fd, ss_client = client, ss_locals = d \<rparr>)
          else bind_action (after_loop os L False \<lparr> ss_fd = fd, ss_client = client, ss_locals = d \<rparr>)
            (\<lambda>_. return_action (Inl Stopped)))
        (\<lambda>x. case x of Inl e \<Rightarrow> return_action e | Inr ss \<Rightarrow> run_session os L ss rs)" for go_on d
      using Cons.IH by (cases go_on) (simp_all add: ends_handler_def action_laws del: return_action_apply)
    then show ?thesis
      by (simp add: Data simps split_def del: return_action_apply cong: if_cong)
  next
    case End_of_stream
    show ?thesis by (simp add: End_of_stream simps ends_handler_def del: return_action_apply)
  next
    case Receive_error
    show ?thesis by (simp add: Receive_error simps del: return_action_apply fail_action_apply)
  qed
qed

text \<open>On every list of results of recv, from every state, the two have the same value, effects and faults.\<close>

lemma handler_is_session:
  "manage_entering_tcp_packets os L fd client stack rs = run_session os L (new_session fd client stack) rs"
proof -
  have "manage_entering_tcp_packets os L fd client stack rs =
      bind_action (entering_tcp_loop os L fd client rs (first_locals stack)) (ends_handler os L fd client)"
    unfolding manage_entering_tcp_packets_def
    by (intro arg_cong [of _ _ "bind_action _"] ext)
      (auto simp: ends_handler_def after_loop_def bind_action_assoc Let_def split: prod.split)
  then show ?thesis by (simp add: loop_is_session new_session_def)
qed

text \<open>A handler that waits after its first read is a thread that waits.\<close>

lemma session_waits:
  assumes "manage_entering_tcp_packets os L fd client stack [Data b] s = (Inr Waiting, t)"
  obtains ss where "session_read os L (new_session fd client stack) (Data b) s = (Inr (Inr ss), t)"
    "ss_fd ss = fd" "ss_client ss = client"
proof -
  let ?ss = "new_session fd client stack"
  have run: "bind_action (session_read os L ?ss (Data b))
      (\<lambda>x. case x of Inl e \<Rightarrow> return_action e | Inr ss' \<Rightarrow> return_action Waiting) s = (Inr Waiting, t)"
    using assms by (simp add: handler_is_session)
  have waits: "session_read os L ?ss (Data b) s = (Inr (Inl e), u) \<Longrightarrow> e = Stopped" for e u
    by (auto simp: session_read_def bind_action_def split: prod.splits sum.splits if_splits)
  have fields: "session_read os L ?ss (Data b) s = (Inr (Inr ss), u) \<Longrightarrow> ss_fd ss = fd \<and> ss_client ss = client"
    for ss u
    by (auto simp: session_read_def bind_action_def new_session_def split: prod.splits sum.splits if_splits)
  show thesis
  proof (cases "session_read os L ?ss (Data b) s")
    case (Pair r u)
    then show ?thesis
      using run waits fields that by (cases r; cases "projr r") (fastforce simp: bind_action_def)+
  qed
qed

end
