(* ===== verification/Ingress_Threads.thy ===== *)
theory Ingress_Threads
  imports Client_Threads Ingress_Sessions
begin

text \<open>
  The handlers of src/src/endpoint/ingress.cpp at the grain at which their detached threads interleave:
  a turn is one operation on a shared table, one request to the route service or one system call.
  Alone, each thread is the handler of Ingress.
\<close>

section \<open>Endpoint and client, in turns\<close>

definition assign_remote :: "'j libs \<Rightarrow> connection_entry \<Rightarrow> string \<Rightarrow> unit endpoint_action" where
  "assign_remote L ce response s =
     (Inr (), s \<lparr> map_to_remote := map_assign ce_less (remote_shape L) [] (map_to_remote s) ce response \<rparr>)"

definition request_entry ::
    "'j libs \<Rightarrow> connection_entry \<Rightarrow> socket_fd \<Rightarrow> endpoint_type \<Rightarrow> protocol_type \<Rightarrow> string endpoint_action" where
  "request_entry L ce fd e p s =
     with_roulette (\<lambda>a. create_entry (lib_json L) (lib_http L) a (entry_query s ce fd e p)) s"

definition add_entry_thread ::
    "'j libs \<Rightarrow> connection_entry \<Rightarrow> socket_fd \<Rightarrow> sockaddr_in \<Rightarrow> endpoint_type \<Rightarrow> protocol_type \<Rightarrow>
     (proxy, unit) thread" where
  "add_entry_thread L ce fd sockin e p =
     bind_thread (turn (on_base (insert_connection L ce (fd, sockin)))) (\<lambda>_.
     bind_thread (turn (on_base (request_entry L ce fd e p))) (\<lambda>response.
     when_thread (response \<noteq> []) (turn (on_base (assign_remote L ce response)))))"

definition connection_known :: "connection_entry \<Rightarrow> bool endpoint_action" where
  "connection_known ce s = (Inr (map_find ce_less (connection_map s) ce \<noteq> None), s)"

definition erase_connection :: "'j libs \<Rightarrow> connection_entry \<Rightarrow> unit endpoint_action" where
  "erase_connection L ce s =
     (Inr (), s \<lparr> connection_map := map_erase ce_less (conn_shape L) (connection_map s) ce \<rparr>)"

definition get_remote :: "'j libs \<Rightarrow> connection_entry \<Rightarrow> string endpoint_action" where
  "get_remote L ce s =
     (case map_get ce_less (remote_shape L) [] (map_to_remote s) ce of
        (remote_id, remotes) \<Rightarrow> (Inr remote_id, s \<lparr> map_to_remote := remotes \<rparr>))"

definition request_delete :: "'j libs \<Rightarrow> string \<Rightarrow> bool endpoint_action" where
  "request_delete L remote_id =
     with_roulette (\<lambda>a. delete_db_entry (lib_json L) (lib_http L) a (c_str remote_id))"

definition erase_remote :: "'j libs \<Rightarrow> connection_entry \<Rightarrow> unit endpoint_action" where
  "erase_remote L ce s =
     (Inr (), s \<lparr> map_to_remote := map_erase ce_less (remote_shape L) (map_to_remote s) ce \<rparr>)"

definition delete_entry_thread :: "'j libs \<Rightarrow> connection_entry \<Rightarrow> (proxy, unit) thread" where
  "delete_entry_thread L ce =
     bind_thread (turn (on_base (connection_known ce))) (\<lambda>known.
     if known
     then bind_thread (turn (on_base (erase_connection L ce))) (\<lambda>_.
          bind_thread (turn (on_base (get_remote L ce))) (\<lambda>remote_id.
          bind_thread (turn (on_base (request_delete L remote_id))) (\<lambda>_.
          turn (on_base (erase_remote L ce)))))
     else Done (Inr ()))"

section \<open>The handlers, in turns\<close>

definition entering_udp_thread :: "os_lib \<Rightarrow> 'j libs \<Rightarrow> udp_pkt_mngmnt_args \<Rightarrow> (proxy, unit) thread" where
  "entering_udp_thread os L args =
     bind_thread (turn (on_base (classify L (ua_pkt args) (ua_pkt_len args)))) (\<lambda>sfcid.
     bind_thread (Done (retrieve_ip_udp_header (ua_pkt args))) (\<lambda>(iph, udph).
     bind_thread (add_entry_thread L
       (entering_key (ip_saddr iph) (ip_daddr iph) (udp_source udph) (udp_dest udph) sfcid UDP)
       (ua_socket_fd args) (ua_client_address args) INGRESS_T UDP) (\<lambda>_.
     bind_thread (turn (on_base (route_of_chain L sfcid))) (\<lambda>path.
     when_thread (path \<noteq> [])
       (into_chain_thread os sfcid (ip_saddr iph) (udp_source udph) (ip_daddr iph) (udp_dest udph) 0
          path (ua_pkt args) (ua_pkt_len args))))))"

definition entering_chunk_thread ::
    "os_lib \<Rightarrow> 'j libs \<Rightarrow> socket_fd \<Rightarrow> sockaddr_in \<Rightarrow> tcp_locals \<Rightarrow> byte list \<Rightarrow>
     (proxy, bool \<times> tcp_locals) thread" where
  "entering_chunk_thread os L fd client c bs =
     (let pkt = receive_into bs (tl_pkt c)
      in bind_thread (turn (on_base (classify L pkt (length bs)))) (\<lambda>sfcid.
         let c1 = c \<lparr> tl_pkt := pkt, tl_sfcid := sfcid \<rparr>
         in if tl_first_pkt c \<or> sfcid \<noteq> tl_prev_sfcid c
            then bind_thread (Done (retrieve_ip_tcp_header pkt)) (\<lambda>(iph, tcph).
              let c2 = c1 \<lparr> tl_headers := (iph, tcph) \<rparr>
              in catch_thread
                (bind_thread (add_entry_thread L
                  (entering_key (ip_saddr iph) (ip_daddr iph) (tcp_source tcph) (tcp_dest tcph)
                    sfcid TCP) fd client INGRESS_T TCP) (\<lambda>_.
                 bind_thread (turn (on_base (route_of_chain L sfcid))) (\<lambda>path.
                 if path \<noteq> []
                 then bind_thread (into_chain_thread os sfcid (ip_saddr iph) (tcp_source tcph)
                        (ip_daddr iph) (tcp_dest tcph) 0 path pkt (length bs)) (\<lambda>_.
                      Done (Inr (True, c2 \<lparr> tl_prev_sfcid := sfcid, tl_first_pkt := False \<rparr>)))
                 else Done (Inr (False, c2)))))
                (Done (Inr (True, c2 \<lparr> tl_db_error := True \<rparr>))))
            else Done (Inr (True, c1))))"

definition after_thread :: "os_lib \<Rightarrow> 'j libs \<Rightarrow> bool \<Rightarrow> session \<Rightarrow> (proxy, unit) thread" where
  "after_thread os L disconnected ss =
     (let c = ss_locals ss; (iph, tcph) = tl_headers c
      in bind_thread
        (when_thread disconnected
          (delete_entry_thread L (entering_key (ip_saddr iph) (ip_daddr iph) (tcp_source tcph)
            (tcp_dest tcph) (tl_sfcid c) TCP))) (\<lambda>_.
        when_thread (tl_db_error c) (do_turn os (Close (ss_fd ss)))))"

definition session_thread ::
    "os_lib \<Rightarrow> 'j libs \<Rightarrow> session \<Rightarrow> received \<Rightarrow> (proxy, loop_end + session) thread" where
  "session_thread os L ss r =
     (case r of
        Receive_error \<Rightarrow> Done (Inl (Exit_process 1))
      | End_of_stream \<Rightarrow>
          bind_thread (after_thread os L True ss) (\<lambda>_. Done (Inr (Inl Disconnected)))
      | Data bs \<Rightarrow>
          bind_thread (entering_chunk_thread os L (ss_fd ss) (ss_client ss) (ss_locals ss) bs) (\<lambda>(go_on, c).
          if go_on then Done (Inr (Inr (ss \<lparr> ss_locals := c \<rparr>)))
          else bind_thread (after_thread os L False (ss \<lparr> ss_locals := c \<rparr>)) (\<lambda>_.
               Done (Inr (Inl Stopped)))))"

text \<open>The connection is looked up in one turn; the other threads run before it is used.\<close>

definition from_chain_thread :: "os_lib \<Rightarrow> 'j libs \<Rightarrow> udp_pkt_mngmnt_args \<Rightarrow> (proxy, unit) thread" where
  "from_chain_thread os L args =
     (let pkt = ua_pkt args
      in bind_thread (do_turn os (Sendto (ua_socket_fd args) ack (Ipv4 (ua_client_address args)))) (\<lambda>_.
         bind_thread (Done (retrieve_header pkt)) (\<lambda>header.
         bind_thread (Done (retrieve_ip_header (drop header_size pkt))) (\<lambda>ip_hdr.
         let conn_type = (if ip_protocol ip_hdr = 6 then TCP else UDP)
         in bind_thread (turn (\<lambda>s. (Inr (retrieve_connection_2 (chain_key header conn_type) (base s)), s)))
              (\<lambda>(fd, addr).
            if conn_type = TCP
            then bind_thread (Done (tcp_packet_header_size (drop header_size pkt))) (\<lambda>n.
                 bind_thread (Done (payload_bytes pkt (ua_pkt_len args) (header_size + n))) (\<lambda>bytes.
                 bind_thread (call_turn os (Send fd bytes)) (\<lambda>resp_c.
                 if resp_c < 0 then Done (Inl (Exit_process 1))
                 else bind_thread (do_turn os (Shutdown fd 2)) (\<lambda>_. do_turn os (Close fd)))))
            else bind_thread (Done (udp_packet_header_size (drop header_size pkt))) (\<lambda>n.
                 bind_thread (Done (payload_bytes pkt (ua_pkt_len args) (header_size + n))) (\<lambda>bytes.
                 bind_thread (call_turn os (Sendto fd bytes (Ipv4 addr))) (\<lambda>resp_c.
                 if resp_c < 0 then Done (Inl (Exit_process 1))
                 else delete_entry_thread L (chain_key header UDP)))))))))"

section \<open>Alone they are the handlers\<close>

lemma run_add_entry [simp]: "run_alone (add_entry_thread L ce fd a e p) = on_base (add_entry L ce fd a e p)"
  by (auto simp: fun_eq_iff add_entry_thread_def add_entry_def bind_action_def insert_connection_def
      request_entry_def assign_remote_def entry_query_def own_endpoint_def get_my_ip_def on_base_def
      when_action_def split: prod.split sum.split)

lemma with_roulette_remotes: "with_roulette req s = (r, t) \<Longrightarrow> map_to_remote t = map_to_remote s"
  by (auto simp: with_roulette_def split: option.splits prod.splits)

lemma run_delete_entry [simp]: "run_alone (delete_entry_thread L ce) = on_base (delete_entry L ce)"
  by (auto simp: fun_eq_iff delete_entry_thread_def delete_entry_def bind_action_def connection_known_def
      erase_connection_def get_remote_def request_delete_def erase_remote_def on_base_def Let_def
      dest: with_roulette_remotes split: prod.split sum.split option.split)

lemma run_entering_udp: "run_alone (entering_udp_thread os L args) = manage_entering_udp_packets os L args"
  by (simp add: entering_udp_thread_def manage_entering_udp_packets_def run_Done when_action_def
      split_def del: run_alone.simps bind_thread.simps on_sys_apply on_base_apply)

lemma run_chunk [simp]:
  "run_alone (entering_chunk_thread os L fd client c bs) = entering_tcp_chunk os L fd client c bs"
  by (simp add: entering_chunk_thread_def entering_tcp_chunk_def run_Done lift_Inr Let_def split_def
      if_distrib [of run_alone] cong: if_cong del: run_alone.simps bind_thread.simps on_sys_apply on_base_apply)

lemma run_after [simp]: "run_alone (after_thread os L d ss) = after_loop os L d ss"
  by (simp add: after_thread_def after_loop_def when_action_def split_def Let_def
      del: on_sys_apply on_base_apply)

lemma run_session_thread: "run_alone (session_thread os L ss r) = session_read os L ss r"
  by (simp add: session_thread_def session_read_def run_Done lift_Inr split_def
      if_distrib [of run_alone] cong: if_cong del: run_alone.simps bind_thread.simps on_sys_apply on_base_apply split: received.split)

lemma run_from_chain: "run_alone (from_chain_thread os L args) = manage_pkt_from_chain os L args"
proof -
  have look: "bind_action (\<lambda>s. (Inr (g s), s)) k = (\<lambda>s. k (g s) s)" for g :: "proxy \<Rightarrow> 'x" and k :: "'x \<Rightarrow> unit proxy_action"
    by (simp add: fun_eq_iff bind_action_def)
  show ?thesis
    by (simp add: from_chain_thread_def manage_pkt_from_chain_def run_Done lift_Inr Let_def split_def look
        on_sys_bind if_distrib [of run_alone] cong: if_cong del: run_alone.simps bind_thread.simps on_sys_apply on_base_apply)
qed

end
