(* ===== verification/Ingress_System.thy ===== *)
theory Ingress_System
  imports Ingress_Sessions Call_Traces
begin

text \<open>
  A running Ingress: the endpoint, the threads of its TCP connections, and what the outside does to it
  in any order. A handler of a datagram is one step, a TCP thread takes one step for each result of
  recv. The process ends when a handler exits or an exception leaves its thread. \<open>asked\<close> records what
  clients sent, with the socket and the address it came from; it decides nothing.
\<close>

section \<open>State and steps\<close>

record ingress_system =
  ingress_proxy :: proxy
  sessions :: "session option list"
  ended :: bool
  asked :: "(byte list \<times> protocol_type \<times> sock_conn) list"

definition start_ingress :: "endpoint_state \<Rightarrow> sys_trace \<Rightarrow> ingress_system" where
  "start_ingress e t = \<lparr> ingress_proxy = \<lparr> base = e, calls = t \<rparr>, sessions = [], ended = False, asked = [] \<rparr>"

datatype ingress_event =
    Datagram udp_pkt_mngmnt_args
  | Accepted socket_fd sockaddr_in "byte list"
  | Reads nat received
  | From_chain udp_pkt_mngmnt_args

definition settle :: "'a result \<times> proxy \<Rightarrow> ingress_system \<Rightarrow> ingress_system" where
  "settle = (\<lambda>(r, p) s. s \<lparr> ingress_proxy := p, ended := isl r \<rparr>)"

definition session_asks :: "session \<Rightarrow> received \<Rightarrow> (byte list \<times> protocol_type \<times> sock_conn) list" where
  "session_asks ss r =
     (case r of
        Data bs \<Rightarrow> [(receive_into bs (tl_pkt (ss_locals ss)), TCP, (ss_fd ss, ss_client ss))]
      | _ \<Rightarrow> [])"

fun ingress_event_step :: "os_lib \<Rightarrow> 'j libs \<Rightarrow> ingress_event \<Rightarrow> ingress_system \<Rightarrow> ingress_system option" where
  "ingress_event_step os L (Datagram args) s =
     Some (settle (manage_entering_udp_packets os L args (ingress_proxy s))
       (s \<lparr> asked := asked s @ [(ua_pkt args, UDP, (ua_socket_fd args, ua_client_address args))] \<rparr>))"
| "ingress_event_step os L (Accepted fd client stack) s =
     Some (s \<lparr> sessions := sessions s @ [Some (new_session fd client stack)] \<rparr>)"
| "ingress_event_step os L (Reads i r) s =
     (case (if i < length (sessions s) then sessions s ! i else None) of
        None \<Rightarrow> None
      | Some ss \<Rightarrow>
          (let (res, p) = session_read os L ss r (ingress_proxy s)
           in Some (settle (res, p)
             (s \<lparr> sessions := (sessions s)[i := (case res of Inr (Inr ss') \<Rightarrow> Some ss' | _ \<Rightarrow> None)],
                asked := asked s @ session_asks ss r \<rparr>))))"
| "ingress_event_step os L (From_chain args) s =
     Some (settle (manage_pkt_from_chain os L args (ingress_proxy s)) s)"

text \<open>What the servers and recv hand over: at most a buffer, and at least a byte from recv.\<close>

fun event_fits :: "ingress_event \<Rightarrow> bool" where
  "event_fits (Datagram args) \<longleftrightarrow> length (ua_pkt args) = buffer_size \<and> ua_pkt_len args \<le> buffer_size"
| "event_fits (Accepted fd client stack) \<longleftrightarrow> length stack = buffer_size"
| "event_fits (Reads i r) \<longleftrightarrow> (\<forall>bs. r = Data bs \<longrightarrow> 0 < length bs \<and> length bs \<le> buffer_size)"
| "event_fits (From_chain args) \<longleftrightarrow> length (ua_pkt args) = buffer_size \<and> ua_pkt_len args \<le> buffer_size"

definition ingress_next :: "os_lib \<Rightarrow> 'j libs \<Rightarrow> ingress_event \<Rightarrow> ingress_system \<Rightarrow> ingress_system option" where
  "ingress_next os L e s = (if ended s \<or> \<not> event_fits e then None else ingress_event_step os L e s)"

inductive ingress_reachable :: "os_lib \<Rightarrow> 'j libs \<Rightarrow> endpoint_state \<Rightarrow> ingress_system \<Rightarrow> bool"
  for os L e where
  reachable_start: "ingress_reachable os L e (start_ingress e t)"
| reachable_next: "ingress_reachable os L e s \<Longrightarrow> ingress_next os L ev s = Some s' \<Longrightarrow> ingress_reachable os L e s'"

fun ingress_run :: "os_lib \<Rightarrow> 'j libs \<Rightarrow> ingress_event list \<Rightarrow> ingress_system \<Rightarrow> ingress_system option" where
  "ingress_run os L [] s = Some s"
| "ingress_run os L (e # es) s = Option.bind (ingress_next os L e s) (ingress_run os L es)"

lemma ingress_run_reachable:
  "ingress_run os L es s = Some s' \<Longrightarrow> ingress_reachable os L e s \<Longrightarrow> ingress_reachable os L e s'"
  by (induction es arbitrary: s) (auto simp: bind_eq_Some_conv intro: reachable_next)

section \<open>What clients asked for\<close>

text \<open>The key of a packet as the handlers make it; the classifier knows the chain 0 only.\<close>

definition packet_key :: "protocol_type \<Rightarrow> byte list \<Rightarrow> connection_entry option" where
  "packet_key p pkt =
     (case p of
        UDP \<Rightarrow> (case retrieve_ip_udp_header pkt of
            Inl _ \<Rightarrow> None
          | Inr (iph, udph) \<Rightarrow>
              Some (entering_key (ip_saddr iph) (ip_daddr iph) (udp_source udph) (udp_dest udph) ''0'' UDP))
      | TCP \<Rightarrow> (case retrieve_ip_tcp_header pkt of
            Inl _ \<Rightarrow> None
          | Inr (iph, tcph) \<Rightarrow>
              Some (entering_key (ip_saddr iph) (ip_daddr iph) (tcp_source tcph) (tcp_dest tcph) ''0'' TCP)))"

definition asked_entries ::
    "(byte list \<times> protocol_type \<times> sock_conn) list \<Rightarrow> (connection_entry \<times> sock_conn) set" where
  "asked_entries as = {(k, c). \<exists>pkt p. (pkt, p, c) \<in> set as \<and> packet_key p pkt = Some k}"

definition table_entries :: "endpoint_state \<Rightarrow> (connection_entry \<times> sock_conn) set" where
  "table_entries b = set (inorder (connection_map b))"

text \<open>The invariant of the endpoint under which handlers run.\<close>

definition holds_only :: "(connection_entry \<times> sock_conn) set \<Rightarrow> endpoint_state \<Rightarrow> bool" where
  "holds_only A b \<longleftrightarrow> chain_table (chains b) \<and> table_entries b \<subseteq> A"

definition session_ok :: "session \<Rightarrow> bool" where
  "session_ok ss \<longleftrightarrow> length (tl_pkt (ss_locals ss)) = buffer_size \<and>
     tl_sfcid (ss_locals ss) \<in> {[], ''0''} \<and>
     tl_prev_sfcid (ss_locals ss) = (if tl_first_pkt (ss_locals ss) then [] else ''0'')"

section \<open>Every operation keeps it\<close>

text \<open>The invariant, and what the operations since the trace t have sent.\<close>

abbreviation asked_only ::
    "(connection_entry \<times> sock_conn) set \<Rightarrow> (byte list \<Rightarrow> destination \<Rightarrow> bool) \<Rightarrow> sys_trace \<Rightarrow> proxy \<Rightarrow> bool" where
  "asked_only A P t s \<equiv> holds_only A (base s) \<and> adds (sends_if P) t (calls s)"

text \<open>What a client asks for may be in the table, and go into the chain behind a header of its own.\<close>

definition allowed ::
    "(connection_entry \<times> sock_conn) set \<Rightarrow> (byte list \<Rightarrow> destination \<Rightarrow> bool) \<Rightarrow>
     byte list \<times> protocol_type \<times> sock_conn \<Rightarrow> bool" where
  "allowed A P = (\<lambda>(pkt, p, c). \<forall>k. packet_key p pkt = Some k \<longrightarrow> (k, c) \<in> A \<and>
     (\<forall>h n a. chain_key h p = k \<longrightarrow> sfc_p_id h = 0 \<longrightarrow> P (sfc_header_bytes h @ take n pkt) (Resolved a)))"

lemma asked_base: "keeps_value (holds_only A) m Q \<Longrightarrow> keeps_value (asked_only A P t) (on_base m) Q"
  by (auto simp: keeps_value_def)

lemma asked_sys: "adding (sends_if P) m \<Longrightarrow> keeps_value (asked_only A P t) (on_sys m) (\<lambda>_. True)"
  by (auto simp: keeps_value_def adding_def intro: adds_trans)

lemma keeps_value_catch:
  assumes "keeps_value I m Q" "keeps_value I h Q"
  shows "keeps_value I (catch_failure m h) Q"
proof (unfold keeps_value_def, intro allI impI)
  fix s assume s: "I s"
  obtain r t where m: "m s = (r, t)" by (cases "m s")
  have t: "I t" "\<And>x. r = Inr x \<Longrightarrow> Q x" using assms(1) s m by (auto simp: keeps_value_def)
  show "I (snd (catch_failure m h s)) \<and> (\<forall>x. fst (catch_failure m h s) = Inr x \<longrightarrow> Q x)"
    using t assms(2) m
    by (auto simp: catch_failure_def keeps_value_def split: sum.split fault.split exn.split)
qed

lemma asked_classify:
  assumes "shapes_ok L"
  shows "keeps_value (holds_only A) (classify L pkt n) (\<lambda>x. x = ''0'')"
proof (unfold keeps_value_def, intro allI impI)
  fix b assume b: "holds_only A b"
  obtain r c where "classify L pkt n b = (r, b \<lparr> chains := c \<rparr>)" "chain_table c"
    "\<forall>x. r = Inr x \<longrightarrow> x = ''0''"
    using classify_any [OF assms] b unfolding holds_only_def by blast
  then show "holds_only A (snd (classify L pkt n b)) \<and>
      (\<forall>x. fst (classify L pkt n b) = Inr x \<longrightarrow> x = ''0'')"
    using b by (auto simp: holds_only_def table_entries_def)
qed

lemma asked_route: "keeps_value (holds_only A) (route_of_chain L sfcid) (\<lambda>_. True)"
  unfolding keeps_value_def
proof (intro allI impI conjI)
  fix b assume "holds_only A b"
  moreover obtain h where "snd (route_of_chain L sfcid b) = b \<lparr> http := h \<rparr>"
    using route_of_chain_frame by blast
  ultimately show "holds_only A (snd (route_of_chain L sfcid b))"
    by (simp add: holds_only_def table_entries_def)
qed simp

lemma asked_add:
  assumes "shapes_ok L" "(ce, fd, a) \<in> A"
  shows "keeps_value (holds_only A) (add_entry L ce fd a e p) (\<lambda>_. True)"
  unfolding keeps_value_def
proof (intro allI impI conjI)
  fix b assume "holds_only A b"
  moreover have "rebalances (conn_shape L)" using assms(1) by (simp add: shapes_ok_def)
  ultimately show "holds_only A (snd (add_entry L ce fd a e p b))"
    using map_insert_subset [of "conn_shape L" ce_less "connection_map b" ce "(fd, a)"] assms(2)
      add_entry_tables [of L ce fd a e p b] add_entry_chains [of L ce fd a e p b]
    by (auto simp: holds_only_def table_entries_def)
qed simp

lemma delete_entry_chains: "chains (snd (delete_entry L ce b)) = chains b"
proof (cases "map_find ce_less (connection_map b) ce")
  case (Some x)
  let ?m = "map_erase ce_less (conn_shape L) (connection_map b) ce"
  obtain i remotes where get: "map_get ce_less (remote_shape L) [] (map_to_remote b) ce = (i, remotes)"
    by fastforce
  obtain r t where "with_roulette (\<lambda>a. delete_db_entry (lib_json L) (lib_http L) a (c_str i))
      (b \<lparr> connection_map := ?m, map_to_remote := remotes \<rparr>) = (r, t)"
    "chains t = chains (b \<lparr> connection_map := ?m, map_to_remote := remotes \<rparr>)"
    by (rule with_roulette_cases)
  then show ?thesis
    using Some get by (cases r) (simp_all add: delete_entry_def bind_action_def Let_def)
qed (simp add: delete_entry_absent)

lemma asked_delete:
  assumes "shapes_ok L"
  shows "keeps_value (holds_only A) (delete_entry L ce) (\<lambda>_. True)"
  unfolding keeps_value_def
proof (intro allI impI conjI)
  fix b assume b: "holds_only A b"
  have reb: "rebalances (conn_shape L)" using assms by (simp add: shapes_ok_def)
  show "holds_only A (snd (delete_entry L ce b))"
  proof (cases "map_find ce_less (connection_map b) ce")
    case None
    then show ?thesis using b by (simp add: delete_entry_absent)
  next
    case (Some x)
    have "chains (snd (delete_entry L ce b)) = chains b" by (rule delete_entry_chains)
    then show ?thesis
      using map_erase_subset [OF reb, of ce_less "connection_map b" ce] b
        delete_entry_tables [OF Some refl, of L]
      by (auto simp: holds_only_def table_entries_def)
  qed
qed simp

lemma asked_send:
  assumes "\<And>a. P (sfc_header_bytes (chain_0_header saddr source daddr dest direction path) @ take n pkt) (Resolved a)"
  shows "keeps_value (asked_only A P t)
    (send_into_chain os ''0'' saddr source daddr dest direction path pkt n) (\<lambda>_. True)"
  using send_into_chain_adds [OF lets_client_calls_if [of P], OF assms]
  by (auto simp: keeps_value_def intro: adds_trans)

text \<open>The handlers, for what their client sent.\<close>

lemma asked_entering_udp:
  assumes "shapes_ok L" "allowed A P (ua_pkt args, UDP, ua_socket_fd args, ua_client_address args)"
  shows "keeps_value (asked_only A P t) (manage_entering_udp_packets os L args) (\<lambda>_. True)"
  unfolding manage_entering_udp_packets_def
  apply (rule keeps_value_bind [OF asked_base [OF asked_classify [OF assms(1)]]])
  apply (rule keeps_value_bind [OF keeps_value_lift [where Q = "\<lambda>h. retrieve_ip_udp_header (ua_pkt args) = Inr h"]])
   apply assumption
  apply (simp only: split_paired_all prod.case)
  apply (rule keeps_value_bind [OF asked_base [OF asked_add [OF assms(1)]]])
  using assms(2) apply (simp add: allowed_def packet_key_def)
  apply (rule keeps_value_bind [OF asked_base [OF asked_route]])
  apply (intro keeps_value_rules asked_send TrueI)
  using assms(2) apply (simp add: allowed_def packet_key_def chain_0_header_key chain_0_header_fields)
  done

lemma asked_chunk:
  assumes "shapes_ok L" "session_ok \<lparr> ss_fd = fd, ss_client = client, ss_locals = c \<rparr>" "length bs \<le> buffer_size"
    and "allowed A P (receive_into bs (tl_pkt c), TCP, fd, client)"
  shows "keeps_value (asked_only A P t) (entering_tcp_chunk os L fd client c bs)
    (\<lambda>(go_on, d). session_ok \<lparr> ss_fd = fd, ss_client = client, ss_locals = d \<rparr>)"
proof -
  let ?pkt = "receive_into bs (tl_pkt c)"
  have len: "length ?pkt = buffer_size"
    using assms(2,3) by (simp add: session_ok_def receive_into_def)
  note ok = len assms(2) [unfolded session_ok_def]
  note asks = assms(4) [unfolded allowed_def prod.case packet_key_def protocol_type.case]
  show ?thesis
    unfolding entering_tcp_chunk_def Let_def
    apply (rule keeps_value_bind [OF asked_base [OF asked_classify [OF assms(1)]]])
    apply (rule keeps_value_if)
     apply (rule keeps_value_bind [OF keeps_value_lift [where Q = "\<lambda>h. retrieve_ip_tcp_header ?pkt = Inr h"]])
      apply assumption
     apply (simp only: split_paired_all prod.case)
     apply (rule keeps_value_catch)
      apply (rule keeps_value_bind [OF asked_base [OF asked_add [OF assms(1)]]])
    using asks apply simp
      apply (rule keeps_value_bind [OF asked_base [OF asked_route]])
      apply (rule keeps_value_if)
       apply (rule keeps_value_bind [OF asked_send])
    using asks apply (simp add: chain_0_header_key chain_0_header_fields)
    using ok by (auto intro!: keeps_value_return simp: session_ok_def split: if_splits)
qed

lemma asked_after: "shapes_ok L \<Longrightarrow> keeps_value (asked_only A P t) (after_loop os L d ss) (\<lambda>_. True)"
  unfolding after_loop_def Let_def when_action_def split_def
  by (intro keeps_value_bind [where Q = "\<lambda>_. True"] keeps_value_rules asked_base asked_delete asked_sys
      adding_sys) simp_all

lemma asked_session:
  assumes "shapes_ok L" "session_ok ss" "\<And>bs. r = Data bs \<Longrightarrow> length bs \<le> buffer_size"
    and "\<And>x. x \<in> set (session_asks ss r) \<Longrightarrow> allowed A P x"
  shows "keeps_value (asked_only A P t) (session_read os L ss r)
    (\<lambda>x. case x of Inl _ \<Rightarrow> True | Inr ss' \<Rightarrow> session_ok ss')"
proof (cases r)
  case (Data bs)
  have "allowed A P (receive_into bs (tl_pkt (ss_locals ss)), TCP, ss_fd ss, ss_client ss)"
    using assms(4) by (simp add: Data session_asks_def)
  moreover have "session_ok \<lparr> ss_fd = ss_fd ss, ss_client = ss_client ss, ss_locals = ss_locals ss \<rparr>"
    using assms(2) by (simp add: session_ok_def)
  ultimately have "keeps_value (asked_only A P t)
      (entering_tcp_chunk os L (ss_fd ss) (ss_client ss) (ss_locals ss) bs)
      (\<lambda>(go_on, d). session_ok \<lparr> ss_fd = ss_fd ss, ss_client = ss_client ss, ss_locals = d \<rparr>)"
    using asked_chunk [OF assms(1)] assms(3) [OF Data] by blast
  then show ?thesis
    unfolding Data session_read_def received.case
    apply (rule keeps_value_bind)
    apply (simp only: split_paired_all prod.case)
    apply (rule keeps_value_if)
     apply (rule keeps_value_return, simp add: session_ok_def)
    apply (rule keeps_value_bind [OF asked_after [OF assms(1)]])
    apply (rule keeps_value_return, simp)
    done
next
  case End_of_stream
  show ?thesis
    unfolding End_of_stream session_read_def received.case
    by (rule keeps_value_bind [OF asked_after [OF assms(1)]]) (rule keeps_value_return, simp)
qed (simp add: session_read_def keeps_value_def)

section \<open>Packets from the chain\<close>

fun goes_to :: "sock_conn \<Rightarrow> sys_call \<Rightarrow> bool" where
  "goes_to c (Sendto fd b d) \<longleftrightarrow> fd = fst c \<and> d = Ipv4 (snd c)"
| "goes_to c (Send fd b) \<longleftrightarrow> fd = fst c"
| "goes_to c (Shutdown fd how) \<longleftrightarrow> fd = fst c"
| "goes_to c (Close fd) \<longleftrightarrow> fd = fst c"
| "goes_to c _ \<longleftrightarrow> False"

text \<open>After the acknowledgement the handler touches one connection only, the one it finds for its key.\<close>

lemma from_chain_calls:
  fixes args :: udp_pkt_mngmnt_args
  assumes "manage_pkt_from_chain os L args s = (r, t)"
  obtains a new where
    "calls t = calls s @ (Sendto (ua_socket_fd args) ack (Ipv4 (ua_client_address args)), a) # new"
    "new \<noteq> [] \<longrightarrow> (\<exists>h prt. retrieve_header (ua_pkt args) = Inr h \<and>
       (\<forall>(c, v) \<in> set new. goes_to (retrieve_connection_2 (chain_key h prt) (base s)) c))"
    "base t = base s \<or> (\<exists>k. base t = snd (delete_entry L k (base s)))"
proof -
  let ?pkt = "ua_pkt args" and ?inner = "drop header_size (ua_pkt args)"
  let ?ack = "Sendto (ua_socket_fd args) ack (Ipv4 (ua_client_address args))"
  let ?a = "os_ret os (calls s) ?ack"
  let ?s1 = "s \<lparr> calls := calls s @ [(?ack, ?a)] \<rparr>"
  have t: "t = snd (manage_pkt_from_chain os L args s)" using assms by simp
  note handler = t manage_pkt_from_chain_def bind_action_def Let_def
  consider f where "retrieve_header ?pkt = Inl f"
    | h f where "retrieve_header ?pkt = Inr h" "retrieve_ip_header ?inner = Inl f"
    | h ip where "retrieve_header ?pkt = Inr h" "retrieve_ip_header ?inner = Inr ip"
    by (cases "retrieve_header ?pkt"; cases "retrieve_ip_header ?inner") auto
  then show thesis
  proof cases
    case (3 h ip)
    let ?prt = "if ip_protocol ip = 6 then TCP else UDP"
    obtain fd addr where c: "retrieve_connection_2 (chain_key h ?prt) (base s) = (fd, addr)" by fastforce
    let ?n = "if ?prt = TCP then tcp_packet_header_size ?inner else udp_packet_header_size ?inner"
    have "\<exists>new. calls t = calls s @ (?ack, ?a) # new \<and> (\<forall>(c, v) \<in> set new. goes_to (fd, addr) c) \<and>
        (base t = base s \<or> (\<exists>k. base t = snd (delete_entry L k (base s))))"
      using 3 c
      by (cases ?n; cases "payload_bytes ?pkt (ua_pkt_len args) (header_size + projr ?n)")
        (auto simp: handler split: if_splits)
    then show thesis using that 3 c by metis
  qed (use that assms in \<open>auto simp: manage_pkt_from_chain_def bind_action_def Let_def\<close>)
qed

lemma asked_from_chain:
  assumes "shapes_ok L" "\<And>b a. P b (Ipv4 a)"
  shows "keeps_value (asked_only A P t) (manage_pkt_from_chain os L args) (\<lambda>_. True)"
  unfolding keeps_value_def
proof (intro allI impI)
  fix s assume s: "asked_only A P t s"
  obtain r u where run: "manage_pkt_from_chain os L args s = (r, u)" by fastforce
  then obtain a new where new:
    "calls u = calls s @ (Sendto (ua_socket_fd args) ack (Ipv4 (ua_client_address args)), a) # new"
    "new \<noteq> [] \<longrightarrow> (\<exists>h prt. retrieve_header (ua_pkt args) = Inr h \<and>
       (\<forall>(c, v) \<in> set new. goes_to (retrieve_connection_2 (chain_key h prt) (base s)) c))"
    "base u = base s \<or> (\<exists>k. base u = snd (delete_entry L k (base s)))"
    by (rule from_chain_calls)
  have "goes_to c call \<Longrightarrow> sends_if P call" for c call
    using assms(2) by (cases call) auto
  then have "\<forall>(c, v) \<in> set new. sends_if P c" using new(2) by (cases new) fastforce+
  then have "adds (sends_if P) (calls s) (calls u)"
    unfolding new(1) adds_def
    by (intro exI [of _ "(Sendto (ua_socket_fd args) ack (Ipv4 (ua_client_address args)), a) # new"])
      (use assms(2) in simp)
  moreover have "holds_only A (base u)"
    using keeps_valueD(1) [OF asked_delete [OF assms(1)]] s new(3) by auto
  ultimately show "asked_only A P t (snd (manage_pkt_from_chain os L args s)) \<and>
      (\<forall>x. fst (manage_pkt_from_chain os L args s) = Inr x \<longrightarrow> True)"
    using s run by (auto intro: adds_trans)
qed

section \<open>Every reachable state\<close>

definition system_ok :: "ingress_system \<Rightarrow> bool" where
  "system_ok s \<longleftrightarrow> holds_only (asked_entries (asked s)) (base (ingress_proxy s)) \<and>
     (\<forall>ss. Some ss \<in> set (sessions s) \<longrightarrow> session_ok ss)"

text \<open>What may go into the chain for these clients.\<close>

definition asked_messages ::
    "(byte list \<times> protocol_type \<times> sock_conn) list \<Rightarrow> byte list \<Rightarrow> destination \<Rightarrow> bool" where
  "asked_messages as b d \<longleftrightarrow> (\<forall>a. d = Resolved a \<longrightarrow> (\<exists>pkt p c h n. (pkt, p, c) \<in> set as \<and>
     packet_key p pkt = Some (chain_key h p) \<and> sfc_p_id h = 0 \<and> b = sfc_header_bytes h @ take n pkt))"

lemma asked_allowed: "x \<in> set as \<Longrightarrow> allowed (asked_entries as) (asked_messages as) x"
  by (cases x) (fastforce simp: allowed_def asked_entries_def asked_messages_def)

lemma asked_entries_append [simp]: "asked_entries (as @ bs) = asked_entries as \<union> asked_entries bs"
  by (auto simp: asked_entries_def)

lemma holds_only_mono: "holds_only A b \<Longrightarrow> A \<subseteq> B \<Longrightarrow> holds_only B b"
  by (auto simp: holds_only_def)

lemma session_ok_new: "length stack = buffer_size \<Longrightarrow> session_ok (new_session fd client stack)"
  by (simp add: session_ok_def new_session_def first_locals_def)

text \<open>A read of a session, for what the client has sent with it.\<close>

lemma read_ok:
  fixes s :: proxy
  assumes "shapes_ok L" "session_ok ss" "event_fits (Reads i r)"
    and "set (session_asks ss r) \<subseteq> set as" "holds_only (asked_entries as) (base s)"
    and "session_read os L ss r s = (res, p)"
  shows "holds_only (asked_entries as) (base p) \<and> adds (sends_if (asked_messages as)) (calls s) (calls p) \<and>
    (\<forall>ss'. res = Inr (Inr ss') \<longrightarrow> session_ok ss')"
proof -
  have kept: "keeps_value (asked_only (asked_entries as) (asked_messages as) (calls s))
      (session_read os L ss r) (\<lambda>x. case x of Inl _ \<Rightarrow> True | Inr ss' \<Rightarrow> session_ok ss')"
    using assms(3,4) by (intro asked_session [OF assms(1,2)] asked_allowed) auto
  have s: "asked_only (asked_entries as) (asked_messages as) (calls s) s" using assms(5) by simp
  have "session_ok ss'" if "res = Inr (Inr ss')" for ss'
    using keeps_valueD(2) [OF kept s] assms(6) that by fastforce
  then show ?thesis using keeps_valueD(1) [OF kept s] assms(6) by simp
qed

text \<open>A step keeps the invariant, and what it sends into the chain some client asked for.\<close>

lemma system_ok_next:
  assumes "shapes_ok L" "system_ok s" "ingress_next os L ev s = Some s'"
  shows "system_ok s' \<and>
    adds (sends_if (asked_messages (asked s'))) (calls (ingress_proxy s)) (calls (ingress_proxy s'))"
proof -
  have step: "ingress_event_step os L ev s = Some s'" and fits: "event_fits ev"
    using assms(3) by (auto simp: ingress_next_def split: if_splits)
  have s: "asked_only (asked_entries (asked s @ X)) P (calls (ingress_proxy s)) (ingress_proxy s)" for X P
    using assms(2) by (auto simp: system_ok_def intro: holds_only_mono)
  have ss: "Some ss \<in> set (sessions s) \<Longrightarrow> session_ok ss" for ss
    using assms(2) by (simp add: system_ok_def)
  show ?thesis
  proof (cases ev)
    case (Datagram args)
    let ?as = "asked s @ [(ua_pkt args, UDP, ua_socket_fd args, ua_client_address args)]"
    have "asked_only (asked_entries ?as) (asked_messages ?as) (calls (ingress_proxy s))
        (snd (manage_entering_udp_packets os L args (ingress_proxy s)))"
      by (rule keeps_valueD(1) [OF asked_entering_udp [OF assms(1) asked_allowed] s]) simp
    then show ?thesis
      using step ss Datagram by (auto simp: settle_def system_ok_def split: prod.splits)
  next
    case (Accepted fd client stack)
    then show ?thesis
      using step fits ss s [of "[]"] session_ok_new by (auto simp: system_ok_def)
  next
    case (Reads i r)
    then obtain ss where i: "i < length (sessions s)" "sessions s ! i = Some ss"
      using step by (auto split: if_splits option.splits)
    have ok: "session_ok ss" using i ss [of ss] by (metis nth_mem)
    let ?as = "asked s @ session_asks ss r"
    obtain res p where run: "session_read os L ss r (ingress_proxy s) = (res, p)" by fastforce
    have "s' = settle (res, p) (s \<lparr> sessions := (sessions s)[i := (case res of
        Inr (Inr ss') \<Rightarrow> Some ss' | _ \<Rightarrow> None)], asked := ?as \<rparr>)"
      using step i run Reads by simp
    then show ?thesis
      using read_ok [OF assms(1) ok fits [unfolded Reads] _ conjunct1 [OF s] run, of "session_asks ss r"] ss
      by (auto simp: settle_def system_ok_def dest!: update_set_member split: sum.splits)
  next
    case (From_chain args)
    have "asked_only (asked_entries (asked s)) (asked_messages (asked s)) (calls (ingress_proxy s))
        (snd (manage_pkt_from_chain os L args (ingress_proxy s)))"
      by (rule keeps_valueD(1) [OF asked_from_chain [OF assms(1)]])
        (use s [of "[]"] in \<open>simp_all add: asked_messages_def\<close>)
    then show ?thesis
      using step ss From_chain by (auto simp: settle_def system_ok_def split: prod.splits)
  qed
qed

lemma system_ok_reachable:
  assumes "shapes_ok L" "chain_table (chains e)" "connection_map e = Leaf"
  shows "ingress_reachable os L e s \<Longrightarrow> system_ok s"
proof (induction rule: ingress_reachable.induct)
  case (reachable_start t)
  show ?case
    using assms by (simp add: system_ok_def start_ingress_def holds_only_def table_entries_def)
qed (use system_ok_next [OF assms(1)] in blast)

lemmas reachable_ok = system_ok_reachable [where e = "new_endpoint interfaces Leaf remote h external internal"
    for interfaces remote h external internal, simplified]

text \<open>A lookup finds nothing, or what the table holds for exactly this key.\<close>

lemma retrieve_held:
  assumes "holds_only A b"
  shows "retrieve_connection_2 k b = no_connection \<or> (k, retrieve_connection_2 k b) \<in> A"
proof (cases "map_find ce_less (connection_map b) k")
  case (Some e)
  have "e \<in> table_entries b \<and> fst e = k"
    unfolding table_entries_def by (rule map_find_sound [OF ce_less_total Some])
  then have "e \<in> A" "e = (k, snd e)" using assms by (auto simp: holds_only_def)
  then show ?thesis using Some by (metis (no_types, lifting) option.case(2) retrieve_connection_2_def)
qed (simp add: retrieve_connection_2_def)

lemma packet_key_protocol: "packet_key p pkt = Some k \<Longrightarrow> ce_prt k = p \<and> ce_sfcid k = ''0''"
  by (auto simp: packet_key_def entering_key_def new_entry_def split: protocol_type.splits sum.splits)

text \<open>
  C14: What every state of a running Ingress looks like, however its handlers and connections interleave,
  whatever clients, the chain, the route service and the system do. The map of the classifier holds
  nothing but the two chains; every entry of the table has chain 0 and the key of a packet that some
  client sent, with the very socket and address it came from; and every waiting TCP thread has a full
  buffer, chain "0" or none, and has forgotten the previous chain exactly as long as nothing of its
  stream has been forwarded.
\<close>
theorem ingress_state_typed:
  assumes "shapes_ok L"
    and "ingress_reachable os L (new_endpoint interfaces Leaf remote h external internal) s"
  shows "chain_table (chains (base (ingress_proxy s))) \<and>
    (\<forall>(k, c) \<in> set (inorder (connection_map (base (ingress_proxy s)))). ce_sfcid k = ''0'' \<and>
      (\<exists>pkt. (pkt, ce_prt k, c) \<in> set (asked s) \<and> packet_key (ce_prt k) pkt = Some k)) \<and>
    (\<forall>ss. Some ss \<in> set (sessions s) \<longrightarrow> length (tl_pkt (ss_locals ss)) = buffer_size \<and>
      tl_sfcid (ss_locals ss) \<in> {[], ''0''} \<and>
      tl_prev_sfcid (ss_locals ss) = (if tl_first_pkt (ss_locals ss) then [] else ''0''))"
proof -
  note ok = reachable_ok [OF assms, unfolded system_ok_def holds_only_def table_entries_def]
  have "ce_sfcid k = ''0'' \<and> (\<exists>pkt. (pkt, ce_prt k, c) \<in> set (asked s) \<and> packet_key (ce_prt k) pkt = Some k)"
    if "(k, c) \<in> set (inorder (connection_map (base (ingress_proxy s))))" for k c
  proof -
    have "(k, c) \<in> asked_entries (asked s)" using ok that by (simp only: subset_iff)
    then obtain pkt p where "(pkt, p, c) \<in> set (asked s)" "packet_key p pkt = Some k"
      by (auto simp: asked_entries_def)
    then show ?thesis using packet_key_protocol [of p pkt k] by auto
  qed
  then show ?thesis using ok by (auto simp: session_ok_def)
qed

text \<open>
  C4: An answer reaches only who asked. In every reachable state, whatever a packet from the chain
  says, its handler acknowledges it and then sends, shuts down and closes at most one connection:
  none at all (descriptor -1), or one that sent Ingress a packet with exactly the addresses and
  ports that the packet's header names. No order of the keys and no good behaviour of anyone is
  assumed. A connection is meant here as Ingress records it, by its descriptor and address.
\<close>
theorem answers_reach_asker:
  assumes "shapes_ok L"
    and "ingress_reachable os L (new_endpoint interfaces Leaf remote h external internal) s"
    and "ingress_next os L (From_chain args) s = Some t"
  shows "\<exists>a new. calls (ingress_proxy t) = calls (ingress_proxy s) @
      (Sendto (ua_socket_fd args) ack (Ipv4 (ua_client_address args)), a) # new \<and>
    (new \<noteq> [] \<longrightarrow> (\<exists>header prt c. retrieve_header (ua_pkt args) = Inr header \<and>
      (\<forall>(call, r) \<in> set new. goes_to c call) \<and>
      (c = no_connection \<or>
       (\<exists>pkt. (pkt, prt, c) \<in> set (asked s) \<and> packet_key prt pkt = Some (chain_key header prt)))))"
proof -
  note ok = conjunct1 [OF reachable_ok [OF assms(1,2), unfolded system_ok_def]]
  obtain r p where run: "manage_pkt_from_chain os L args (ingress_proxy s) = (r, p)" by fastforce
  then have p: "ingress_proxy t = p"
    using assms(3) by (auto simp: ingress_next_def settle_def split: if_splits)
  from run obtain a new where
    "calls p = calls (ingress_proxy s) @ (Sendto (ua_socket_fd args) ack (Ipv4 (ua_client_address args)), a) # new"
    "new \<noteq> [] \<longrightarrow> (\<exists>header prt. retrieve_header (ua_pkt args) = Inr header \<and> (\<forall>(c, v) \<in> set new.
       goes_to (retrieve_connection_2 (chain_key header prt) (base (ingress_proxy s))) c))"
    by (rule from_chain_calls)
  moreover have "retrieve_connection_2 k b = no_connection \<or> (\<exists>pkt. (pkt, ce_prt k, retrieve_connection_2 k b)
      \<in> set (asked s) \<and> packet_key (ce_prt k) pkt = Some k)" if b: "b = base (ingress_proxy s)" for k b
    using retrieve_held [OF ok, of k] b packet_key_protocol by (fastforce simp: asked_entries_def)
  moreover have "ce_prt (chain_key header prt) = prt" for header prt
    by (simp add: chain_key_def new_entry_def)
  ultimately show ?thesis unfolding p by metis
qed

end
