(* ===== verification/Ingress_Crew.thy ===== *)
theory Ingress_Crew
  imports Ingress_Threads Ingress_System
begin

text \<open>
  Ingress with the threads of its handlers: each datagram, each packet of the chain and each read of a
  connection is a thread, and any of them may take the next turn. The runs of Ingress_System are those
  in which a thread is not interrupted before it blocks.
\<close>

section \<open>State and steps\<close>

datatype job = For_client | For_chain udp_pkt_mngmnt_args

datatype desk = Waits session | Serves "(proxy, loop_end + session) thread" | Gone

record crew =
  crew_proxy :: proxy
  clerks :: "(job \<times> (proxy, unit) thread) list"
  desks :: "desk list"
  crew_ended :: bool
  crew_asked :: "(byte list \<times> protocol_type \<times> sock_conn) list"

definition start_crew :: "endpoint_state \<Rightarrow> sys_trace \<Rightarrow> crew" where
  "start_crew e t =
     \<lparr> crew_proxy = \<lparr> base = e, calls = t \<rparr>, clerks = [], desks = [], crew_ended = False, crew_asked = [] \<rparr>"

text \<open>A received packet starts a thread; a thread takes a turn, or ends, with its process if at a fault.\<close>

datatype crew_event =
    Starts_on ingress_event
  | Clerk_turn nat
  | Desk_turn nat

fun crew_starts :: "os_lib \<Rightarrow> 'j libs \<Rightarrow> ingress_event \<Rightarrow> crew \<Rightarrow> crew option" where
  "crew_starts os L (Datagram args) s =
     Some (s \<lparr> clerks := clerks s @ [(For_client, entering_udp_thread os L args)],
       crew_asked := crew_asked s @ [(ua_pkt args, UDP, (ua_socket_fd args, ua_client_address args))] \<rparr>)"
| "crew_starts os L (Accepted fd client stack) s =
     Some (s \<lparr> desks := desks s @ [Waits (new_session fd client stack)] \<rparr>)"
| "crew_starts os L (Reads i r) s =
     (case (if i < length (desks s) then desks s ! i else Gone) of
        Waits ss \<Rightarrow> Some (s \<lparr> desks := (desks s)[i := Serves (session_thread os L ss r)],
          crew_asked := crew_asked s @ session_asks ss r \<rparr>)
      | _ \<Rightarrow> None)"
| "crew_starts os L (From_chain args) s =
     Some (s \<lparr> clerks := clerks s @ [(For_chain args, from_chain_thread os L args)] \<rparr>)"

definition clerk_turn :: "nat \<Rightarrow> crew \<Rightarrow> crew option" where
  "clerk_turn i s =
     (if length (clerks s) \<le> i then None
      else case clerks s ! i of
          (job, Done r) \<Rightarrow>
            Some (s \<lparr> clerks := take i (clerks s) @ drop (Suc i) (clerks s), crew_ended := isl r \<rparr>)
        | (job, Turn f) \<Rightarrow>
            (let (th, p) = f (crew_proxy s)
             in Some (s \<lparr> clerks := (clerks s)[i := (job, th)], crew_proxy := p \<rparr>)))"

definition desk_turn :: "nat \<Rightarrow> crew \<Rightarrow> crew option" where
  "desk_turn i s =
     (case (if i < length (desks s) then desks s ! i else Gone) of
        Serves (Done r) \<Rightarrow>
          Some (s \<lparr> desks := (desks s)[i := (case r of Inr (Inr ss) \<Rightarrow> Waits ss | _ \<Rightarrow> Gone)],
            crew_ended := isl r \<rparr>)
      | Serves (Turn f) \<Rightarrow>
          (let (th, p) = f (crew_proxy s)
           in Some (s \<lparr> desks := (desks s)[i := Serves th], crew_proxy := p \<rparr>))
      | _ \<Rightarrow> None)"

fun crew_next :: "os_lib \<Rightarrow> 'j libs \<Rightarrow> crew_event \<Rightarrow> crew \<Rightarrow> crew option" where
  "crew_next os L (Starts_on ev) s = (if crew_ended s \<or> \<not> event_fits ev then None else crew_starts os L ev s)"
| "crew_next os L (Clerk_turn i) s = (if crew_ended s then None else clerk_turn i s)"
| "crew_next os L (Desk_turn i) s = (if crew_ended s then None else desk_turn i s)"

inductive crew_reachable :: "os_lib \<Rightarrow> 'j libs \<Rightarrow> endpoint_state \<Rightarrow> crew \<Rightarrow> bool"
  for os L e where
  crew_reachable_start: "crew_reachable os L e (start_crew e t)"
| crew_reachable_next: "crew_reachable os L e s \<Longrightarrow> crew_next os L ev s = Some s' \<Longrightarrow> crew_reachable os L e s'"

fun crew_run :: "os_lib \<Rightarrow> 'j libs \<Rightarrow> crew_event list \<Rightarrow> crew \<Rightarrow> crew option" where
  "crew_run os L [] s = Some s"
| "crew_run os L (e # es) s = Option.bind (crew_next os L e s) (crew_run os L es)"

lemma crew_run_append:
  "crew_run os L es s = Some t \<Longrightarrow> crew_run os L fs t = Some u \<Longrightarrow> crew_run os L (es @ fs) s = Some u"
  by (induction es arbitrary: s) (auto simp: bind_eq_Some_conv)

lemma crew_run_reachable:
  "crew_run os L es s = Some s' \<Longrightarrow> crew_reachable os L e s \<Longrightarrow> crew_reachable os L e s'"
  by (induction es arbitrary: s) (auto simp: bind_eq_Some_conv intro: crew_reachable_next)

section \<open>Threads that are not interrupted\<close>

fun desk_of :: "session option \<Rightarrow> desk" where
  "desk_of None = Gone"
| "desk_of (Some ss) = Waits ss"

definition crew_of :: "ingress_system \<Rightarrow> crew" where
  "crew_of s =
     \<lparr> crew_proxy = ingress_proxy s, clerks = [], desks = map desk_of (sessions s), crew_ended = ended s,
       crew_asked = asked s \<rparr>"

lemma clerk_alone:
  assumes "clerks s = [(job, th)]" "\<not> crew_ended s"
  shows "\<exists>n. crew_run os L (replicate n (Clerk_turn 0)) s = Some (s \<lparr> clerks := [],
    crew_proxy := snd (run_alone th (crew_proxy s)), crew_ended := isl (fst (run_alone th (crew_proxy s))) \<rparr>)"
  using assms
proof (induction th arbitrary: s)
  case (Done r)
  then show ?case by (intro exI [of _ 1]) (simp add: clerk_turn_def)
next
  case (Turn f)
  obtain th p where f: "f (crew_proxy s) = (th, p)" by fastforce
  let ?s = "s \<lparr> clerks := [(job, th)], crew_proxy := p \<rparr>"
  have "th \<in> Basic_BNFs.fsts (f (crew_proxy s))" by (simp add: f Basic_BNFs.fsts.simps)
  from Turn.IH [OF rangeI this, of ?s] obtain n where
    "crew_run os L (replicate n (Clerk_turn 0)) ?s = Some (?s \<lparr> clerks := [],
      crew_proxy := snd (run_alone th p), crew_ended := isl (fst (run_alone th p)) \<rparr>)"
    using Turn.prems by auto
  then show ?case
    using Turn.prems f by (intro exI [of _ "Suc n"]) (simp add: clerk_turn_def)
qed

lemma desk_alone:
  assumes "i < length (desks s)" "desks s ! i = Serves th" "\<not> crew_ended s"
  shows "\<exists>n. crew_run os L (replicate n (Desk_turn i)) s = Some (s \<lparr> desks := (desks s)[i :=
      (case fst (run_alone th (crew_proxy s)) of Inr (Inr ss) \<Rightarrow> Waits ss | _ \<Rightarrow> Gone)],
    crew_proxy := snd (run_alone th (crew_proxy s)), crew_ended := isl (fst (run_alone th (crew_proxy s))) \<rparr>)"
  using assms
proof (induction th arbitrary: s)
  case (Done r)
  then show ?case by (intro exI [of _ 1]) (simp add: desk_turn_def)
next
  case (Turn f)
  obtain th p where f: "f (crew_proxy s) = (th, p)" by fastforce
  let ?s = "s \<lparr> desks := (desks s)[i := Serves th], crew_proxy := p \<rparr>"
  have "th \<in> Basic_BNFs.fsts (f (crew_proxy s))" by (simp add: f Basic_BNFs.fsts.simps)
  from Turn.IH [OF rangeI this, of ?s] obtain n where
    "crew_run os L (replicate n (Desk_turn i)) ?s = Some (?s \<lparr> desks := (desks ?s)[i :=
        (case fst (run_alone th p) of Inr (Inr ss) \<Rightarrow> Waits ss | _ \<Rightarrow> Gone)],
      crew_proxy := snd (run_alone th p), crew_ended := isl (fst (run_alone th p)) \<rparr>)"
    using Turn.prems by auto
  then show ?case
    using Turn.prems f by (intro exI [of _ "Suc n"]) (simp add: desk_turn_def)
qed

section \<open>The coarser runs\<close>

fun received_events :: "crew_event list \<Rightarrow> ingress_event list" where
  "received_events [] = []"
| "received_events (Starts_on ev # es) = ev # received_events es"
| "received_events (e # es) = received_events es"

lemma received_append [simp]: "received_events (es @ fs) = received_events es @ received_events fs"
  by (induction es rule: received_events.induct) simp_all

lemma received_turns [simp]:
  "received_events (replicate n (Clerk_turn i)) = []" "received_events (replicate n (Desk_turn i)) = []"
  by (induction n) simp_all

lemma crew_of_next:
  assumes "ingress_next os L ev s = Some s'"
  shows "\<exists>es. crew_run os L (Starts_on ev # es) (crew_of s) = Some (crew_of s') \<and> received_events es = []"
proof -
  have step: "ingress_event_step os L ev s = Some s'" and fits: "event_fits ev" and on: "\<not> ended s"
    using assms by (auto simp: ingress_next_def split: if_splits)
  let ?first = "crew_next os L (Starts_on ev) (crew_of s)"
  have then_turns: ?thesis
    if "?first = Some t" "crew_run os L es t = Some (crew_of s')" "received_events es = []" for t es
    using that by (intro exI [of _ es]) simp
  have clerk: ?thesis
    if "?first = Some t" "clerks t = [(job, th)]" "\<not> crew_ended t"
      "crew_of s' = t \<lparr> clerks := [], crew_proxy := snd (run_alone th (crew_proxy t)),
        crew_ended := isl (fst (run_alone th (crew_proxy t))) \<rparr>" for t job th
    using clerk_alone [OF that(2,3), of os L] then_turns [OF that(1)] that(4) by fastforce
  show ?thesis
  proof (cases ev)
    case (Datagram args)
    then show ?thesis
      using step fits on
      by (intro clerk) (auto simp: crew_of_def run_entering_udp settle_def split: prod.splits)
  next
    case (Accepted fd client stack)
    then show ?thesis
      using step fits on by (intro then_turns [of _ "[]"]) (auto simp: crew_of_def)
  next
    case (From_chain args)
    then show ?thesis
      using step fits on
      by (intro clerk) (auto simp: crew_of_def run_from_chain settle_def split: prod.splits)
  next
    case (Reads i r)
    then obtain ss where i: "i < length (sessions s)" "sessions s ! i = Some ss"
      using step by (auto split: if_splits option.splits)
    let ?t = "crew_of s \<lparr> desks := (desks (crew_of s))[i := Serves (session_thread os L ss r)],
      crew_asked := asked s @ session_asks ss r \<rparr>"
    have t: "?first = Some ?t"
      using Reads fits on i by (simp add: crew_of_def del: event_fits.simps)
    have "i < length (desks ?t)" "desks ?t ! i = Serves (session_thread os L ss r)" "\<not> crew_ended ?t"
      using i(1) on by (simp_all add: crew_of_def)
    from desk_alone [OF this, of os L] obtain n where
      "crew_run os L (replicate n (Desk_turn i)) ?t = Some (?t \<lparr> desks := (desks ?t)[i :=
          (case fst (session_read os L ss r (ingress_proxy s)) of Inr (Inr ss) \<Rightarrow> Waits ss | _ \<Rightarrow> Gone)],
        crew_proxy := snd (session_read os L ss r (ingress_proxy s)),
        crew_ended := isl (fst (session_read os L ss r (ingress_proxy s))) \<rparr>)"
      by (auto simp: run_session_thread crew_of_def)
    moreover have "\<dots> = Some (crew_of s')"
      using step i Reads
      by (auto simp: crew_of_def settle_def map_update split: sum.splits prod.splits)
    ultimately show ?thesis using then_turns [OF t] by fastforce
  qed
qed

text \<open>
  The finer model has the runs of the coarser one: what Ingress does when each handler runs without
  an interruption up to the next call at which it blocks is a run of the threads, with the same packets
  and reads in the same order and the same calls, tables and connections at its end.
\<close>
lemma uninterrupted_runs:
  assumes "ingress_run os L evs s = Some s'"
  shows "\<exists>es. crew_run os L es (crew_of s) = Some (crew_of s') \<and> received_events es = evs"
  using assms
proof (induction evs arbitrary: s)
  case Nil
  then show ?case by (intro exI [of _ "[]"]) simp
next
  case (Cons ev evs)
  then obtain t where t: "ingress_next os L ev s = Some t" "ingress_run os L evs t = Some s'"
    by (auto simp: bind_eq_Some_conv)
  obtain es fs where "crew_run os L (Starts_on ev # es) (crew_of s) = Some (crew_of t)" "received_events es = []"
    "crew_run os L fs (crew_of t) = Some (crew_of s')" "received_events fs = evs"
    using crew_of_next [OF t(1)] Cons.IH [OF t(2)] by blast
  then show ?case using crew_run_append by (intro exI [of _ "(Starts_on ev # es) @ fs"]) fastforce
qed

lemma crew_of_reachable: "ingress_reachable os L e s \<Longrightarrow> crew_reachable os L e (crew_of s)"
proof (induction rule: ingress_reachable.induct)
  case (reachable_start t)
  have "crew_of (start_ingress e t) = start_crew e t"
    by (simp add: crew_of_def start_ingress_def start_crew_def)
  then show ?case by (simp add: crew_reachable_start)
next
  case (reachable_next s ev s')
  then show ?case using crew_of_next crew_run_reachable by blast
qed

end
