(* ===== verification/Crew_Safety.thy ===== *)
theory Crew_Safety
  imports Ingress_Crew
begin

text \<open>
  What the threads of Ingress do to the tables and call on the system, whatever the others do between
  their turns. The facts on the handlers are those of Ingress_System, taken turn by turn.
\<close>

section \<open>Pieces of the handlers\<close>

text \<open>The entries of the table are those of A, and the calls are in C.\<close>

abbreviation keeps_asked ::
    "(connection_entry \<times> sock_conn) set \<Rightarrow> (sys_call \<Rightarrow> bool) \<Rightarrow> ('a \<Rightarrow> bool) \<Rightarrow> (proxy, 'a) thread \<Rightarrow> bool" where
  "keeps_asked A \<equiv> keeps_calls (holds_only A)"

lemma add_keeps:
  assumes "shapes_ok L" "(ce, fd, a) \<in> A"
  shows "keeps_asked A C (\<lambda>_. True) (add_entry_thread L ce fd a e p)"
proof -
  have "keeps_value (holds_only A) (insert_connection L ce (fd, a)) (\<lambda>_. True)"
    using map_insert_subset [of "conn_shape L" ce_less _ ce "(fd, a)"] assms
    by (intro keeps_value_pure)
      (fastforce simp: holds_only_def table_entries_def insert_connection_def shapes_ok_def)
  moreover have "keeps_value (holds_only A) (request_entry L ce fd e p) (\<lambda>_. True)"
    by (intro keeps_value_pure) (simp add: holds_only_def table_entries_def request_entry_def)
  moreover have "keeps_value (holds_only A) (assign_remote L ce x) (\<lambda>_. True)" for x
    by (intro keeps_value_pure) (simp add: holds_only_def table_entries_def assign_remote_def)
  ultimately show ?thesis
    unfolding add_entry_thread_def
    by (intro thread_keeps_bind [where Q = "\<lambda>_. True"] thread_rules turn_base TrueI)
qed

lemma delete_keeps:
  assumes "shapes_ok L"
  shows "keeps_asked A C (\<lambda>_. True) (delete_entry_thread L ce)"
proof -
  have "keeps_value (holds_only A) (connection_known ce) (\<lambda>_. True)"
    by (intro keeps_value_pure) (simp add: connection_known_def)
  moreover have "keeps_value (holds_only A) (erase_connection L ce) (\<lambda>_. True)"
    using map_erase_subset [of "conn_shape L" ce_less _ ce] assms
    by (intro keeps_value_pure)
      (fastforce simp: holds_only_def table_entries_def erase_connection_def shapes_ok_def)
  moreover have "keeps_value (holds_only A) (get_remote L ce) (\<lambda>_. True)"
    by (intro keeps_value_pure) (simp add: holds_only_def table_entries_def get_remote_def split: prod.split)
  moreover have "keeps_value (holds_only A) (request_delete L x) (\<lambda>_. True)" for x
    by (intro keeps_value_pure) (simp add: holds_only_def table_entries_def request_delete_def)
  moreover have "keeps_value (holds_only A) (erase_remote L ce) (\<lambda>_. True)"
    by (intro keeps_value_pure) (simp add: holds_only_def table_entries_def erase_remote_def)
  ultimately show ?thesis
    unfolding delete_entry_thread_def
    by (intro thread_keeps_bind [where Q = "\<lambda>_. True"] thread_rules turn_base TrueI)
qed

lemma lookup_keeps:
  "keeps_asked A C (\<lambda>c. c = no_connection \<or> (k, c) \<in> A)
     (turn (\<lambda>s. (Inr (retrieve_connection_2 k (base s)), s)))"
  by (rule thread_keeps_turn) (auto dest: retrieve_held [of _ _ k])

section \<open>The handlers\<close>

text \<open>The calls of the handlers of clients, and of the one for a packet of the chain.\<close>

fun client_call :: "(byte list \<times> protocol_type \<times> sock_conn) list \<Rightarrow> sys_call \<Rightarrow> bool" where
  "client_call as (Sendto fd b d) \<longleftrightarrow> (\<exists>a. d = Resolved a) \<and> asked_messages as b d"
| "client_call as (Send fd b) \<longleftrightarrow> False"
| "client_call as _ \<longleftrightarrow> True"

definition answer_call ::
    "udp_pkt_mngmnt_args \<Rightarrow> (connection_entry \<times> sock_conn) set \<Rightarrow> sys_call \<Rightarrow> bool" where
  "answer_call args A call \<longleftrightarrow>
     call = Sendto (ua_socket_fd args) ack (Ipv4 (ua_client_address args)) \<or>
     (\<exists>h prt c. retrieve_header (ua_pkt args) = Inr h \<and> goes_to c call \<and>
       (c = no_connection \<or> (chain_key h prt, c) \<in> A))"

lemma lets_client_call: "(\<And>a. asked_messages as m (Resolved a)) \<Longrightarrow> lets_client (client_call as) m"
  by (simp add: lets_client_def)

lemma entering_udp_keeps:
  assumes "shapes_ok L" "(ua_pkt args, UDP, ua_socket_fd args, ua_client_address args) \<in> set as"
  shows "keeps_asked (asked_entries as) (client_call as) (\<lambda>_. True) (entering_udp_thread os L args)"
proof -
  note asks = asked_allowed [OF assms(2), unfolded allowed_def prod.case packet_key_def protocol_type.case]
  show ?thesis
    unfolding entering_udp_thread_def
    apply (rule thread_keeps_bind [OF turn_base [OF asked_classify [OF assms(1)]]])
    apply (rule thread_keeps_bind [OF thread_lift])
    apply (simp only: split_paired_all prod.case)
    apply (rule thread_keeps_bind [OF add_keeps [OF assms(1)]])
    using asks apply simp
    apply (rule thread_keeps_bind [OF turn_base [OF asked_route]])
    apply (intro thread_rules into_chain_keeps lets_client_call TrueI)
    using asks apply (simp add: chain_0_header_key chain_0_header_fields)
    done
qed

lemma chunk_keeps:
  assumes "shapes_ok L" "session_ok \<lparr> ss_fd = fd, ss_client = client, ss_locals = c \<rparr>" "length bs \<le> buffer_size"
    and "(receive_into bs (tl_pkt c), TCP, fd, client) \<in> set as"
  shows "keeps_asked (asked_entries as) (client_call as)
    (\<lambda>(go_on, d). session_ok \<lparr> ss_fd = fd, ss_client = client, ss_locals = d \<rparr>)
    (entering_chunk_thread os L fd client c bs)"
proof -
  let ?pkt = "receive_into bs (tl_pkt c)"
  have len: "length ?pkt = buffer_size"
    using assms(2,3) by (simp add: session_ok_def receive_into_def)
  note ok = len assms(2) [unfolded session_ok_def]
  note asks = asked_allowed [OF assms(4), unfolded allowed_def prod.case packet_key_def protocol_type.case]
  show ?thesis
    unfolding entering_chunk_thread_def Let_def
    apply (rule thread_keeps_bind [OF turn_base [OF asked_classify [OF assms(1)]]])
    apply (rule thread_keeps_if)
     apply (rule thread_keeps_bind [OF thread_lift])
     apply (simp only: split_paired_all prod.case)
     apply (rule thread_keeps_catch)
      apply (rule thread_keeps_bind [OF add_keeps [OF assms(1)]])
    using asks apply simp
      apply (rule thread_keeps_bind [OF turn_base [OF asked_route]])
      apply (rule thread_keeps_if)
       apply (rule thread_keeps_bind [OF into_chain_keeps [OF lets_client_call]])
    using asks apply (simp add: chain_0_header_key chain_0_header_fields)
    using ok by (auto intro!: thread_return simp: session_ok_def split: if_splits)
qed

lemma after_keeps:
  assumes "shapes_ok L" "\<And>fd. C (Close fd)"
  shows "keeps_asked A C (\<lambda>_. True) (after_thread os L d ss)"
  unfolding after_thread_def Let_def split_def
  by (intro thread_keeps_bind [where Q = "\<lambda>_. True"] thread_rules delete_keeps assms TrueI)

lemma session_keeps:
  assumes "shapes_ok L" "session_ok ss" "event_fits (Reads i r)" "set (session_asks ss r) \<subseteq> set as"
  shows "keeps_asked (asked_entries as) (client_call as)
    (\<lambda>x. case x of Inl _ \<Rightarrow> True | Inr ss' \<Rightarrow> session_ok ss') (session_thread os L ss r)"
proof (cases r)
  case (Data bs)
  have "session_ok \<lparr> ss_fd = ss_fd ss, ss_client = ss_client ss, ss_locals = ss_locals ss \<rparr>"
    using assms(2) by (simp add: session_ok_def)
  moreover have "(receive_into bs (tl_pkt (ss_locals ss)), TCP, ss_fd ss, ss_client ss) \<in> set as"
    using assms(4) by (simp add: Data session_asks_def)
  ultimately have "keeps_asked (asked_entries as) (client_call as)
      (\<lambda>(go_on, d). session_ok \<lparr> ss_fd = ss_fd ss, ss_client = ss_client ss, ss_locals = d \<rparr>)
      (entering_chunk_thread os L (ss_fd ss) (ss_client ss) (ss_locals ss) bs)"
    using chunk_keeps [OF assms(1)] assms(3) Data by simp
  then show ?thesis
    unfolding Data session_thread_def received.case
    apply (rule thread_keeps_bind)
    apply (simp only: split_paired_all prod.case)
    apply (rule thread_keeps_if)
     apply (rule thread_return, simp add: session_ok_def)
    apply (rule thread_keeps_bind [OF after_keeps [OF assms(1)]])
     apply simp
    apply (rule thread_return, simp)
    done
next
  case End_of_stream
  show ?thesis
    unfolding End_of_stream session_thread_def received.case
    by (rule thread_keeps_bind [OF after_keeps [OF assms(1)]]) (simp_all add: thread_return)
qed (simp add: session_thread_def thread_fault)

lemma from_chain_keeps:
  assumes "shapes_ok L"
  shows "keeps_asked A (answer_call args A) (\<lambda>_. True) (from_chain_thread os L args)"
proof -
  have goes: "answer_call args A call"
    if "retrieve_header (ua_pkt args) = Inr h" "c = no_connection \<or> (chain_key h prt, c) \<in> A" "goes_to c call"
    for h prt c call
    using that unfolding answer_call_def by blast
  show ?thesis
    unfolding from_chain_thread_def Let_def
    apply (rule thread_keeps_bind [OF turn_call(2)])
     apply (simp add: answer_call_def)
    apply (rule thread_keeps_bind [OF thread_lift])
    apply (rule thread_keeps_bind [OF thread_any])
    apply (rule thread_keeps_bind [OF lookup_keeps])
    apply (simp only: split_paired_all prod.case)
    apply (intro thread_keeps_if thread_keeps_bind [OF thread_any] thread_keeps_bind [OF turn_call(1)]
        thread_keeps_bind [OF turn_call(2)] turn_call thread_fault delete_keeps assms)
    apply (rule goes, assumption, assumption, simp)+
    done
qed

section \<open>Every reachable state\<close>

text \<open>What a thread does, for all the lists of requests that its own is a part of.\<close>

definition job_calls :: "job \<Rightarrow> (byte list \<times> protocol_type \<times> sock_conn) list \<Rightarrow> sys_call \<Rightarrow> bool" where
  "job_calls job as = (case job of For_client \<Rightarrow> client_call as | For_chain args \<Rightarrow> answer_call args (asked_entries as))"

definition clerk_ok :: "(byte list \<times> protocol_type \<times> sock_conn) list \<Rightarrow> job \<times> (proxy, unit) thread \<Rightarrow> bool" where
  "clerk_ok as = (\<lambda>(job, th). \<forall>bs. keeps_asked (asked_entries (as @ bs)) (job_calls job (as @ bs)) (\<lambda>_. True) th)"

fun desk_ok :: "(byte list \<times> protocol_type \<times> sock_conn) list \<Rightarrow> desk \<Rightarrow> bool" where
  "desk_ok as (Waits ss) \<longleftrightarrow> session_ok ss"
| "desk_ok as (Serves th) \<longleftrightarrow> (\<forall>bs. keeps_asked (asked_entries (as @ bs)) (client_call (as @ bs))
     (\<lambda>x. case x of Inl _ \<Rightarrow> True | Inr ss \<Rightarrow> session_ok ss) th)"
| "desk_ok as Gone \<longleftrightarrow> True"

lemma clerk_ok_mono: "clerk_ok as c \<Longrightarrow> clerk_ok (as @ bs) c"
  by (auto simp: clerk_ok_def simp del: asked_entries_append)

lemma desk_ok_mono: "desk_ok as d \<Longrightarrow> desk_ok (as @ bs) d"
  by (cases d) (auto simp del: asked_entries_append)

definition crew_ok :: "crew \<Rightarrow> bool" where
  "crew_ok s \<longleftrightarrow> holds_only (asked_entries (crew_asked s)) (base (crew_proxy s)) \<and>
     (\<forall>c \<in> set (clerks s). clerk_ok (crew_asked s) c) \<and> (\<forall>d \<in> set (desks s). desk_ok (crew_asked s) d)"

lemma asked_more: "holds_only (asked_entries as) b \<Longrightarrow> holds_only (asked_entries (as @ bs)) b"
  by (rule holds_only_mono) auto

lemma crew_ok_starts:
  assumes "shapes_ok L" "crew_ok s" "event_fits ev" "crew_starts os L ev s = Some s'"
  shows "crew_ok s' \<and> crew_proxy s' = crew_proxy s"
proof (cases ev)
  case (Datagram args)
  have "clerk_ok (crew_asked s @ [(ua_pkt args, UDP, ua_socket_fd args, ua_client_address args)])
      (For_client, entering_udp_thread os L args)"
    by (auto simp: clerk_ok_def job_calls_def simp del: asked_entries_append
        intro!: entering_udp_keeps [OF assms(1)])
  then show ?thesis
    using assms(2,4) Datagram asked_more clerk_ok_mono desk_ok_mono
    by (auto simp: crew_ok_def simp del: asked_entries_append)
next
  case (Accepted fd client stack)
  then show ?thesis using assms session_ok_new by (auto simp: crew_ok_def)
next
  case (From_chain args)
  have "clerk_ok (crew_asked s) (For_chain args, from_chain_thread os L args)"
    using from_chain_keeps [OF assms(1)] by (simp add: clerk_ok_def job_calls_def)
  then show ?thesis using assms(2,4) From_chain by (auto simp: crew_ok_def)
next
  case (Reads i r)
  then obtain ss where ss: "i < length (desks s)" "desks s ! i = Waits ss"
    "s' = s \<lparr> desks := (desks s)[i := Serves (session_thread os L ss r)],
      crew_asked := crew_asked s @ session_asks ss r \<rparr>"
    using assms(4) by (auto split: if_splits desk.splits)
  then have "session_ok ss" using assms(2) by (metis crew_ok_def desk_ok.simps(1) nth_mem)
  then have "desk_ok (crew_asked s @ session_asks ss r) (Serves (session_thread os L ss r))"
    using assms(3) Reads by (auto simp del: event_fits.simps asked_entries_append intro!: session_keeps [OF assms(1)])
  then show ?thesis
    using assms(2) ss(3) asked_more clerk_ok_mono desk_ok_mono
    by (auto simp: crew_ok_def simp del: asked_entries_append dest!: update_set_member)
qed

lemma crew_ok_clerk:
  assumes "crew_ok s" "clerk_turn i s = Some s'"
  shows "crew_ok s' \<and> crew_asked s' = crew_asked s \<and> (\<exists>job th. clerks s ! i = (job, th) \<and>
    adds (job_calls job (crew_asked s)) (calls (crew_proxy s)) (calls (crew_proxy s')))"
proof -
  obtain job th where c: "i < length (clerks s)" "clerks s ! i = (job, th)"
    using assms(2) by (cases "clerks s ! i") (auto simp: clerk_turn_def split: if_splits)
  then have ok: "keeps_asked (asked_entries (crew_asked s @ bs)) (job_calls job (crew_asked s @ bs)) (\<lambda>_. True) th"
    for bs using assms(1) nth_mem unfolding crew_ok_def clerk_ok_def by fastforce
  have p: "holds_only (asked_entries (crew_asked s @ bs)) (base (crew_proxy s))" for bs
    using assms(1) asked_more by (simp only: crew_ok_def)
  show ?thesis
  proof (cases th)
    case (Done r)
    then have "s' = s \<lparr> clerks := take i (clerks s) @ drop (Suc i) (clerks s), crew_ended := isl r \<rparr>"
      using assms(2) c by (simp add: clerk_turn_def)
    then show ?thesis using assms(1) c by (auto simp: crew_ok_def dest!: in_set_takeD in_set_dropD)
  next
    case (Turn f)
    obtain u q where f: "f (crew_proxy s) = (u, q)" by fastforce
    then have s': "s' = s \<lparr> clerks := (clerks s)[i := (job, u)], crew_proxy := q \<rparr>"
      using assms(2) c Turn by (simp add: clerk_turn_def)
    have "holds_only (asked_entries (crew_asked s @ bs)) (base q) \<and>
        adds (job_calls job (crew_asked s @ bs)) (calls (crew_proxy s)) (calls q) \<and>
        keeps_asked (asked_entries (crew_asked s @ bs)) (job_calls job (crew_asked s @ bs)) (\<lambda>_. True) u" for bs
      using ok [of bs] p [of bs] f unfolding Turn by (elim keeps_TurnE) force
    then have "clerk_ok (crew_asked s) (job, u)" "holds_only (asked_entries (crew_asked s)) (base q)"
      "adds (job_calls job (crew_asked s)) (calls (crew_proxy s)) (calls q)"
      unfolding clerk_ok_def prod.case by (blast, metis append_Nil2, metis append_Nil2)
    then show ?thesis
      using assms(1) c unfolding s' by (auto simp: crew_ok_def dest!: update_set_member)
  qed
qed

lemma crew_ok_desk:
  assumes "crew_ok s" "desk_turn i s = Some s'"
  shows "crew_ok s' \<and> crew_asked s' = crew_asked s \<and>
    adds (client_call (crew_asked s)) (calls (crew_proxy s)) (calls (crew_proxy s'))"
proof -
  let ?Q = "\<lambda>x :: loop_end + session. case x of Inl _ \<Rightarrow> True | Inr ss \<Rightarrow> session_ok ss"
  obtain th where d: "i < length (desks s)" "desks s ! i = Serves th"
    using assms(2) by (auto simp: desk_turn_def split: if_splits desk.splits)
  then have "desk_ok (crew_asked s) (Serves th)" using assms(1) nth_mem by (metis crew_ok_def)
  then have ok: "keeps_asked (asked_entries (crew_asked s @ bs)) (client_call (crew_asked s @ bs)) ?Q th" for bs
    by (simp only: desk_ok.simps)
  have p: "holds_only (asked_entries (crew_asked s @ bs)) (base (crew_proxy s))" for bs
    using assms(1) asked_more by (simp only: crew_ok_def)
  show ?thesis
  proof (cases th)
    case (Done r)
    then have "s' = s \<lparr> desks := (desks s)[i := (case r of Inr (Inr ss) \<Rightarrow> Waits ss | _ \<Rightarrow> Gone)], crew_ended := isl r \<rparr>"
      using assms(2) d by (simp add: desk_turn_def)
    moreover have "session_ok ss" if "r = Inr (Inr ss)" for ss
      using ok [of "[]"] that unfolding Done by (elim keeps_DoneE) simp
    ultimately show ?thesis
      using assms(1) by (auto simp: crew_ok_def dest!: update_set_member split: sum.splits)
  next
    case (Turn f)
    obtain u q where f: "f (crew_proxy s) = (u, q)" by fastforce
    then have s': "s' = s \<lparr> desks := (desks s)[i := Serves u], crew_proxy := q \<rparr>"
      using assms(2) d Turn by (simp add: desk_turn_def)
    have "holds_only (asked_entries (crew_asked s @ bs)) (base q) \<and>
        adds (client_call (crew_asked s @ bs)) (calls (crew_proxy s)) (calls q) \<and>
        keeps_asked (asked_entries (crew_asked s @ bs)) (client_call (crew_asked s @ bs)) ?Q u" for bs
      using ok [of bs] p [of bs] f unfolding Turn by (elim keeps_TurnE) force
    then have "desk_ok (crew_asked s) (Serves u)" "holds_only (asked_entries (crew_asked s)) (base q)"
      "adds (client_call (crew_asked s)) (calls (crew_proxy s)) (calls q)"
      unfolding desk_ok.simps by (blast, metis append_Nil2, metis append_Nil2)
    then show ?thesis
      using assms(1) unfolding s' by (auto simp: crew_ok_def dest!: update_set_member)
  qed
qed

text \<open>The calls of one step: none for a packet that comes, those of the thread for a turn.\<close>

fun step_calls :: "crew \<Rightarrow> crew_event \<Rightarrow> sys_call \<Rightarrow> bool" where
  "step_calls s (Starts_on ev) call \<longleftrightarrow> False"
| "step_calls s (Clerk_turn i) call \<longleftrightarrow> job_calls (fst (clerks s ! i)) (crew_asked s) call"
| "step_calls s (Desk_turn i) call \<longleftrightarrow> client_call (crew_asked s) call"

lemma step_calls_into:
  "step_calls s ev (Sendto fd b (Resolved a)) \<Longrightarrow> asked_messages (crew_asked s) b (Resolved a)"
  by (cases ev; cases "fst (clerks s ! (case ev of Clerk_turn i \<Rightarrow> i))")
    (auto simp: job_calls_def answer_call_def)

lemma crew_ok_next:
  assumes "shapes_ok L" "crew_ok s" "crew_next os L ev s = Some s'"
  shows "crew_ok s' \<and> adds (step_calls s ev) (calls (crew_proxy s)) (calls (crew_proxy s'))"
proof (cases ev)
  case (Starts_on iev)
  then have "crew_starts os L iev s = Some s'" "event_fits iev"
    using assms(3) by (auto split: if_splits)
  from crew_ok_starts [OF assms(1,2) this(2,1)] show ?thesis by simp
next
  case (Clerk_turn i)
  then have turn: "clerk_turn i s = Some s'" using assms(3) by (auto split: if_splits)
  have "step_calls s ev = job_calls (fst (clerks s ! i)) (crew_asked s)"
    by (simp add: Clerk_turn fun_eq_iff)
  then show ?thesis using crew_ok_clerk [OF assms(2) turn] by auto
next
  case (Desk_turn i)
  then have turn: "desk_turn i s = Some s'" using assms(3) by (auto split: if_splits)
  have "step_calls s ev = client_call (crew_asked s)" by (simp add: Desk_turn fun_eq_iff)
  then show ?thesis using crew_ok_desk [OF assms(2) turn] by simp
qed

lemma crew_ok_reachable:
  assumes "shapes_ok L"
  shows "crew_reachable os L (new_endpoint interfaces Leaf remote h external internal) s \<Longrightarrow> crew_ok s"
proof (induction rule: crew_reachable.induct)
  case (crew_reachable_start t)
  show ?case by (simp add: crew_ok_def start_crew_def holds_only_def table_entries_def)
qed (use crew_ok_next [OF assms] in blast)

text \<open>
  C3: Nothing crosses, however the threads of Ingress interleave: between any two operations on a
  shared table, requests to the route service and system calls every other thread may take its turn.
  Still every entry of the table is the key of a packet that a client sent, with the socket and
  address it came from; all that goes into the chain are packets of clients behind a header with
  their key; and only a thread that handles a packet of the chain sends to plain addresses or on
  connections: its acknowledgement, or to the descriptor -1, or to a connection that has sent
  Ingress a packet with the addresses and ports that the header names. A connection is meant here as
  Ingress records it, by its descriptor and address: what the system does with a descriptor after it
  was closed is another matter.
\<close>
theorem no_interleaving_crosses:
  assumes "shapes_ok L"
    and "crew_reachable os L (new_endpoint interfaces Leaf remote h external internal) s"
    and "crew_next os L ev s = Some t"
  shows "(\<forall>(k, c) \<in> set (inorder (connection_map (base (crew_proxy t)))).
      \<exists>pkt prt. (pkt, prt, c) \<in> set (crew_asked t) \<and> packet_key prt pkt = Some k) \<and>
    (\<exists>new. calls (crew_proxy t) = calls (crew_proxy s) @ new \<and> (\<forall>(call, r) \<in> set new.
      (\<forall>fd b a. call = Sendto fd b (Resolved a) \<longrightarrow> (\<exists>pkt prt c header n. (pkt, prt, c) \<in> set (crew_asked s) \<and>
        packet_key prt pkt = Some (chain_key header prt) \<and> b = sfc_header_bytes header @ take n pkt)) \<and>
      (\<forall>fd b. call = Send fd b \<or> (\<exists>a. call = Sendto fd b (Ipv4 a)) \<longrightarrow>
        (\<exists>i args th. ev = Clerk_turn i \<and> clerks s ! i = (For_chain args, th) \<and>
          (call = Sendto (ua_socket_fd args) ack (Ipv4 (ua_client_address args)) \<or>
           (\<exists>header prt c. retrieve_header (ua_pkt args) = Inr header \<and> goes_to c call \<and>
             (c = no_connection \<or> (\<exists>pkt. (pkt, prt, c) \<in> set (crew_asked s) \<and>
               packet_key prt pkt = Some (chain_key header prt)))))))))"
proof -
  have next_ok: "crew_ok t" "adds (step_calls s ev) (calls (crew_proxy s)) (calls (crew_proxy t))"
    using crew_ok_next [OF assms(1) crew_ok_reachable [OF assms(1,2)] assms(3)] by auto
  obtain new where new: "calls (crew_proxy t) = calls (crew_proxy s) @ new"
    "\<forall>(call, r) \<in> set new. step_calls s ev call"
    using next_ok(2) by (auto simp: adds_def)
  have table: "\<exists>pkt prt. (pkt, prt, c) \<in> set (crew_asked t) \<and> packet_key prt pkt = Some k"
    if "(k, c) \<in> set (inorder (connection_map (base (crew_proxy t))))" for k c
    using next_ok(1) that by (fastforce simp: crew_ok_def holds_only_def table_entries_def asked_entries_def)
  have answer: "\<exists>pkt. (pkt, prt, c) \<in> set (crew_asked s) \<and> packet_key prt pkt = Some (chain_key header prt)"
    if held: "(chain_key header prt, c) \<in> asked_entries (crew_asked s)" for header prt c
  proof -
    obtain pkt p where p: "(pkt, p, c) \<in> set (crew_asked s)" "packet_key p pkt = Some (chain_key header prt)"
      using held by (auto simp: asked_entries_def)
    then have "p = prt" using packet_key_protocol by (fastforce simp: chain_key_def new_entry_def)
    then show ?thesis using p by blast
  qed
  have into: "\<exists>pkt prt c header n. (pkt, prt, c) \<in> set (crew_asked s) \<and>
      packet_key prt pkt = Some (chain_key header prt) \<and> b = sfc_header_bytes header @ take n pkt"
    if "step_calls s ev (Sendto fd b (Resolved a))" for fd b a
    using step_calls_into [OF that] by (fastforce simp: asked_messages_def)
  have out: "\<exists>i args th. ev = Clerk_turn i \<and> clerks s ! i = (For_chain args, th) \<and>
      answer_call args (asked_entries (crew_asked s)) call"
    if "step_calls s ev call" "call = Send fd b \<or> (\<exists>a. call = Sendto fd b (Ipv4 a))" for call fd b
    using that
    by (cases ev; cases "clerks s ! (case ev of Clerk_turn i \<Rightarrow> i)")
      (auto simp: job_calls_def split: job.splits)
  have plain: "\<exists>i args th. ev = Clerk_turn i \<and> clerks s ! i = (For_chain args, th) \<and>
      (call = Sendto (ua_socket_fd args) ack (Ipv4 (ua_client_address args)) \<or>
       (\<exists>header prt c. retrieve_header (ua_pkt args) = Inr header \<and> goes_to c call \<and>
         (c = no_connection \<or> (\<exists>pkt. (pkt, prt, c) \<in> set (crew_asked s) \<and>
           packet_key prt pkt = Some (chain_key header prt)))))"
    if "step_calls s ev call" "call = Send fd b \<or> (\<exists>a. call = Sendto fd b (Ipv4 a))" for call fd b
    using out [OF that] answer unfolding answer_call_def by fast
  have step: "step_calls s ev call" if "(call, r) \<in> set new" for call r using new(2) that by auto
  show ?thesis
    apply (intro conjI exI [of _ new] new(1) ballI)
     apply (use table in blast)
    apply (simp only: split_paired_all prod.case)
    apply (intro conjI allI impI)
     apply (rule into, drule step, simp only:)
    apply (rule plain, erule step, assumption)
    done
qed

end
