(* ===== verification/Tcp_Exchange.thy ===== *)
theory Tcp_Exchange
  imports Round_Trip
begin

text \<open>
  The two proxies and a TCP connection: the first packet of a client goes through the chain and its
  payload leaves Egress on a new connection; what comes back on that connection is taken for an IP
  packet, and goes to the client when it is one.
\<close>

section \<open>A connection to the destination\<close>

text \<open>Addresses convert, and sending on a connection succeeds.\<close>

definition streams_up :: "os_lib \<Rightarrow> bool" where
  "streams_up os \<longleftrightarrow> network_up os \<and>
     (\<forall>t d. 0 < os_ret os t (Inet_pton d)) \<and> (\<forall>t fd b. 0 \<le> os_ret os t (Send fd b))"

lemma connect_loop_done: "connect_loop os rps sfd False t = (Inr (sfd, False), t)"
  by (cases rps) simp_all

lemma connect_up:
  assumes "streams_up os"
  shows "\<exists>c v a r. connect_to_server os pton dst port t = (Inr c, t @ v @ [(Connect (tcp_sock c) a, r)]) \<and>
    0 < tcp_sock c \<and> r \<noteq> - 1 \<and> delivered v = [] \<and>
    tcp_serv_addr c = \<lparr> sin_port = htons port, sin_addr = pton (c_str dst) \<rparr>"
proof -
  have net: "network_up os" and ip: "0 < os_ret os u (Inet_pton d)" for u d
    using assms by (simp_all add: streams_up_def)
  note up = network_upD [OF net]
  let ?t1 = "t @ [(Socket AF_INET SOCK_STREAM 0, os_ret os t (Socket AF_INET SOCK_STREAM 0))]"
  let ?t2 = "?t1 @ [(Inet_pton (c_str dst), os_ret os ?t1 (Inet_pton (c_str dst)))]"
  let ?t3 = "?t2 @ [(Getaddrinfo (c_str dst) (to_string (unat port)) SOCK_STREAM IPPROTO_TCP, 0)]"
  obtain rp rps where rps: "os_resolved os ?t3 = rp # rps" using up(2) by (meson neq_Nil_conv)
  let ?sc = "Socket (ai_family rp) (ai_socktype rp) (ai_protocol rp)"
  let ?fd = "os_ret os ?t3 ?sc"
  let ?t4 = "?t3 @ [(?sc, ?fd)]"
  have first: "\<not> os_ret os t (Socket AF_INET SOCK_STREAM 0) < 0" using up(3) by (simp add: less_le_not_le)
  have pton: "\<not> os_ret os ?t1 (Inet_pton (c_str dst)) \<le> 0" using ip by (simp add: not_le)
  have res: "resolve os dst port SOCK_STREAM IPPROTO_TCP ?t2 = (Inr (rp # rps), ?t3)"
    using rps by (simp add: resolve_def up(1))
  have loop: "connect_loop os (rp # rps) (- 1) True ?t3 =
      (Inr (?fd, False), ?t4 @ [(Connect ?fd (ai_addr rp), os_ret os ?t4 (Connect ?fd (ai_addr rp)))])"
    by (simp add: connect_loop_done up)
  have run: "connect_to_server os pton dst port t =
      (Inr \<lparr> tcp_serv_addr = \<lparr> sin_port = htons port, sin_addr = pton (c_str dst) \<rparr>, tcp_sock = ?fd \<rparr>,
       ?t4 @ [(Connect ?fd (ai_addr rp), os_ret os ?t4 (Connect ?fd (ai_addr rp)))])"
    unfolding connect_to_server_def bind_sys if_not_P [OF first] if_not_P [OF pton]
    unfolding bind_action_def res prod.case sum.case loop if_False return_action_apply by (rule refl)
  show ?thesis
    using run
    by (intro exI [of _ "\<lparr> tcp_serv_addr = \<lparr> sin_port = htons port, sin_addr = pton (c_str dst) \<rparr>,
        tcp_sock = ?fd \<rparr>"] exI [of _ "drop (length t) ?t4"] exI [of _ "ai_addr rp"]
        exI [of _ "os_ret os ?t4 (Connect ?fd (ai_addr rp))"]) (simp add: up)
qed

section \<open>A packet leaves the chain\<close>

definition tcp_bytes :: "iphdr \<Rightarrow> tcphdr \<Rightarrow> byte list \<Rightarrow> byte list" where
  "tcp_bytes iph tcph payload = iphdr_bytes iph @ tcphdr_bytes tcph @ payload"

lemma exit_task_tcp:
  assumes "chain_packet h (tcp_bytes iph tcph payload) args" "ip_ihl iph = 5" "ip_protocol iph = 6"
  shows "egress_pkt_from_chain os args s =
    (Inr \<lparr> task_prt = TCP,
       task_args = args \<lparr> ua_socket_fd := fst (retrieve_connection_2 (chain_key h TCP) (base s)) \<rparr>,
       task_ce = chain_key h TCP \<rparr>,
     s \<lparr> calls := calls s @ [(Sendto (ua_socket_fd args) ack (Ipv4 (ua_client_address args)),
       os_ret os (calls s) (Sendto (ua_socket_fd args) ack (Ipv4 (ua_client_address args))))] \<rparr>)"
proof -
  note pkt = chain_packet_buffer [OF assms(1)]
  let ?u = "udphdr_of_bytes (tcphdr_bytes tcph)"
  have "tcphdr_bytes tcph = udphdr_bytes ?u @ drop 8 (tcphdr_bytes tcph)"
    by (simp add: udphdr_bytes_of_bytes)
  then have split: "tcp_bytes iph tcph payload @ rest =
      iphdr_bytes iph @ udphdr_bytes ?u @ (drop 8 (tcphdr_bytes tcph) @ payload @ rest)" for rest
    unfolding tcp_bytes_def by (metis append_assoc)
  have "retrieve_header (ua_pkt args) = Inr h" by (subst pkt) (rule retrieve_header_value)
  moreover have "retrieve_ip_udp_header (drop header_size (ua_pkt args)) = Inr (iph, ?u)"
    by (subst pkt) (simp add: header_size_def split retrieve_ip_udp_header_layout [OF assms(2)])
  ultimately show ?thesis
    using assms(3) by (simp add: egress_pkt_from_chain_def bind_action_def Let_def)
qed

text \<open>A packet of a connection that Egress does not know: it connects, and sends the payload.\<close>

lemma exiting_tcp_connects:
  assumes "chain_packet h (tcp_bytes iph tcph payload) args" "ip_ihl iph = 5" "tcp_doff tcph = 5"
    and "streams_up os" "updates_taken L ce" "roulette (base s) \<noteq> None"
  obtains u v sock a r r' where
    "\<forall>rs. manage_exiting_tcp_packets os L pton (ua_pkt args) (ua_pkt_len args) ce (- 1) stack rs s =
      tcp_reply_loop os L h stack rs u"
    "calls u = calls s @ v @ [(Connect sock a, r),
      (Send sock (strncpy_bytes payload (length payload)), r')]" "r \<noteq> - 1" "delivered v = []"
    "roulette (base u) = roulette (base s)" "chains (base u) = chains (base s)"
proof -
  let ?dst = "int_to_ip (sfc_destination_address h)" and ?port = "htons (sfc_destination_port h)"
  obtain c v a r where c: "connect_to_server os pton ?dst ?port (calls s) =
      (Inr c, calls s @ v @ [(Connect (tcp_sock c) a, r)])" "r \<noteq> - 1" "delivered v = []"
    using connect_up [OF assms(4)] by metis
  let ?t1 = "calls s @ v @ [(Connect (tcp_sock c) a, r)]"
  have upd: "fst (update_entry L ce (tcp_sock c) (tcp_serv_addr c) EGRESS_T (base s)) = Inr ()"
    using assms(5,6) by (simp add: updates_taken_def)
  let ?b = "snd (update_entry L ce (tcp_sock c) (tcp_serv_addr c) EGRESS_T (base s))"
  let ?send = "Send (tcp_sock c) (strncpy_bytes payload (length payload))"
  let ?u = "s \<lparr> base := ?b, calls := ?t1 @ [(?send, os_ret os ?t1 ?send)] \<rparr>"
  have "manage_exiting_tcp_packets os L pton (ua_pkt args) (ua_pkt_len args) ce (- 1) stack rs s =
      tcp_reply_loop os L h stack rs ?u" for rs
    using exiting_tcp [OF assms(1) [unfolded tcp_bytes_def] assms(2,3), of os L pton ce "- 1" stack rs s]
      c(1) upd by (simp add: bind_action_def access_to_socket_def access_to_sockaddr_in_def)
  then show thesis
    using c(2,3) by (intro that [of ?u v "tcp_sock c" a r "os_ret os ?t1 ?send"])
      (simp_all add: update_entry_frame)
qed

section \<open>The answer\<close>

text \<open>Ingress on a TCP packet that comes back from the chain.\<close>

lemma chain_tcp_packet_reads:
  assumes "chain_packet h (tcp_bytes iph tcph answer) args"
    "ip_ihl iph = 5" "ip_protocol iph = 6" "tcp_doff tcph = 5"
  shows "retrieve_header (ua_pkt args) = Inr h"
    "retrieve_ip_header (drop header_size (ua_pkt args)) = Inr iph"
    "tcp_packet_header_size (drop header_size (ua_pkt args)) = Inr 40"
    "payload_bytes (ua_pkt args) (ua_pkt_len args) (header_size + 40) = Inr answer"
proof -
  let ?n = "length answer" and ?rest = "drop (64 + length answer) (ua_pkt args)"
  have pkt: "ua_pkt args = sfc_header_bytes h @ iphdr_bytes iph @ tcphdr_bytes tcph @ answer @ ?rest"
    using chain_packet_buffer [OF assms(1)] by (simp add: tcp_bytes_def)
  have inner: "drop header_size (ua_pkt args) = iphdr_bytes iph @ tcphdr_bytes tcph @ answer @ ?rest"
    by (subst pkt) (simp add: header_size_def)
  have hdr: "retrieve_header (ua_pkt args) = Inr h" by (subst pkt) (rule retrieve_header_value)
  have ip_hdr: "retrieve_ip_header (drop header_size (ua_pkt args)) = Inr iph"
    unfolding inner by (rule retrieve_ip_header_layout [OF assms(2)])
  have size: "tcp_packet_header_size (drop header_size (ua_pkt args)) = Inr 40"
    unfolding inner using tcp_packet_header_size_layout [of iph "[]" tcph] assms(2,4) by simp
  have total: "ua_pkt_len args = 64 + ?n" "length (ua_pkt args) < 2 ^ 63"
    using assms(1) by (simp_all add: chain_packet_def tcp_bytes_def)
  have long: "64 + ?n \<le> length (ua_pkt args)" by (subst pkt) simp
  have "unat (of_nat (ua_pkt_len args) - of_nat (header_size + 40) :: u64) = ?n"
    using total long by (simp add: header_size_def unat_of_nat)
  moreover have "drop (header_size + 40) (ua_pkt args) = answer @ ?rest"
    by (subst pkt) (simp add: header_size_def)
  ultimately have bytes: "payload_bytes (ua_pkt args) (ua_pkt_len args) (header_size + 40) = Inr answer"
    using long by (simp add: payload_bytes_def read_bytes_def) (simp add: header_size_def)
  show "retrieve_header (ua_pkt args) = Inr h"
    "retrieve_ip_header (drop header_size (ua_pkt args)) = Inr iph"
    "tcp_packet_header_size (drop header_size (ua_pkt args)) = Inr 40"
    "payload_bytes (ua_pkt args) (ua_pkt_len args) (header_size + 40) = Inr answer"
    by (rule hdr ip_hdr size bytes)+
qed

lemma from_chain_tcp:
  assumes "chain_packet h (tcp_bytes iph tcph answer) args"
    "ip_ihl iph = 5" "ip_protocol iph = 6" "tcp_doff tcph = 5"
    and "retrieve_connection_2 (chain_key h TCP) (base s) = (fd, addr)" "streams_up os"
  shows "\<exists>a r x y. manage_pkt_from_chain os L args s = (Inr (), s \<lparr> calls := calls s @
    [(Sendto (ua_socket_fd args) ack (Ipv4 (ua_client_address args)), a), (Send fd answer, r),
     (Shutdown fd 2, x), (Close fd, y)] \<rparr>)"
proof -
  have sent: "\<not> os_ret os t (Send fd answer) < 0" for t
    using assms(6) by (simp add: streams_up_def not_less)
  show ?thesis
    using chain_tcp_packet_reads [OF assms(1-4)] assms(3,5) sent
    by (simp add: manage_pkt_from_chain_def bind_action_def Let_def) (intro exI, rule refl)
qed

text \<open>Ingress on the first packet of a client, up to the moment at which it waits for the next.\<close>

lemma entering_tcp_waits:
  fixes iph tcph
  defines "key \<equiv> entering_key (ip_saddr iph) (ip_daddr iph) (tcp_source tcph) (tcp_dest tcph) ''0'' TCP"
  assumes "tcp_packet iph tcph b"
    and "network_up os" "shapes_ok L" "chain_table (chains (base s))" "roulette (base s) \<noteq> None"
    and "service_up L path" "path \<noteq> []"
    and "comparable K" "tables_ordered K (base s)" "key \<in> K" "connections (base s) key = None"
  obtains t where "manage_entering_tcp_packets os L fd client stack [Data b] s = (Inr Waiting, t)"
    "delivered (calls t) = delivered (calls s) @
       [sfc_header_bytes (entering_header iph (tcp_source tcph) (tcp_dest tcph) path) @ b]"
    "tables_ordered K (base t)" "connections (base t) = (connections (base s))(key \<mapsto> (fd, client))"
proof -
  let ?c0 = "first_locals stack"
  let ?c1 = "?c0 \<lparr> tl_pkt := receive_into b (tl_pkt ?c0), tl_sfcid := ''0'', tl_headers := (iph, tcph),
    tl_prev_sfcid := ''0'', tl_first_pkt := False \<rparr>"
  obtain t where t: "entering_tcp_chunk os L fd client ?c0 b s = (Inr (True, ?c1), t)"
    "delivered (calls t) = delivered (calls s) @
       [sfc_header_bytes (entering_header iph (tcp_source tcph) (tcp_dest tcph) path) @ b]"
    "tables_ordered K (base t)" "connections (base t) = (connections (base s))(key \<mapsto> (fd, client))"
    using first_chunk [OF assms(2) first_locals_first assms(3-7,9,10) assms(11,12) [unfolded key_def],
        of fd client stack] assms(8) unfolding key_def by auto
  have "manage_entering_tcp_packets os L fd client stack [Data b] s = (Inr Waiting, t)"
    using t(1) by (simp add: manage_entering_tcp_packets_def bind_action_def)
  then show thesis by (rule that) (rule t(2-4))+
qed

lemma tcp_bytes_packet:
  "ip_ihl iph = 5 \<Longrightarrow> ip_protocol iph = 6 \<Longrightarrow> tcp_doff tcph = 5 \<Longrightarrow>
     tcp_packet iph tcph (tcp_bytes iph tcph payload)"
  by (auto simp: tcp_packet_def tcp_bytes_def)

text \<open>Egress on the packet of a connection that Ingress made, from the task to the answer.\<close>

lemma egress_tcp_exchange:
  fixes iph source dest path
  defines "h \<equiv> entering_header iph source dest path"
    and "key \<equiv> entering_key (ip_saddr iph) (ip_daddr iph) source dest ''0'' TCP"
  assumes "same_connection h h'" "chain_packet h' (tcp_bytes iph tcph payload) args"
    and "ip_ihl iph = 5" "ip_protocol iph = 6" "tcp_doff tcph = 5"
    and "streams_up os" "shapes_ok L" "service_up L path'" "path' \<noteq> []" "updates_taken L key"
    and "roulette (base e) \<noteq> None" "chain_table (chains (base e))"
    and "retrieve_connection_2 key (base e) = no_connection"
    and "classified reply" "length reply < buffer_size"
  shows "\<exists>task e1 u e2 v sock a r r' h2. egress_pkt_from_chain os args e = (Inr task, e1) \<and>
    run_exit_task os L pton task stack buf [] e1 = (Inr Reply_waiting, u) \<and>
    calls u = calls e1 @ v @ [(Connect sock a, r),
      (Send sock (strncpy_bytes payload (length payload)), r')] \<and> r \<noteq> - 1 \<and> delivered v = [] \<and>
    run_exit_task os L pton task stack buf [Data reply] e1 = (Inr Reply_stopped, e2) \<and>
    delivered (calls e2) = delivered (calls e) @ [ack, sfc_header_bytes h2 @ reply] \<and>
    sfc_direction_flag h2 = 1 \<and> (\<forall>h3. same_connection h2 h3 \<longrightarrow> chain_key h3 TCP = key)"
proof -
  have net: "network_up os" using assms(8) by (simp add: streams_up_def)
  have p_id: "sfc_p_id h' = 0"
    using assms(3) by (simp add: same_connection_def h_def entering_header_p_id)
  have key: "chain_key h' TCP = key"
    using entering_header_key [of iph source dest path TCP] same_connection_key [OF assms(3)]
    by (simp add: h_def key_def)
  let ?task = "\<lparr> task_prt = TCP, task_args = args \<lparr> ua_socket_fd := - 1 \<rparr>, task_ce = key \<rparr>"
  let ?ack = "Sendto (ua_socket_fd args) ack (Ipv4 (ua_client_address args))"
  let ?e1 = "e \<lparr> calls := calls e @ [(?ack, os_ret os (calls e) ?ack)] \<rparr>"
  have task: "egress_pkt_from_chain os args e = (Inr ?task, ?e1)"
    using exit_task_tcp [OF assms(4-6)] assms(15) by (simp add: key no_connection_def)
  have acked: "delivered (calls ?e1) = delivered (calls e) @ [ack]"
    using network_upD(5) [OF net, of ack] by (simp add: ack_def)
  have r1: "roulette (base ?e1) \<noteq> None" using assms(13) by simp
  obtain u v sock a r r' where u:
    "\<forall>rs. manage_exiting_tcp_packets os L pton (ua_pkt args) (ua_pkt_len args) key (- 1) stack rs ?e1 =
      tcp_reply_loop os L h' stack rs u"
    "calls u = calls ?e1 @ v @ [(Connect sock a, r),
      (Send sock (strncpy_bytes payload (length payload)), r')]" "r \<noteq> - 1" "delivered v = []"
    "roulette (base u) = roulette (base ?e1)" "chains (base u) = chains (base ?e1)"
    by (rule exiting_tcp_connects [OF assms(4,5,7,8,12) r1, of pton stack])
  have b: "chain_table (chains (base u))" "roulette (base u) \<noteq> None"
    using assms(13,14) u(5,6) by simp_all
  obtain e2 where e2: "tcp_reply_loop os L h' stack [Data reply] u = (Inr Reply_stopped, e2)"
    "delivered (calls e2) = delivered (calls u) @ [sfc_header_bytes (reply_header h' path') @ reply]"
    by (rule answer_forwarded [OF assms(16,17) net assms(9) b assms(10,11)])
  have run: "run_exit_task os L pton ?task stack buf rs ?e1 = tcp_reply_loop os L h' stack rs u" for rs
    using u(1) by (simp add: run_exit_task_def)
  have home: "chain_key h3 TCP = key" if "same_connection (reply_header h' path') h3" for h3
    using same_connection_key [OF that] same_connection_key [OF reply_header_connection [OF p_id]] key
    by simp
  have "delivered (calls e2) = delivered (calls e) @ [ack, sfc_header_bytes (reply_header h' path') @ reply]"
    using e2(2) u(2,4) acked by simp
  moreover have "run_exit_task os L pton ?task stack buf [] ?e1 = (Inr Reply_waiting, u)"
    "run_exit_task os L pton ?task stack buf [Data reply] ?e1 = (Inr Reply_stopped, e2)"
    using run e2(1) by simp_all
  ultimately show ?thesis using task u(2-4) home reply_header_direction by blast
qed

text \<open>
  C5: A TCP exchange through both proxies. Ingress sends the first packet of a client into the chain
  behind a header with direction 0 and waits. When the chain hands it to Egress behind a header of
  the same connection, Egress acknowledges it, makes a connection of its own, sends the payload on
  it (as strncpy copies it), and waits in its turn. An answer that is itself an IP packet goes into
  the chain behind a header with direction 1; when the chain hands that to Ingress, the payload of
  the answer is sent to the client that asked, and its socket is shut down and closed. Here the
  systems and the route services of both proxies are up, the streams are taken and a path is known,
  the service of Egress takes its updates, no IP or TCP header has options, the connection is new to
  both proxies, and the keys in use at Ingress are comparable in an ordered table.
\<close>
theorem tcp_round_trip:
  fixes iph tcph path
  defines "key \<equiv> entering_key (ip_saddr iph) (ip_daddr iph) (tcp_source tcph) (tcp_dest tcph) ''0'' TCP"
  assumes "ip_ihl iph = 5" "ip_protocol iph = 6" "tcp_doff tcph = 5"
    and "streams_up os" "shapes_ok L" "service_up L path" "path \<noteq> []"
    and "chain_table (chains (base s))" "roulette (base s) \<noteq> None"
    and "comparable K" "tables_ordered K (base s)" "key \<in> K" "connections (base s) key = None"
    and "streams_up os'" "shapes_ok L'" "service_up L' path'" "path' \<noteq> []" "updates_taken L' key"
    and "roulette (base e) \<noteq> None" "chain_table (chains (base e))"
    and "retrieve_connection_2 key (base e) = no_connection"
    and "ip_ihl rih = 5" "ip_protocol rih = 6" "tcp_doff rth = 5"
    and "length (tcp_bytes rih rth answer) < buffer_size"
  shows "\<exists>t h. manage_entering_tcp_packets os L fd client stack [Data (tcp_bytes iph tcph payload)] s =
      (Inr Waiting, t) \<and>
    delivered (calls t) = delivered (calls s) @ [sfc_header_bytes h @ tcp_bytes iph tcph payload] \<and>
    sfc_direction_flag h = 0 \<and>
    (\<forall>h' args1. same_connection h h' \<and> chain_packet h' (tcp_bytes iph tcph payload) args1 \<longrightarrow>
     (\<exists>task e1 u e2 v sock a r r' h2. egress_pkt_from_chain os' args1 e = (Inr task, e1) \<and>
        run_exit_task os' L' pton task stack' buf [] e1 = (Inr Reply_waiting, u) \<and>
        calls u = calls e1 @ v @ [(Connect sock a, r),
          (Send sock (strncpy_bytes payload (length payload)), r')] \<and> r \<noteq> - 1 \<and> delivered v = [] \<and>
        run_exit_task os' L' pton task stack' buf [Data (tcp_bytes rih rth answer)] e1 =
          (Inr Reply_stopped, e2) \<and>
        delivered (calls e2) = delivered (calls e) @
          [ack, sfc_header_bytes h2 @ tcp_bytes rih rth answer] \<and>
        sfc_direction_flag h2 = 1 \<and>
        (\<forall>h3 args2. same_connection h2 h3 \<and> chain_packet h3 (tcp_bytes rih rth answer) args2 \<longrightarrow>
         (\<exists>x r y z. manage_pkt_from_chain os L args2 t = (Inr (), t \<lparr> calls := calls t @
            [(Sendto (ua_socket_fd args2) ack (Ipv4 (ua_client_address args2)), x),
             (Send fd answer, r), (Shutdown fd 2, y), (Close fd, z)] \<rparr>)))))"
proof -
  let ?h = "entering_header iph (tcp_source tcph) (tcp_dest tcph) path"
  have net: "network_up os" using assms(5) by (simp add: streams_up_def)
  obtain t where t: "manage_entering_tcp_packets os L fd client stack [Data (tcp_bytes iph tcph payload)] s =
      (Inr Waiting, t)"
    "delivered (calls t) = delivered (calls s) @ [sfc_header_bytes ?h @ tcp_bytes iph tcph payload]"
    "tables_ordered K (base t)" "connections (base t) = (connections (base s))(key \<mapsto> (fd, client))"
    using entering_tcp_waits [OF tcp_bytes_packet [OF assms(2-4)] net assms(6,9,10,7,8,11,12)
        assms(13,14) [unfolded key_def]] unfolding key_def by blast
  have con: "retrieve_connection_2 key (base t) = (fd, client)"
    using retrieve_connections [OF assms(11) t(3) assms(13)] t(4) by simp
  have home: "\<exists>x r y z. manage_pkt_from_chain os L args2 t = (Inr (), t \<lparr> calls := calls t @
      [(Sendto (ua_socket_fd args2) ack (Ipv4 (ua_client_address args2)), x),
       (Send fd answer, r), (Shutdown fd 2, y), (Close fd, z)] \<rparr>)"
    if "chain_key h3 TCP = key" "chain_packet h3 (tcp_bytes rih rth answer) args2" for h3 args2
    by (rule from_chain_tcp [OF that(2) assms(23-25) _ assms(5)]) (simp add: that(1) con)
  have classified: "classified (tcp_bytes rih rth answer)"
    by (rule tcp_packet_classified [OF tcp_bytes_packet [OF assms(23-25)]])
  note out = egress_tcp_exchange [OF _ _ assms(2-4,15-18) assms(19) [unfolded key_def] assms(20,21)
      assms(22) [unfolded key_def] classified assms(26), folded key_def]
  show ?thesis
    by (intro exI [of _ t] exI [of _ ?h] conjI t(1,2) entering_header_direction allI impI; elim conjE)
      (drule (1) out [where pton = pton and buf = buf and stack = stack'], elim exE conjE,
        intro exI conjI, assumption+, intro allI impI, elim conjE, rule home, blast, assumption)
qed

section \<open>Answers that are no packets\<close>

lemma claimed_received: "bs \<noteq> [] \<Longrightarrow> claimed_ip_len (receive_into bs buf) = claimed_ip_len bs"
  by (cases bs) (simp_all add: claimed_ip_len_def receive_into_def)

lemma classify_faults:
  assumes "chain_table (chains b)" "shapes_ok L" "bs \<noteq> []" "length buf = buffer_size"
  shows "length bs \<le> 20 \<or> claimed_ip_len bs = 20 \<and> bs ! 9 \<notin> {6, 17} \<Longrightarrow>
      fst (classify L (receive_into bs buf) (length bs) b) = Inl (Throw Out_of_range)"
    and "20 < length bs \<Longrightarrow> 20 < claimed_ip_len bs \<Longrightarrow>
      fst (classify L (receive_into bs buf) (length bs) b) = Inl (Undefined Out_of_bounds_write)"
proof -
  let ?pkt = "receive_into bs buf"
  have reb: "rebalances (sfc_shape L)" using assms(2) by (simp add: shapes_ok_def)
  have fst_classify: "fst (classify L ?pkt (length bs) b) =
      fst (classify_pkt (sfc_shape L) ?pkt (length bs) (chains b))"
    by (simp add: classify_def split: prod.split)
  show "fst (classify L ?pkt (length bs) b) = Inl (Throw Out_of_range)"
    if no: "length bs \<le> 20 \<or> claimed_ip_len bs = 20 \<and> bs ! 9 \<notin> {6, 17}"
  proof (cases "length bs \<le> 20")
    case True
    then show ?thesis
      unfolding fst_classify by (rule classify_short_packet_throws [OF _ assms(1) reb])
  next
    case False
    then have "?pkt ! 9 = bs ! 9" "length bs \<le> length ?pkt" "claimed_ip_len ?pkt = 20"
      using no claimed_received [OF assms(3)] by (simp_all add: receive_into_def nth_append)
    then have "set_pkt new_mapper ?pkt (length bs) = Inr new_mapper"
      using False no set_pkt_value [of "length bs" ?pkt] by simp
    from classify_pkt_value [OF assms(1) reb this] show ?thesis
      unfolding fst_classify by (simp add: mapper_simps)
  qed
  show "fst (classify L ?pkt (length bs) b) = Inl (Undefined Out_of_bounds_write)"
    if big: "20 < length bs" "20 < claimed_ip_len bs"
  proof -
    have "claimed_ip_len ?pkt \<le> 60"
      using unat_nibble_less [of "low_nibble (?pkt ! 0)"] by (simp add: claimed_ip_len_def)
    moreover have "60 \<le> length ?pkt" using assms(4) by (simp add: receive_into_def buffer_size_def)
    ultimately have "retrieve_ip_header ?pkt = Inl (Undefined Out_of_bounds_write)"
      using big(2) claimed_received [OF assms(3)] by (intro ip_options_overflow(1)) simp_all
    then show ?thesis
      unfolding fst_classify using big(1)
      by (simp add: classify_pkt_def set_pkt_def bind_action_def ip_hdr_len_def)
  qed
qed

text \<open>
  C35: What comes back on the connection to a TCP server is the payload of its stream, but Egress
  takes it for an IP packet. An answer of at most 20 bytes, or one that claims a plain IP header of
  a protocol other than TCP and UDP, ends the thread with an exception; a longer one whose first
  byte claims a header of more than 20 bytes, as the letter H of an HTTP response does, is written
  past a structure on the stack. Here the request has headers without options and its connection has
  a socket already.
\<close>
theorem tcp_answer_read_as_packet:
  fixes os pton ce rs
  assumes "chain_packet h (tcp_bytes iph tcph payload) args" "ip_ihl iph = 5" "tcp_doff tcph = 5"
    and "fd \<noteq> - 1" "chain_table (chains (base s))" "shapes_ok L" "length stack = buffer_size" "bs \<noteq> []"
  defines "answered \<equiv> fst (manage_exiting_tcp_packets os L pton (ua_pkt args) (ua_pkt_len args) ce fd
      stack (Data bs # rs) s)"
  shows "(length bs \<le> 20 \<or> claimed_ip_len bs = 20 \<and> bs ! 9 \<notin> {6, 17} \<longrightarrow>
      answered = Inl (Throw Out_of_range)) \<and>
    (20 < length bs \<and> 20 < claimed_ip_len bs \<longrightarrow> answered = Inl (Undefined Out_of_bounds_write))"
proof -
  let ?c = "classify L (receive_into bs stack) (length bs) (base s)"
  have "answered = Inl f" if "fst ?c = Inl f" for f
    using exiting_tcp [OF assms(1) [unfolded tcp_bytes_def] assms(2,3), of os L pton ce fd stack
        "Data bs # rs" s] assms(4) that
    by (simp add: answered_def bind_action_def)
  then show ?thesis
    using classify_faults [OF assms(5,6,8,7)] by blast
qed

section \<open>A connection to try them on\<close>

lemma sample_tcp_headers [simp]:
  "ip_ihl sample_tcp_iphdr = 5" "ip_protocol sample_tcp_iphdr = 6" "tcp_doff sample_tcphdr = 5"
  by (simp_all add: sample_tcp_iphdr_def sample_iphdr_def sample_tcphdr_def)

lemma streams_up_sample: "streams_up (sample_os [sample_addrinfo])"
  by (simp add: streams_up_def network_up_sample) (simp add: sample_os_def)

lemma no_connection_sample: "retrieve_connection_2 key (base sample_proxy) = no_connection"
  using retrieve_connections [OF comparable_singleton sample_proxy_state(5) singletonI, of key]
    sample_proxy_state(3) by simp

text \<open>HTTP/1.1 200 OK and two line ends.\<close>

definition sample_http_answer :: "byte list" where
  "sample_http_answer = [0x48, 0x54, 0x54, 0x50, 0x2F, 0x31, 0x2E, 0x31, 0x20, 0x32, 0x30, 0x30, 0x20,
     0x4F, 0x4B, 0x0D, 0x0A, 0x0D, 0x0A, 0x68, 0x69]"

theorem tcp_answer_read_as_packet_witness:
  "\<exists>args :: udp_pkt_mngmnt_args. fst (manage_exiting_tcp_packets (sample_os []) (answering_libs [])
      (\<lambda>_. 0) (ua_pkt args) (ua_pkt_len args) sample_key 7 (replicate buffer_size 0)
      [Data sample_http_answer] sample_proxy) = Inl (Undefined Out_of_bounds_write)"
proof -
  let ?h = "entering_header sample_tcp_iphdr 1 2 []"
  let ?inner = "tcp_bytes sample_tcp_iphdr sample_tcphdr [1, 2]"
  let ?args = "sample_args \<lparr> ua_pkt := sfc_header_bytes ?h @ ?inner, ua_pkt_len := 66 \<rparr>"
  have pkt: "chain_packet ?h ?inner ?args" by (simp add: chain_packet_def tcp_bytes_def)
  have "length (replicate buffer_size (0 :: byte)) = buffer_size" by simp
  from tcp_answer_read_as_packet [OF pkt sample_tcp_headers(1,3) _ sample_proxy_state(1)
      shapes_ok_answering this, of 7 sample_http_answer]
  show ?thesis
    by (intro exI [of _ ?args]) (simp add: sample_http_answer_def claimed_ip_len_def low_nibble_def)
qed

theorem tcp_round_trip_witness:
  "\<exists>t h. manage_entering_tcp_packets (sample_os [sample_addrinfo]) (answering_libs [sample_node]) 5
      zero_sockaddr [] [Data (tcp_bytes sample_tcp_iphdr sample_tcphdr [1, 2, 3])] sample_proxy =
      (Inr Waiting, t) \<and> sfc_direction_flag h = 0 \<and>
    delivered (calls t) = [sfc_header_bytes h @ tcp_bytes sample_tcp_iphdr sample_tcphdr [1, 2, 3]]"
proof -
  have len: "length (tcp_bytes sample_tcp_iphdr sample_tcphdr [4]) < buffer_size"
    by (simp add: tcp_bytes_def buffer_size_def)
  note trip = tcp_round_trip [OF sample_tcp_headers streams_up_sample shapes_ok_answering
      service_up_answering sample_path_not_Nil sample_proxy_state(1,2) comparable_singleton
      sample_proxy_state(5) singletonI sample_proxy_state(3) streams_up_sample shapes_ok_answering
      service_up_answering sample_path_not_Nil updates_taken_answering sample_proxy_state(2,1)
      no_connection_sample sample_tcp_headers len, of 5 zero_sockaddr "[]" "[1, 2, 3]"]
  from trip obtain t h where "manage_entering_tcp_packets (sample_os [sample_addrinfo])
      (answering_libs [sample_node]) 5 zero_sockaddr [] [Data (tcp_bytes sample_tcp_iphdr sample_tcphdr
      [1, 2, 3])] sample_proxy = (Inr Waiting, t)" "sfc_direction_flag h = 0"
    "delivered (calls t) = delivered (calls sample_proxy) @
      [sfc_header_bytes h @ tcp_bytes sample_tcp_iphdr sample_tcphdr [1, 2, 3]]" by blast
  then show ?thesis using sample_proxy_state(4) by auto
qed

end
