(* ===== verification/Ingress_Interleavings.thy ===== *)
theory Ingress_Interleavings
  imports Ingress_System Tcp_Exchange
begin

text \<open>
  Runs of Ingress in which connections meet: a client's first packet, its answer from the chain, and a
  new client whose connection gets the descriptor that the answer has closed.
\<close>

section \<open>The steps of an exchange\<close>

text \<open>A packet of the chain with a TCP answer in it, in the buffer of the server.\<close>

definition tcp_answer :: "sfc_header \<Rightarrow> byte list \<Rightarrow> udp_pkt_mngmnt_args \<Rightarrow> bool" where
  "tcp_answer h answer args \<longleftrightarrow> event_fits (From_chain args) \<and>
     (\<exists>iph tcph. ip_ihl iph = 5 \<and> ip_protocol iph = 6 \<and> tcp_doff tcph = 5 \<and>
       chain_packet h (tcp_bytes iph tcph answer) args)"

definition answer_calls :: "udp_pkt_mngmnt_args \<Rightarrow> socket_fd \<Rightarrow> byte list \<Rightarrow> sys_call list" where
  "answer_calls args fd answer =
     [Sendto (ua_socket_fd args) ack (Ipv4 (ua_client_address args)), Send fd answer, Shutdown fd 2, Close fd]"

lemma from_chain_step:
  assumes "tcp_answer h answer args" "streams_up os" "\<not> ended s"
    and "retrieve_connection_2 (chain_key h TCP) (base (ingress_proxy s)) = (fd, addr)"
  shows "\<exists>t. ingress_next os L (From_chain args) s =
      Some (s \<lparr> ingress_proxy := (ingress_proxy s) \<lparr> calls := t \<rparr>, ended := False \<rparr>) \<and>
    map fst t = map fst (calls (ingress_proxy s)) @ answer_calls args fd answer"
proof -
  obtain iph tcph where p: "ip_ihl iph = 5" "ip_protocol iph = 6" "tcp_doff tcph = 5"
    "chain_packet h (tcp_bytes iph tcph answer) args" "event_fits (From_chain args)"
    using assms(1) unfolding tcp_answer_def by blast
  from from_chain_tcp [OF p(4,1-3) assms(4,2), of L] p(5) assms(3) show ?thesis
    by (auto simp: ingress_next_def settle_def answer_calls_def simp del: event_fits.simps)
qed

lemma tcp_enters:
  fixes iph tcph
  defines "key \<equiv> entering_key (ip_saddr iph) (ip_daddr iph) (tcp_source tcph) (tcp_dest tcph) ''0'' TCP"
  assumes "tcp_packet iph tcph b" "0 < length b" "length b \<le> buffer_size" "length stack = buffer_size"
    and "network_up os" "shapes_ok L" "service_up L path" "path \<noteq> []"
    and "system_ok s" "\<not> ended s" "roulette (base (ingress_proxy s)) \<noteq> None"
    and "tables_ordered {key} (base (ingress_proxy s))" "connections (base (ingress_proxy s)) key = None"
  obtains t ss where
    "ingress_run os L [Accepted fd client stack, Reads (length (sessions s)) (Data b)] s = Some t"
    "\<not> ended t" "sessions t = sessions s @ [Some ss]" "ss_fd ss = fd" "ss_client ss = client"
    "retrieve_connection_2 key (base (ingress_proxy t)) = (fd, client)"
proof -
  have ct: "chain_table (chains (base (ingress_proxy s)))"
    using assms(10) by (simp add: system_ok_def holds_only_def)
  obtain p where p: "manage_entering_tcp_packets os L fd client stack [Data b] (ingress_proxy s) = (Inr Waiting, p)"
    "tables_ordered {key} (base p)" "connections (base p) = (connections (base (ingress_proxy s)))(key \<mapsto> (fd, client))"
    using entering_tcp_waits [OF assms(2,6,7) ct assms(12,8,9) comparable_singleton, of key]
      assms(13,14) unfolding key_def by blast
  obtain ss where ss: "session_read os L (new_session fd client stack) (Data b) (ingress_proxy s) = (Inr (Inr ss), p)"
    "ss_fd ss = fd" "ss_client ss = client"
    by (rule session_waits [OF p(1)])
  have "retrieve_connection_2 key (base p) = (fd, client)"
    using retrieve_connections [OF comparable_singleton p(2) singletonI] p(3) by simp
  let ?t = "s \<lparr> ingress_proxy := p, sessions := sessions s @ [Some ss], ended := False,
    asked := asked s @ session_asks (new_session fd client stack) (Data b) \<rparr>"
  have "ingress_run os L [Accepted fd client stack, Reads (length (sessions s)) (Data b)] s = Some ?t"
    using ss(1) assms(3-5,11) by (simp add: ingress_next_def settle_def)
  then show thesis
    by (rule that) (use ss(2,3) \<open>retrieve_connection_2 key (base p) = (fd, client)\<close> in simp_all)
qed

text \<open>
  C16: After the answer to a client Ingress closes its socket but leaves its entry in the table.
  When the system gives the descriptor to the next client that connects, a second packet of the
  chain for the first connection is sent to the second client, whose socket is then shut down and
  closed, although that client never sent anything. The look-up finds the first connection here, and
  the system takes what is sent on streams.
\<close>
theorem stale_descriptor_crosses:
  assumes "tcp_answer h1 answer1 args1" "tcp_answer h2 answer2 args2"
    and "chain_key h2 TCP = chain_key h1 TCP"
    and "retrieve_connection_2 (chain_key h1 TCP) (base (ingress_proxy s)) = (fd, first_client)"
    and "streams_up os" "\<not> ended s" "length stack = buffer_size"
  shows "\<exists>t. ingress_run os L [From_chain args1, Accepted fd second_client stack, From_chain args2] s = Some t \<and>
    map fst (calls (ingress_proxy t)) = map fst (calls (ingress_proxy s)) @
      answer_calls args1 fd answer1 @ answer_calls args2 fd answer2 \<and>
    sessions t = sessions s @ [Some (new_session fd second_client stack)] \<and> asked t = asked s \<and> \<not> ended t"
proof -
  obtain u where u: "ingress_next os L (From_chain args1) s =
      Some (s \<lparr> ingress_proxy := (ingress_proxy s) \<lparr> calls := u \<rparr>, ended := False \<rparr>)"
    "map fst u = map fst (calls (ingress_proxy s)) @ answer_calls args1 fd answer1"
    using from_chain_step [OF assms(1,5,6,4)] by blast
  let ?s1 = "s \<lparr> ingress_proxy := (ingress_proxy s) \<lparr> calls := u \<rparr>,
    sessions := sessions s @ [Some (new_session fd second_client stack)], ended := False \<rparr>"
  have "\<not> ended ?s1" "retrieve_connection_2 (chain_key h2 TCP) (base (ingress_proxy ?s1)) = (fd, first_client)"
    using assms(3,4) by simp_all
  from from_chain_step [OF assms(2,5) this] obtain v where v: "ingress_next os L (From_chain args2) ?s1 =
      Some (?s1 \<lparr> ingress_proxy := (ingress_proxy ?s1) \<lparr> calls := v \<rparr>, ended := False \<rparr>)"
    "map fst v = map fst u @ answer_calls args2 fd answer2" by auto
  have "ingress_next os L (Accepted fd second_client stack)
      (s \<lparr> ingress_proxy := (ingress_proxy s) \<lparr> calls := u \<rparr>, ended := False \<rparr>) = Some ?s1"
    using assms(7) by (simp add: ingress_next_def)
  then show ?thesis using u v by simp
qed

section \<open>A run to try them on\<close>

abbreviation sample_start :: ingress_system where
  "sample_start \<equiv> start_ingress sample_endpoint []"

abbreviation sample_stack :: "byte list" where
  "sample_stack \<equiv> replicate buffer_size 0"

definition first_client :: sockaddr_in where
  "first_client = \<lparr> sin_port = 1, sin_addr = 2 \<rparr>"

definition sample_header :: sfc_header where
  "sample_header = entering_header sample_tcp_iphdr (tcp_source sample_tcphdr) (tcp_dest sample_tcphdr) sample_path"

definition sample_answer :: "byte \<Rightarrow> udp_pkt_mngmnt_args" where
  "sample_answer b =
     \<lparr> ua_socket_fd = 3, ua_client_address = zero_sockaddr,
       ua_pkt = sfc_header_bytes sample_header @ tcp_bytes sample_tcp_iphdr sample_tcphdr [b] @
         replicate (buffer_size - 65) 0,
       ua_pkt_len = 65 \<rparr>"

lemma tcp_answer_sample: "tcp_answer sample_header [b] (sample_answer b)"
proof -
  have "chain_packet sample_header (tcp_bytes sample_tcp_iphdr sample_tcphdr [b]) (sample_answer b)"
    by (simp add: chain_packet_def sample_answer_def tcp_bytes_def buffer_size_def)
  moreover have "event_fits (From_chain (sample_answer b))"
    by (simp add: sample_answer_def tcp_bytes_def buffer_size_def)
  ultimately show ?thesis unfolding tcp_answer_def using sample_tcp_headers by blast
qed

abbreviation sample_asker :: connection_entry where
  "sample_asker \<equiv> entering_key (ip_saddr sample_tcp_iphdr) (ip_daddr sample_tcp_iphdr)
     (tcp_source sample_tcphdr) (tcp_dest sample_tcphdr) ''0'' TCP"

lemma sample_header_key: "chain_key sample_header TCP = sample_asker"
  by (simp add: sample_header_def entering_header_key)

lemma sample_first_packet:
  obtains s ss where "ingress_reachable (sample_os [sample_addrinfo]) (answering_libs [sample_node]) sample_endpoint s"
    "retrieve_connection_2 sample_asker (base (ingress_proxy s)) = (5, first_client)" "\<not> ended s"
    "sessions s = [Some ss]"
proof -
  have state: "system_ok sample_start" "\<not> ended sample_start" "sessions sample_start = []"
    "ingress_proxy sample_start = sample_proxy"
    using sample_proxy_state(1)
    by (simp_all add: system_ok_def start_ingress_def holds_only_def table_entries_def sample_endpoint_def
        sample_proxy_def)
  have fits: "0 < length sample_chunk" "length sample_chunk \<le> buffer_size"
    by (simp_all add: sample_chunk_def buffer_size_def)
  from state(3,4) obtain t ss where t:
    "ingress_run (sample_os [sample_addrinfo]) (answering_libs [sample_node])
      [Accepted 5 first_client sample_stack, Reads 0 (Data sample_chunk)] sample_start = Some t"
    "\<not> ended t" "sessions t = [Some ss]"
    "retrieve_connection_2 sample_asker (base (ingress_proxy t)) = (5, first_client)"
    using tcp_enters [OF tcp_packet_sample fits length_replicate network_up_sample shapes_ok_answering
        service_up_answering sample_path_not_Nil state(1,2)] sample_proxy_state(2,3,5)
    by (metis append_Nil list.size(3))
  show thesis
    using that [of t ss] t ingress_run_reachable [OF t(1) reachable_start] by simp
qed

theorem stale_descriptor_crosses_witness:
  "\<exists>s t. ingress_reachable (sample_os [sample_addrinfo]) (answering_libs [sample_node]) sample_endpoint s \<and>
    ingress_run (sample_os [sample_addrinfo]) (answering_libs [sample_node])
      [From_chain (sample_answer 7), Accepted 5 zero_sockaddr sample_stack, From_chain (sample_answer 8)] s = Some t \<and>
    map fst (calls (ingress_proxy t)) = map fst (calls (ingress_proxy s)) @
      answer_calls (sample_answer 7) 5 [7] @ answer_calls (sample_answer 8) 5 [8] \<and>
    Some (new_session 5 zero_sockaddr sample_stack) \<in> set (sessions t)"
proof -
  obtain s where s: "ingress_reachable (sample_os [sample_addrinfo]) (answering_libs [sample_node]) sample_endpoint s"
    "retrieve_connection_2 (chain_key sample_header TCP) (base (ingress_proxy s)) = (5, first_client)" "\<not> ended s"
    unfolding sample_header_key by (rule sample_first_packet)
  from stale_descriptor_crosses [OF tcp_answer_sample tcp_answer_sample refl s(2) streams_up_sample s(3)
      length_replicate, of "answering_libs [sample_node]" 7 zero_sockaddr 0 8]
  obtain t where "ingress_run (sample_os [sample_addrinfo]) (answering_libs [sample_node])
      [From_chain (sample_answer 7), Accepted 5 zero_sockaddr sample_stack, From_chain (sample_answer 8)] s = Some t"
    "map fst (calls (ingress_proxy t)) = map fst (calls (ingress_proxy s)) @
      answer_calls (sample_answer 7) 5 [7] @ answer_calls (sample_answer 8) 5 [8]"
    "sessions t = sessions s @ [Some (new_session 5 zero_sockaddr sample_stack)]" by blast
  then show ?thesis using s(1) by (intro exI [of _ s] exI [of _ t]) simp
qed

theorem answers_reach_asker_witness:
  "\<exists>s t pkt prt addr. ingress_next (sample_os [sample_addrinfo]) (answering_libs [sample_node])
      (From_chain (sample_answer 7)) s = Some t \<and> length (calls (ingress_proxy t)) = length (calls (ingress_proxy s)) + 4 \<and>
    (pkt, prt, 5, addr) \<in> set (asked s)"
proof -
  let ?os = "sample_os [sample_addrinfo]" and ?L = "answering_libs [sample_node]"
  obtain s where s: "ingress_reachable ?os ?L sample_endpoint s"
    "retrieve_connection_2 (chain_key sample_header TCP) (base (ingress_proxy s)) = (5, first_client)" "\<not> ended s"
    unfolding sample_header_key by (rule sample_first_packet)
  obtain t where t: "ingress_next ?os ?L (From_chain (sample_answer 7)) s = Some t"
    "map fst (calls (ingress_proxy t)) = map fst (calls (ingress_proxy s)) @ answer_calls (sample_answer 7) 5 [7]"
    using from_chain_step [OF tcp_answer_sample streams_up_sample s(3,2), of ?L 7] by auto
  obtain x new where new: "calls (ingress_proxy t) = calls (ingress_proxy s) @ x # new"
    "new \<noteq> [] \<longrightarrow> (\<exists>prt c. (\<forall>(call, r) \<in> set new. goes_to c call) \<and>
       (c = no_connection \<or> (\<exists>pkt. (pkt, prt, c) \<in> set (asked s))))"
    using answers_reach_asker [OF shapes_ok_answering s(1) [unfolded sample_endpoint_def] t(1)] by blast
  have calls: "map fst new = [Send 5 [7], Shutdown 5 2, Close 5]"
    using t(2) new(1) by (simp add: answer_calls_def)
  then have ne: "new \<noteq> []" "Send 5 [7] \<in> fst ` set new"
    by (auto simp flip: set_map)
  then obtain prt c where c: "\<forall>(call, r) \<in> set new. goes_to c call"
    "c = no_connection \<or> (\<exists>pkt. (pkt, prt, c) \<in> set (asked s))" using new(2) by blast
  then have "fst c = 5" using ne(2) by force
  then obtain pkt where "(pkt, prt, 5, snd c) \<in> set (asked s)"
    using c(2) by (cases c) (auto simp: no_connection_def)
  moreover have "length new = 3" using arg_cong [OF calls, of length] by simp
  ultimately show ?thesis using t(1) new(1) by (intro exI conjI) (assumption | simp)+
qed

theorem ingress_state_typed_witness:
  "\<exists>s ss. ingress_reachable (sample_os [sample_addrinfo]) (answering_libs [sample_node]) sample_endpoint s \<and>
    sessions s = [Some ss] \<and> length (tl_pkt (ss_locals ss)) = buffer_size"
proof -
  obtain s ss where s: "ingress_reachable (sample_os [sample_addrinfo]) (answering_libs [sample_node]) sample_endpoint s"
    "sessions s = [Some ss]"
    by (rule sample_first_packet)
  from ingress_state_typed [OF shapes_ok_answering s(1) [unfolded sample_endpoint_def]] s show ?thesis by auto
qed

end
