(* ===== verification/Ironhide_System.thy ===== *)
theory Ironhide_System
  imports Egress_Safety Crew_Safety Ingress_Interleavings
begin

text \<open>
  The two proxies around a chain. The chain hands packets to either proxy, when and as often as it
  likes, and may change all of a packet but the connection that its header names; it makes up no
  headers. Clients, destinations, route services and operating systems do what they like, and the threads
  of both proxies interleave at every turn (Ingress_Crew, Egress_Crew).
  \<open>returned\<close> records what the chain handed to Ingress; it decides nothing.
\<close>

section \<open>State and steps\<close>

record ironhide =
  at_ingress :: crew
  at_egress :: egress_crew
  returned :: "udp_pkt_mngmnt_args list"

definition start_ironhide ::
    "endpoint_state \<Rightarrow> sys_trace \<Rightarrow> endpoint_state \<Rightarrow> sys_trace \<Rightarrow> ironhide" where
  "start_ironhide d t e u = \<lparr> at_ingress = start_crew d t, at_egress = start_exit_crew e u, returned = [] \<rparr>"

definition carried :: "ironhide \<Rightarrow> udp_pkt_mngmnt_args \<Rightarrow> bool" where
  "carried s args =
     (case retrieve_header (ua_pkt args) of
        Inl _ \<Rightarrow> True
      | Inr h \<Rightarrow> list_ex (\<lambda>b. case retrieve_header b of Inl _ \<Rightarrow> False | Inr h' \<Rightarrow> same_connection h' h)
          (chain_messages (calls (crew_proxy (at_ingress s))) @
           chain_messages (calls (exit_proxy (at_egress s)))))"

datatype ironhide_event = Ingress_does crew_event | Egress_does exit_event

text \<open>The libraries of the proxies: Li and Le, with the systems osi and ose.\<close>

fun ironhide_next ::
    "os_lib \<Rightarrow> 'i libs \<Rightarrow> os_lib \<Rightarrow> 'e libs \<Rightarrow> (string \<Rightarrow> u32) \<Rightarrow> ironhide_event \<Rightarrow> ironhide \<Rightarrow> ironhide option" where
  "ironhide_next osi Li ose Le pton (Ingress_does ev) s =
     (let returns = (case ev of Starts_on (From_chain args) \<Rightarrow> [args] | _ \<Rightarrow> [])
      in if list_all (carried s) returns
         then map_option (\<lambda>i. s \<lparr> at_ingress := i, returned := returned s @ returns \<rparr>)
                (crew_next osi Li ev (at_ingress s))
         else None)"
| "ironhide_next osi Li ose Le pton (Egress_does ev) s =
     (if list_all (carried s) (case ev of Packet_comes args stack buf \<Rightarrow> [args] | _ \<Rightarrow> [])
      then map_option (\<lambda>e. s \<lparr> at_egress := e \<rparr>) (exit_next ose Le pton ev (at_egress s))
      else None)"

inductive ironhide_reachable ::
    "os_lib \<Rightarrow> 'i libs \<Rightarrow> os_lib \<Rightarrow> 'e libs \<Rightarrow> (string \<Rightarrow> u32) \<Rightarrow> ironhide \<Rightarrow> ironhide \<Rightarrow> bool"
  for osi Li ose Le pton s0 where
  ironhide_reachable_start: "ironhide_reachable osi Li ose Le pton s0 s0"
| ironhide_reachable_next: "ironhide_reachable osi Li ose Le pton s0 s \<Longrightarrow>
    ironhide_next osi Li ose Le pton ev s = Some s' \<Longrightarrow> ironhide_reachable osi Li ose Le pton s0 s'"

fun ironhide_run ::
    "os_lib \<Rightarrow> 'i libs \<Rightarrow> os_lib \<Rightarrow> 'e libs \<Rightarrow> (string \<Rightarrow> u32) \<Rightarrow> ironhide_event list \<Rightarrow> ironhide \<Rightarrow> ironhide option" where
  "ironhide_run osi Li ose Le pton [] s = Some s"
| "ironhide_run osi Li ose Le pton (e # es) s =
     Option.bind (ironhide_next osi Li ose Le pton e s) (ironhide_run osi Li ose Le pton es)"

lemma ironhide_run_reachable:
  "ironhide_run osi Li ose Le pton es s = Some s' \<Longrightarrow> ironhide_reachable osi Li ose Le pton s0 s \<Longrightarrow>
   ironhide_reachable osi Li ose Le pton s0 s'"
  by (induction es arbitrary: s) (auto simp: bind_eq_Some_conv intro: ironhide_reachable_next)

section \<open>Headers that name what clients asked for\<close>

definition asked_header :: "(byte list \<times> protocol_type \<times> sock_conn) list \<Rightarrow> sfc_header \<Rightarrow> bool" where
  "asked_header as h \<longleftrightarrow> sfc_p_id h = 0 \<and>
     (\<exists>pkt p c. (pkt, p, c) \<in> set as \<and> packet_key p pkt = Some (chain_key h p))"

lemma asked_header_connection: "same_connection h h' \<Longrightarrow> asked_header as h \<Longrightarrow> asked_header as h'"
  by (simp add: asked_header_def same_connection_key) (simp add: same_connection_def)

lemma asked_header_mono: "asked_header as h \<Longrightarrow> asked_header (as @ bs) h"
  by (auto simp: asked_header_def)

definition behind_asked :: "(byte list \<times> protocol_type \<times> sock_conn) list \<Rightarrow> byte list \<Rightarrow> bool" where
  "behind_asked as b \<longleftrightarrow> (\<exists>h. retrieve_header b = Inr h \<and> asked_header as h)"

definition names_asked :: "(byte list \<times> protocol_type \<times> sock_conn) list \<Rightarrow> udp_pkt_mngmnt_args \<Rightarrow> bool" where
  "names_asked as args \<longleftrightarrow> (\<forall>h. retrieve_header (ua_pkt args) = Inr h \<longrightarrow> asked_header as h)"

lemma asked_mono: "behind_asked as b \<Longrightarrow> behind_asked (as @ bs) b"
  "names_asked as args \<Longrightarrow> names_asked (as @ bs) args"
  by (auto simp: behind_asked_def names_asked_def asked_header_mono)

lemma asked_messages_behind: "asked_messages as b (Resolved a) \<Longrightarrow> behind_asked as b"
  unfolding asked_messages_def behind_asked_def asked_header_def
  by (metis retrieve_header_value)

lemma egress_messages_behind:
  assumes "egress_messages A b (Resolved a)" "\<And>args. args \<in> A \<Longrightarrow> names_asked as args"
  shows "behind_asked as b"
proof -
  obtain args h h' p where h: "args \<in> A" "retrieve_header (ua_pkt args) = Inr h"
    "same_connection (h \<lparr> sfc_p_id := 0 \<rparr>) h'" "b = sfc_header_bytes h' @ p"
    using assms(1) by (auto simp: egress_messages_def)
  have "asked_header as h" using assms(2) [OF h(1)] h(2) by (simp add: names_asked_def)
  moreover from this have "h \<lparr> sfc_p_id := 0 \<rparr> = h" by (simp add: asked_header_def)
  ultimately show ?thesis
    using asked_header_connection h(3,4) retrieve_header_value by (metis behind_asked_def)
qed

section \<open>The invariant\<close>

text \<open>u0 is the trace with which Egress starts.\<close>

definition ironhide_ok :: "sys_trace \<Rightarrow> ironhide \<Rightarrow> bool" where
  "ironhide_ok u0 s \<longleftrightarrow>
     (let i = at_ingress s; e = at_egress s; as = crew_asked i
      in crew_ok i \<and> exit_crew_ok e \<and>
         (\<forall>b \<in> set (chain_messages (calls (crew_proxy i))). behind_asked as b) \<and>
         (\<forall>b \<in> set (chain_messages (calls (exit_proxy e))). behind_asked as b) \<and>
         (\<forall>args \<in> set (exit_handed e) \<union> set (returned s). names_asked as args) \<and>
         adds (egress_calls (set (exit_handed e))) u0 (calls (exit_proxy e)))"

lemma carried_names_asked:
  assumes "ironhide_ok u0 s" "carried s args"
  shows "names_asked (crew_asked (at_ingress s)) args"
  unfolding names_asked_def
proof (intro allI impI)
  fix h assume h: "retrieve_header (ua_pkt args) = Inr h"
  obtain b where b: "b \<in> set (chain_messages (calls (crew_proxy (at_ingress s)))) \<union>
      set (chain_messages (calls (exit_proxy (at_egress s))))"
    "case retrieve_header b of Inl _ \<Rightarrow> False | Inr h' \<Rightarrow> same_connection h' h"
    using assms(2) h by (auto simp: carried_def list_ex_iff)
  then obtain h' where h': "retrieve_header b = Inr h'" "same_connection h' h"
    by (auto split: sum.splits)
  have "behind_asked (crew_asked (at_ingress s)) b"
    using assms(1) b(1) unfolding ironhide_ok_def Let_def by blast
  then show "asked_header (crew_asked (at_ingress s)) h"
    using h' asked_header_connection by (auto simp: behind_asked_def)
qed

lemma crew_asked_grows:
  assumes "crew_next os L ev s = Some s'"
  shows "\<exists>new. crew_asked s' = crew_asked s @ new"
proof (cases ev)
  case (Starts_on iev)
  then show ?thesis using assms by (cases iev) (auto split: if_splits desk.splits)
qed (use assms in \<open>auto simp: clerk_turn_def desk_turn_def Let_def
  split: if_splits desk.splits thread.splits prod.splits\<close>)

lemma exit_handed_grows:
  "exit_next os L pton ev s = Some s' \<Longrightarrow>
   exit_handed s' = exit_handed s @ (case ev of Packet_comes args stack buf \<Rightarrow> [args] | _ \<Rightarrow> [])"
  by (cases ev) (auto simp: exit_next_def thread_goes_def Let_def
      split: if_splits exit_worker.splits thread.splits prod.splits)

lemma egress_calls_mono: "A \<subseteq> B \<Longrightarrow> egress_calls A c \<Longrightarrow> egress_calls B c"
  by (cases c) (auto simp: egress_messages_def egress_streams_def split: destination.splits)

lemma ironhide_ok_next:
  assumes "shapes_ok Li" "shapes_ok Le" "ironhide_ok u0 s" "ironhide_next osi Li ose Le pton ev s = Some s'"
  shows "ironhide_ok u0 s'"
proof (cases ev)
  case (Ingress_does iev)
  let ?i = "at_ingress s" and ?returns = "case iev of Starts_on (From_chain args) \<Rightarrow> [args] | _ \<Rightarrow> []"
  obtain i where i: "crew_next osi Li iev ?i = Some i" "list_all (carried s) ?returns"
    "s' = s \<lparr> at_ingress := i, returned := returned s @ ?returns \<rparr>"
    using assms(4) Ingress_does by (auto simp: Let_def split: if_splits)
  have ok: "crew_ok i" "adds (step_calls ?i iev) (calls (crew_proxy ?i)) (calls (crew_proxy i))"
    using crew_ok_next [OF assms(1) _ i(1)] assms(3) by (simp_all add: ironhide_ok_def Let_def)
  obtain new where new: "crew_asked i = crew_asked ?i @ new" using crew_asked_grows [OF i(1)] by blast
  have "behind_asked (crew_asked i) b" if "b \<in> set (chain_messages (calls (crew_proxy i)))" for b
    using messages_added [OF ok(2) that] assms(3) asked_messages_behind step_calls_into asked_mono(1) new
    unfolding ironhide_ok_def Let_def by metis
  moreover have "names_asked (crew_asked i) args" if "args \<in> set ?returns" for args
    using carried_names_asked [OF assms(3)] i(2) that asked_mono(2) new by (metis list_all_iff)
  ultimately show ?thesis
    using assms(3) ok(1) asked_mono unfolding ironhide_ok_def Let_def i(3) by (auto simp: new)
next
  case (Egress_does eev)
  let ?e = "at_egress s" and ?new = "case eev of Packet_comes args stack buf \<Rightarrow> [args] | _ \<Rightarrow> []"
    and ?as = "crew_asked (at_ingress s)"
  obtain e where e: "exit_next ose Le pton eev ?e = Some e" "list_all (carried s) ?new"
    "s' = s \<lparr> at_egress := e \<rparr>"
    using assms(4) Egress_does by (auto split: if_splits)
  have h: "exit_handed e = exit_handed ?e @ ?new" by (rule exit_handed_grows [OF e(1)])
  have before: "exit_crew_ok ?e" using assms(3) by (simp add: ironhide_ok_def Let_def)
  have ok: "exit_crew_ok e" "adds (exit_calls ?e eev) (calls (exit_proxy ?e)) (calls (exit_proxy e))"
    using exit_crew_ok_next [OF assms(2) before e(1)] by simp_all
  have added: "adds (egress_calls (set (exit_handed e))) (calls (exit_proxy ?e)) (calls (exit_proxy e))"
    by (rule adds_mono [OF ok(2)], rule egress_calls_mono [of "set (exit_handed ?e)"])
      (use exit_calls_egress [OF before] h in auto)
  have named: "names_asked ?as args" if "args \<in> set (exit_handed e)" for args
    using that assms(3) carried_names_asked [OF assms(3)] e(2) unfolding h
    by (auto simp: ironhide_ok_def Let_def list_all_iff)
  have "behind_asked ?as b" if "b \<in> set (chain_messages (calls (exit_proxy e)))" for b
  proof -
    have "egress_messages (set (exit_handed e)) b (Resolved a)"
      if "egress_calls (set (exit_handed e)) (Sendto fd b (Resolved a))" for fd a using that by simp
    then show ?thesis
      using messages_added [OF added that] assms(3) egress_messages_behind [OF _ named]
      unfolding ironhide_ok_def Let_def by blast
  qed
  moreover have "adds (egress_calls (set (exit_handed e))) u0 (calls (exit_proxy ?e))"
    using assms(3) adds_mono [OF _ egress_calls_mono [of "set (exit_handed ?e)" "set (exit_handed e)"]] h
    by (auto simp: ironhide_ok_def Let_def)
  ultimately show ?thesis
    using assms(3) ok(1) added named adds_trans unfolding ironhide_ok_def Let_def e(3) by auto
qed

lemma ironhide_ok_reachable:
  assumes "shapes_ok Li" "shapes_ok Le" "ironhide_ok u0 s0"
  shows "ironhide_reachable osi Li ose Le pton s0 s \<Longrightarrow> ironhide_ok u0 s"
proof (induction rule: ironhide_reachable.induct)
  case ironhide_reachable_start
  show ?case by (rule assms(3))
qed (use ironhide_ok_next [OF assms(1,2)] in blast)

text \<open>
  C2: Around a chain that makes up no headers the two proxies relay nothing that nobody asked for.
  Whatever clients, destinations, route services and systems do, in whatever order, and however the
  threads of the two proxies interleave between their turns, every packet
  that the chain hands to either proxy and that has a header names a connection of which a client has
  sent Ingress a packet; all that Egress sends to plain addresses are acknowledgements to its peers and
  datagrams to the destinations of such connections; and it looks up hosts for a TCP connection for
  the destinations of such connections only.
\<close>
theorem only_asked_connections:
  assumes "shapes_ok Li" "shapes_ok Le" "chain_messages t0 = []" "chain_messages u0 = []"
    and "ironhide_reachable osi Li ose Le pton
      (start_ironhide (new_endpoint interfaces1 Leaf remote1 http1 external1 internal1) t0
        (new_endpoint interfaces2 Leaf remote2 http2 external2 internal2) u0) s"
  shows "(\<forall>args \<in> set (exit_handed (at_egress s)) \<union> set (returned s). \<forall>header.
      retrieve_header (ua_pkt args) = Inr header \<longrightarrow> asked_header (crew_asked (at_ingress s)) header) \<and>
    (\<exists>new. calls (exit_proxy (at_egress s)) = u0 @ new \<and>
      (\<forall>(call, r) \<in> set new.
        (\<forall>fd b a. call = Sendto fd b (Ipv4 a) \<longrightarrow>
          b = ack \<and> a \<in> ua_client_address ` set (exit_handed (at_egress s)) \<or>
          (\<exists>header. asked_header (crew_asked (at_ingress s)) header \<and> a = exit_address header)) \<and>
        (\<forall>host port prt. call = Getaddrinfo host port SOCK_STREAM prt \<longrightarrow>
          (\<exists>header. asked_header (crew_asked (at_ingress s)) header \<and> (host, port) = exit_stream header))))"
proof -
  have "ironhide_ok u0 (start_ironhide (new_endpoint interfaces1 Leaf remote1 http1 external1 internal1) t0
      (new_endpoint interfaces2 Leaf remote2 http2 external2 internal2) u0)"
    using assms(3,4) by (simp add: ironhide_ok_def start_ironhide_def start_crew_def start_exit_crew_def
        crew_ok_def exit_crew_ok_def holds_only_def table_entries_def)
  note ok = ironhide_ok_reachable [OF assms(1,2) this assms(5), unfolded ironhide_ok_def Let_def]
  then have named: "\<And>args. args \<in> set (exit_handed (at_egress s)) \<union> set (returned s) \<Longrightarrow>
      names_asked (crew_asked (at_ingress s)) args" by blast
  obtain new where new: "calls (exit_proxy (at_egress s)) = u0 @ new"
    "\<forall>(c, v) \<in> set new. egress_calls (set (exit_handed (at_egress s))) c"
    using ok unfolding adds_def by blast
  have "b = ack \<and> a \<in> ua_client_address ` set (exit_handed (at_egress s)) \<or>
      (\<exists>header. asked_header (crew_asked (at_ingress s)) header \<and> a = exit_address header)"
    if "(Sendto fd b (Ipv4 a), r) \<in> set new" for fd b a r
  proof -
    have "egress_messages (set (exit_handed (at_egress s))) b (Ipv4 a)" using new(2) that by auto
    then show ?thesis using named by (fastforce simp: egress_messages_def names_asked_def)
  qed
  moreover have "\<exists>header. asked_header (crew_asked (at_ingress s)) header \<and> (host, port) = exit_stream header"
    if "(Getaddrinfo host port SOCK_STREAM prt, r) \<in> set new" for host port prt r
  proof -
    have "egress_streams (set (exit_handed (at_egress s))) (host, port)" using new(2) that by auto
    then show ?thesis using named by (auto simp: egress_streams_def names_asked_def)
  qed
  ultimately show ?thesis
    using named new(1) unfolding names_asked_def by (intro conjI exI [of _ new]) blast+
qed

section \<open>A run to try it on\<close>

definition sample_client_packet :: udp_pkt_mngmnt_args where
  "sample_client_packet =
     sample_args \<lparr> ua_pkt := udp_bytes sample_iphdr sample_udphdr [1, 2, 3] @ replicate (buffer_size - 31) 0 \<rparr>"

abbreviation sample_relayed :: udp_pkt_mngmnt_args where
  "sample_relayed \<equiv> sample_handed (udp_source sample_udphdr)"

lemma sample_client_datagram: "udp_datagram sample_iphdr sample_udphdr [1, 2, 3] sample_client_packet"
  by (simp add: udp_datagram_def sample_client_packet_def sample_args_def udp_bytes_def)

lemma sample_enters:
  obtains i where "ingress_next (sample_os [sample_addrinfo]) (answering_libs [sample_node])
      (Datagram sample_client_packet) sample_start = Some i"
    "sfc_header_bytes (sample_request (udp_source sample_udphdr)) @ udp_bytes sample_iphdr sample_udphdr [1, 2, 3]
      \<in> set (chain_messages (calls (ingress_proxy i)))"
proof -
  let ?os = "sample_os [sample_addrinfo]" and ?L = "answering_libs [sample_node]"
  let ?run = "manage_entering_udp_packets ?os ?L sample_client_packet sample_proxy"
  have start: "ingress_proxy sample_start = sample_proxy" "\<not> ended sample_start" "calls sample_proxy = []"
    by (simp_all add: start_ingress_def sample_proxy_def)
  obtain p where p: "?run = (Inr (), p)" "delivered (calls p) = delivered (calls sample_proxy) @
      [sfc_header_bytes (sample_request (udp_source sample_udphdr)) @ udp_bytes sample_iphdr sample_udphdr [1, 2, 3]]"
    using entering_udp_step [OF sample_client_datagram network_up_sample shapes_ok_answering
        sample_proxy_state(1,2) service_up_answering sample_path_not_Nil comparable_singleton
        sample_proxy_state(5) singletonI sample_proxy_state(3)]
    unfolding sample_request_def udp_bytes_def by auto
  have "adds (sends_if (\<lambda>b d. \<exists>a. d = Resolved a)) [] (calls (snd ?run))"
    using keeps_valueD(1) [OF asked_entering_udp [OF shapes_ok_answering], where s = sample_proxy and
        A1 = UNIV and P1 = "\<lambda>b d. \<exists>a. d = Resolved a" and t1 = "[]" and args1 = sample_client_packet and
        os1 = ?os] sample_proxy_state(1) start(3)
    by (simp add: allowed_def holds_only_def)
  then have "\<forall>(c, v) \<in> set (calls p). sends_if (\<lambda>b d. \<exists>a. d = Resolved a) c"
    using p(1) by (auto simp: adds_def)
  then have in_chain: "sfc_header_bytes (sample_request (udp_source sample_udphdr)) @
      udp_bytes sample_iphdr sample_udphdr [1, 2, 3] \<in> set (chain_messages (calls p))"
    by (rule delivered_in_chain) (simp add: p(2))
  have fits: "event_fits (Datagram sample_client_packet)"
    by (simp add: sample_client_packet_def sample_args_def udp_bytes_def buffer_size_def)
  have "ingress_next ?os ?L (Datagram sample_client_packet) sample_start = Some (settle (Inr (), p)
      (sample_start \<lparr> asked := asked sample_start @ [(ua_pkt sample_client_packet, UDP,
        ua_socket_fd sample_client_packet, ua_client_address sample_client_packet)] \<rparr>))"
    using start fits p(1) by (simp add: ingress_next_def del: event_fits.simps)
  then show thesis by (rule that) (use in_chain in \<open>simp add: settle_def\<close>)
qed

text \<open>Runs of either proxy in which nothing arrives.\<close>

lemma ironhide_run_append:
  "ironhide_run osi Li ose Le pton es s = Some t \<Longrightarrow> ironhide_run osi Li ose Le pton fs t = Some u \<Longrightarrow>
   ironhide_run osi Li ose Le pton (es @ fs) s = Some u"
  by (induction es arbitrary: s) (auto simp: bind_eq_Some_conv)

lemma ingress_turns_lift:
  "crew_run osi Li es (at_ingress s) = Some i \<Longrightarrow> received_events es = [] \<Longrightarrow>
   ironhide_run osi Li ose Le pton (map Ingress_does es) s = Some (s \<lparr> at_ingress := i \<rparr>)"
proof (induction es arbitrary: s)
  case (Cons ev es)
  then obtain j where j: "crew_next osi Li ev (at_ingress s) = Some j" "crew_run osi Li es j = Some i"
    by (auto simp: bind_eq_Some_conv)
  have "ironhide_next osi Li ose Le pton (Ingress_does ev) s = Some (s \<lparr> at_ingress := j \<rparr>)"
    "received_events es = []"
    using Cons.prems(2) j(1) by (cases ev; simp)+
  then show ?case using Cons.IH [of "s \<lparr> at_ingress := j \<rparr>"] j(2) by (simp del: ironhide_next.simps)
qed simp

lemma egress_turns_lift:
  "exit_run ose Le pton es (at_egress s) = Some e \<Longrightarrow> arrivals es = [] \<Longrightarrow>
   ironhide_run osi Li ose Le pton (map Egress_does es) s = Some (s \<lparr> at_egress := e \<rparr>)"
proof (induction es arbitrary: s)
  case (Cons ev es)
  then obtain f where f: "exit_next ose Le pton ev (at_egress s) = Some f" "exit_run ose Le pton es f = Some e"
    by (auto simp: bind_eq_Some_conv)
  have "ironhide_next osi Li ose Le pton (Egress_does ev) s = Some (s \<lparr> at_egress := f \<rparr>)" "arrivals es = []"
    using Cons.prems(2) f(1) by (cases ev; simp)+
  then show ?case using Cons.IH [of "s \<lparr> at_egress := f \<rparr>"] f(2) by (simp del: ironhide_next.simps)
qed simp

text \<open>A client's datagram goes into the chain, which hands it to Egress.\<close>

abbreviation sample_run :: "ironhide_event list \<Rightarrow> ironhide \<Rightarrow> ironhide option" where
  "sample_run \<equiv> ironhide_run (sample_os [sample_addrinfo]) (answering_libs [sample_node])
     (sample_os [sample_addrinfo]) (answering_libs [sample_node]) (\<lambda>_. 0)"

abbreviation sample_origin :: ironhide where
  "sample_origin \<equiv> start_ironhide sample_endpoint [] sample_endpoint []"

lemma sample_in_chain:
  obtains es i where "sample_run es sample_origin = Some (sample_origin \<lparr> at_ingress := i \<rparr>)"
    "sfc_header_bytes (sample_request (udp_source sample_udphdr)) @ udp_bytes sample_iphdr sample_udphdr [1, 2, 3]
      \<in> set (chain_messages (calls (crew_proxy i)))"
proof -
  let ?os = "sample_os [sample_addrinfo]" and ?L = "answering_libs [sample_node]"
  let ?first = "Starts_on (Datagram sample_client_packet)"
  obtain i where i: "ingress_next ?os ?L (Datagram sample_client_packet) sample_start = Some i"
    "sfc_header_bytes (sample_request (udp_source sample_udphdr)) @ udp_bytes sample_iphdr sample_udphdr [1, 2, 3]
      \<in> set (chain_messages (calls (ingress_proxy i)))"
    by (rule sample_enters)
  have "crew_of sample_start = at_ingress sample_origin"
    by (simp add: crew_of_def start_ingress_def start_crew_def start_ironhide_def)
  then obtain es j where es: "crew_next ?os ?L ?first (at_ingress sample_origin) = Some j"
    "crew_run ?os ?L es j = Some (crew_of i)" "received_events es = []"
    using crew_of_next [OF i(1)] by (auto simp: bind_eq_Some_conv)
  have "ironhide_next ?os ?L ?os ?L (\<lambda>_. 0) (Ingress_does ?first) sample_origin =
      Some (sample_origin \<lparr> at_ingress := j \<rparr>)"
    using es(1) by simp
  then have "sample_run (Ingress_does ?first # map Ingress_does es) sample_origin =
      Some (sample_origin \<lparr> at_ingress := crew_of i \<rparr>)"
    using ingress_turns_lift [of ?os ?L es "sample_origin \<lparr> at_ingress := j \<rparr>" "crew_of i" ?os ?L "\<lambda>_. 0"] es(2,3)
    by (simp del: ironhide_next.simps)
  then show thesis by (rule that) (use i(2) in \<open>simp add: crew_of_def\<close>)
qed

lemma sample_handed_on:
  assumes "at_egress s = start_exit_crew sample_endpoint []" "carried s sample_relayed"
  obtains fs e where "sample_run fs s = Some (s \<lparr> at_egress := e \<rparr>)" "sample_relayed \<in> set (exit_handed e)"
proof -
  let ?os = "sample_os [sample_addrinfo]" and ?L = "answering_libs [sample_node]"
  let ?idle = "start_egress sample_endpoint []" and ?chain = "Packet_comes sample_relayed sample_arrays sample_arrays"
  let ?of = "exit_crew_of ?os ?L (\<lambda>_. 0)"
  have e0: "egress_proxy ?idle = sample_proxy" "exit_threads ?idle = []" "\<not> egress_ended ?idle"
    by (simp_all add: start_egress_def sample_proxy_def)
  have taken: "updates_taken ?L (chain_key (sample_request (udp_source sample_udphdr)) UDP)"
    by (simp add: sample_request_def entering_header_key updates_taken_answering)
  obtain e2 where "egress_run ?os ?L (\<lambda>_. 0) [Chain_packet sample_relayed sample_arrays sample_arrays,
      Starts (length (exit_threads ?idle))] ?idle = Some e2"
    by (rule thread_starts [OF network_up_sample taken, of ?idle]) (use e0 sample_proxy_state in simp_all)
  then obtain e where e: "egress_next ?os ?L (\<lambda>_. 0) (Chain_packet sample_relayed sample_arrays sample_arrays) ?idle = Some e"
    by (auto simp: bind_eq_Some_conv)
  have "?of ?idle = at_egress s"
    by (simp add: assms(1) exit_crew_of_def start_egress_def start_exit_crew_def)
  then obtain fs f where fs: "exit_next ?os ?L (\<lambda>_. 0) ?chain (at_egress s) = Some f"
    "exit_run ?os ?L (\<lambda>_. 0) fs f = Some (?of e)" "arrivals fs = []"
    using exit_crew_of_next [OF e] by (auto simp: bind_eq_Some_conv)
  have "ironhide_next ?os ?L ?os ?L (\<lambda>_. 0) (Egress_does ?chain) s = Some (s \<lparr> at_egress := f \<rparr>)"
    using fs(1) assms(2) by simp
  then have "sample_run (Egress_does ?chain # map Egress_does fs) s = Some (s \<lparr> at_egress := ?of e \<rparr>)"
    using egress_turns_lift [of ?os ?L "\<lambda>_. 0" fs "s \<lparr> at_egress := f \<rparr>" "?of e" ?os ?L] fs(2,3)
    by (simp del: ironhide_next.simps)
  then show thesis by (rule that) (use egress_handed_grows [OF e] in \<open>simp add: exit_crew_of_def\<close>)
qed

theorem only_asked_connections_witness:
  "\<exists>evs s pkt p c. sample_run evs sample_origin = Some s \<and>
    sample_relayed \<in> set (exit_handed (at_egress s)) \<and> (pkt, p, c) \<in> set (crew_asked (at_ingress s)) \<and>
    packet_key p pkt = Some (chain_key (sample_request (udp_source sample_udphdr)) p)"
proof -
  obtain es i where i: "sample_run es sample_origin = Some (sample_origin \<lparr> at_ingress := i \<rparr>)"
    "sfc_header_bytes (sample_request (udp_source sample_udphdr)) @ udp_bytes sample_iphdr sample_udphdr [1, 2, 3]
      \<in> set (chain_messages (calls (crew_proxy i)))"
    by (rule sample_in_chain)
  let ?s1 = "sample_origin \<lparr> at_ingress := i \<rparr>"
  have header: "retrieve_header (ua_pkt sample_relayed) = Inr (sample_request (udp_source sample_udphdr))"
    by (simp add: sample_handed_def retrieve_header_value)
  have "carried ?s1 sample_relayed"
    unfolding carried_def header by (simp add: list_ex_iff) (rule bexI [OF _ UnI1 [OF i(2)]],
      simp add: same_connection_def retrieve_header_value)
  moreover have "at_egress ?s1 = start_exit_crew sample_endpoint []" by (simp add: start_ironhide_def)
  ultimately obtain fs e where e: "sample_run fs ?s1 = Some (?s1 \<lparr> at_egress := e \<rparr>)"
    "sample_relayed \<in> set (exit_handed e)"
    using sample_handed_on by blast
  let ?s = "?s1 \<lparr> at_egress := e \<rparr>"
  note run = ironhide_run_append [OF i(1) e(1)]
  have "chain_messages [] = []" by (simp add: chain_messages_def)
  from only_asked_connections [OF shapes_ok_answering shapes_ok_answering this this
      ironhide_run_reachable [OF run [unfolded sample_endpoint_def] ironhide_reachable_start]]
  have "asked_header (crew_asked (at_ingress ?s)) (sample_request (udp_source sample_udphdr))"
    using e(2) header by auto
  then show ?thesis
    using run e(2) unfolding asked_header_def by fastforce
qed

end
