(* ===== verification/Crew_Races.thy ===== *)
theory Crew_Races
  imports Crew_Safety Ingress_Interleavings
begin

text \<open>
  What still goes wrong when the threads of Ingress interleave: two answers of one connection, each
  handled by a thread that finds the connection before the other has deleted it.
\<close>

section \<open>Single turns\<close>

definition clerk_at :: "crew \<Rightarrow> nat \<Rightarrow> (proxy, unit) thread \<Rightarrow> bool" where
  "clerk_at s i th \<longleftrightarrow> i < length (clerks s) \<and> snd (clerks s ! i) = th"

text \<open>The clerks but the i-th are where they were.\<close>

definition others_wait :: "nat \<Rightarrow> crew \<Rightarrow> crew \<Rightarrow> bool" where
  "others_wait i s t \<longleftrightarrow> (\<forall>j th. j \<noteq> i \<longrightarrow> clerk_at s j th \<longrightarrow> clerk_at t j th)"

lemma others_wait_trans: "others_wait i s t \<Longrightarrow> others_wait i t u \<Longrightarrow> others_wait i s u"
  by (simp add: others_wait_def)

lemma clerk_goes:
  assumes "clerk_at s i (bind_thread (turn m) k)" "\<not> crew_ended s" "m (crew_proxy s) = (Inr x, q)"
  obtains t where "crew_next os L (Clerk_turn i) s = Some t" "clerk_at t i (k x)" "crew_proxy t = q"
    "\<not> crew_ended t" "others_wait i s t"
proof -
  obtain job where c: "i < length (clerks s)" "clerks s ! i = (job, bind_thread (turn m) k)"
    using assms(1) by (cases "clerks s ! i") (auto simp: clerk_at_def)
  have "crew_next os L (Clerk_turn i) s = Some (s \<lparr> clerks := (clerks s)[i := (job, k x)], crew_proxy := q \<rparr>)"
    using c assms(2,3) by (simp add: clerk_turn_def turn_def)
  then show thesis
    by (rule that) (use c assms(2) in \<open>auto simp: clerk_at_def others_wait_def\<close>)
qed

lemma bind_return_thread: "bind_thread (Done r) (\<lambda>x. Done (Inr x)) = Done r"
  by (cases r) simp_all

lemma bind_turn_right: "turn m = bind_thread (turn m) (\<lambda>x. Done (Inr x))"
  by (simp add: turn_def prod.map_comp comp_def bind_return_thread id_def del: bind_thread.simps(1))

section \<open>An answer, up to its deletion\<close>

lemma answer_thread:
  assumes "chain_udp_packet h payload args"
  shows "from_chain_thread os L args =
    bind_thread (turn (on_sys (sys_do os (Sendto (ua_socket_fd args) ack (Ipv4 (ua_client_address args)))))) (\<lambda>_.
    bind_thread (turn (\<lambda>s. (Inr (retrieve_connection_2 (chain_key h UDP) (base s)), s))) (\<lambda>(fd, addr).
    bind_thread (turn (on_sys (sys os (Sendto fd payload (Ipv4 addr))))) (\<lambda>r.
    if r < 0 then Done (Inl (Exit_process 1)) else delete_entry_thread L (chain_key h UDP))))"
proof -
  obtain iph where "retrieve_header (ua_pkt args) = Inr h"
    "retrieve_ip_header (drop header_size (ua_pkt args)) = Inr iph" "ip_protocol iph \<noteq> 6"
    "udp_packet_header_size (drop header_size (ua_pkt args)) = Inr 28"
    "payload_bytes (ua_pkt args) (ua_pkt_len args) (header_size + 28) = Inr payload"
    by (rule chain_udp_packet_reads [OF assms])
  then show ?thesis by (simp add: from_chain_thread_def call_turn_def do_turn_def Let_def)
qed

text \<open>Acknowledged, looked up and sent; the tables and the route service are as before.\<close>

lemma answer_turns:
  assumes "chain_udp_packet h payload args" "payload \<noteq> []" "network_up os"
    and "clerk_at s i (from_chain_thread os L args)" "\<not> crew_ended s"
  obtains t where "crew_run os L (replicate 3 (Clerk_turn i)) s = Some t"
    "clerk_at t i (delete_entry_thread L (chain_key h UDP))" "base (crew_proxy t) = base (crew_proxy s)"
    "\<not> crew_ended t" "others_wait i s t"
proof -
  let ?ce = "chain_key h UDP"
  note th = assms(4) [unfolded answer_thread [OF assms(1)]]
  obtain s1 where s1: "crew_next os L (Clerk_turn i) s = Some s1"
    "clerk_at s1 i (bind_thread (turn (\<lambda>s. (Inr (retrieve_connection_2 ?ce (base s)), s))) (\<lambda>(fd, addr).
      bind_thread (turn (on_sys (sys os (Sendto fd payload (Ipv4 addr))))) (\<lambda>r.
      if r < 0 then Done (Inl (Exit_process 1)) else delete_entry_thread L ?ce)))"
    "base (crew_proxy s1) = base (crew_proxy s)" "\<not> crew_ended s1" "others_wait i s s1"
    by (rule clerk_goes [OF th assms(5)]) auto
  obtain fd addr where c: "retrieve_connection_2 ?ce (base (crew_proxy s1)) = (fd, addr)" by fastforce
  obtain s2 where s2: "crew_next os L (Clerk_turn i) s1 = Some s2"
    "clerk_at s2 i (bind_thread (turn (on_sys (sys os (Sendto fd payload (Ipv4 addr))))) (\<lambda>r.
      if r < 0 then Done (Inl (Exit_process 1)) else delete_entry_thread L ?ce))"
    "crew_proxy s2 = crew_proxy s1" "\<not> crew_ended s2" "others_wait i s1 s2"
    by (rule clerk_goes [OF s1(2,4)]) (use c in auto)
  have sent: "\<not> os_ret os t (Sendto fd payload (Ipv4 addr)) < 0" for t
    using network_upD(5) [OF assms(3,2)] by (metis less_asym)
  obtain s3 where s3: "crew_next os L (Clerk_turn i) s2 = Some s3"
    "clerk_at s3 i (delete_entry_thread L ?ce)" "base (crew_proxy s3) = base (crew_proxy s2)"
    "\<not> crew_ended s3" "others_wait i s2 s3"
    by (rule clerk_goes [OF s2(2,4)]) (use sent in auto)
  have "crew_run os L (replicate 3 (Clerk_turn i)) s = Some s3"
    using s1(1) s2(1) s3(1) by (simp add: numeral_3_eq_3 del: crew_next.simps)
  then show thesis
    by (rule that [OF _ s3(2) _ s3(4) others_wait_trans [OF s1(5) others_wait_trans [OF s2(5) s3(5)]]])
      (simp only: s1(3) s2(3) s3(3))
qed

section \<open>A deletion\<close>

definition deletion :: "'j libs \<Rightarrow> connection_entry \<Rightarrow> (proxy, unit) thread" where
  "deletion L ce =
     bind_thread (turn (on_base (erase_connection L ce))) (\<lambda>_.
     bind_thread (turn (on_base (get_remote L ce))) (\<lambda>remote_id.
     bind_thread (turn (on_base (request_delete L remote_id))) (\<lambda>_.
     turn (on_base (erase_remote L ce)))))"

text \<open>The route service takes every deletion.\<close>

definition deletes_taken :: "'j libs \<Rightarrow> bool" where
  "deletes_taken L \<longleftrightarrow> (\<forall>w. h_init (lib_http L) w \<and> \<not> isl (reply_value (lib_json L) (lib_http L) w))"

text \<open>States in which the connection's identifier is known to the tables.\<close>

definition table_state :: "connection_entry set \<Rightarrow> address \<Rightarrow> crew \<Rightarrow> bool" where
  "table_state K a s \<longleftrightarrow> tables_ordered K (base (crew_proxy s)) \<and> roulette (base (crew_proxy s)) = Some a \<and>
     \<not> crew_ended s"

lemma known_turn:
  assumes "clerk_at s i (delete_entry_thread L ce)" "table_state K a s" "comparable K" "ce \<in> K"
    and "connections (base (crew_proxy s)) ce \<noteq> None"
  obtains t where "crew_next os L (Clerk_turn i) s = Some t" "clerk_at t i (deletion L ce)"
    "crew_proxy t = crew_proxy s" "\<not> crew_ended t" "others_wait i s t"
proof -
  have "map_order.ordered ce_less K (connection_map (base (crew_proxy s)))"
    using assms(2) by (simp add: table_state_def tables_ordered_def)
  from comparable_laws(1) [OF assms(3) this assms(4)]
  have "map_find ce_less (connection_map (base (crew_proxy s))) ce \<noteq> None"
    using assms(5) by (simp add: connections_def)
  then have known: "on_base (connection_known ce) (crew_proxy s) = (Inr True, crew_proxy s)"
    by (simp add: connection_known_def)
  have on: "\<not> crew_ended s" using assms(2) by (simp add: table_state_def)
  obtain t where "crew_next os L (Clerk_turn i) s = Some t" "clerk_at t i (deletion L ce)"
    "crew_proxy t = crew_proxy s" "\<not> crew_ended t" "others_wait i s t"
    by (rule clerk_goes [OF assms(1) [unfolded delete_entry_thread_def] on known])
      (simp add: deletion_def)
  then show thesis by (rule that)
qed

text \<open>The connection goes, its identifier is looked up, or made empty, and its deletion is requested.\<close>

lemma deletion_turns:
  assumes "clerk_at s i (deletion L ce)" "table_state K a s" "comparable K" "ce \<in> K" "shapes_ok L"
    and "deletes_taken L" "CHR 0x00 \<notin> set (addr_text a)"
    and "remote_ids (base (crew_proxy s)) ce = None \<or>
      (\<exists>x. remote_ids (base (crew_proxy s)) ce = Some x \<and> segment x)"
  obtains t r where "crew_run os L (replicate 3 (Clerk_turn i)) s = Some t"
    "clerk_at t i (turn (on_base (erase_remote L ce)))" "table_state K a t" "others_wait i s t"
    "sent (http (base (crew_proxy t))) = sent (http (base (crew_proxy s))) @ [r]"
    "req_method r = ''DELETE''" "req_url r = get_URL a @ ''endpoints/'' @
      (case remote_ids (base (crew_proxy s)) ce of None \<Rightarrow> [] | Some x \<Rightarrow> x)"
proof -
  let ?b = "base (crew_proxy s)"
  let ?id = "case remote_ids ?b ce of None \<Rightarrow> [] | Some x \<Rightarrow> x"
  note laws = comparable_laws [OF assms(3) _ assms(4)]
  have ord: "map_order.ordered ce_less K (connection_map ?b)" "map_order.ordered ce_less K (map_to_remote ?b)"
    and sh: "rebalances (conn_shape L)" "rebalances (remote_shape L)"
    and on: "\<not> crew_ended s" "roulette ?b = Some a"
    using assms(2,5) by (simp_all add: table_state_def tables_ordered_def shapes_ok_def)
  define b1 where "b1 = ?b \<lparr> connection_map := map_erase ce_less (conn_shape L) (connection_map ?b) ce \<rparr>"
  obtain m where get: "map_get ce_less (remote_shape L) [] (map_to_remote ?b) ce = (?id, m)"
    "map_order.ordered ce_less K m"
    using laws(5) [OF ord(2) sh(2), of "[]"]
    by (cases "map_get ce_less (remote_shape L) [] (map_to_remote ?b) ce") (simp add: remote_ids_def)
  have id: "?id = [] \<or> segment ?id" "c_str ?id = ?id"
    using assms(8) by (auto simp: segment_def c_str_def takeWhile_eq_all_conv)
  have init: "h_init (lib_http L) (sent (http ?b))" using assms(6) by (simp add: deletes_taken_def)
  obtain r where r: "req_method r = ''DELETE''" "req_url r = get_URL a @ ''endpoints/'' @ ?id"
    "fst (delete_db_entry (lib_json L) (lib_http L) a ?id (http ?b)) =
       reply_value (lib_json L) (lib_http L) (sent (http ?b) @ [r])"
    "sent (snd (delete_db_entry (lib_json L) (lib_http L) a ?id (http ?b))) = sent (http ?b) @ [r]"
    using delete_request [OF id(1) init assms(7)] by blast
  have "\<not> isl (fst (delete_db_entry (lib_json L) (lib_http L) a ?id (http ?b)))"
    unfolding r(3) using assms(6) unfolding deletes_taken_def by blast
  then obtain v where "fst (delete_db_entry (lib_json L) (lib_http L) a ?id (http ?b)) = Inr v"
    by (metis isl_def sum.exhaust)
  then obtain h where req: "delete_db_entry (lib_json L) (lib_http L) a ?id (http ?b) = (Inr v, h)"
    by (metis prod.collapse)
  define b2 where "b2 = b1 \<lparr> map_to_remote := m \<rparr>"
  obtain s1 where s1: "crew_next os L (Clerk_turn i) s = Some s1"
    "clerk_at s1 i (bind_thread (turn (on_base (get_remote L ce))) (\<lambda>remote_id.
      bind_thread (turn (on_base (request_delete L remote_id))) (\<lambda>_. turn (on_base (erase_remote L ce)))))"
    "base (crew_proxy s1) = b1" "\<not> crew_ended s1" "others_wait i s s1"
    by (rule clerk_goes [OF assms(1) [unfolded deletion_def] on(1)])
      (auto simp: erase_connection_def b1_def)
  have "on_base (get_remote L ce) (crew_proxy s1) = (Inr ?id, (crew_proxy s1) \<lparr> base := b2 \<rparr>)"
    using get(1) s1(3) by (simp add: get_remote_def b1_def b2_def)
  then obtain s2 where s2: "crew_next os L (Clerk_turn i) s1 = Some s2"
    "clerk_at s2 i (bind_thread (turn (on_base (request_delete L ?id))) (\<lambda>_. turn (on_base (erase_remote L ce))))"
    "crew_proxy s2 = (crew_proxy s1) \<lparr> base := b2 \<rparr>" "\<not> crew_ended s2" "others_wait i s1 s2"
    by (rule clerk_goes [OF s1(2,4)])
  have "on_base (request_delete L ?id) (crew_proxy s2) = (Inr v, (crew_proxy s2) \<lparr> base := b2 \<lparr> http := h \<rparr> \<rparr>)"
    using req id(2) s2(3) on(2) by (simp add: request_delete_def with_roulette_def b1_def b2_def)
  then obtain s3 where s3: "crew_next os L (Clerk_turn i) s2 = Some s3"
    "clerk_at s3 i (turn (on_base (erase_remote L ce)))"
    "crew_proxy s3 = (crew_proxy s2) \<lparr> base := b2 \<lparr> http := h \<rparr> \<rparr>"
    "\<not> crew_ended s3" "others_wait i s2 s3"
    by (rule clerk_goes [OF s2(2,4)])
  have "table_state K a s3"
    using s3(3,4) get(2) laws(6) [OF ord(1) sh(1)] on(2)
    by (simp add: table_state_def tables_ordered_def b1_def b2_def)
  moreover have "others_wait i s s3" by (rule others_wait_trans [OF s1(5) others_wait_trans [OF s2(5) s3(5)]])
  moreover have "crew_run os L (replicate 3 (Clerk_turn i)) s = Some s3"
    using s1(1) s2(1) s3(1) by (simp add: numeral_3_eq_3 del: crew_next.simps)
  ultimately show thesis
    using that [of s3 r] s3(2,3) r req by simp
qed

lemma erase_remote_turn:
  assumes "clerk_at s i (turn (on_base (erase_remote L ce)))" "table_state K a s" "comparable K" "ce \<in> K"
    and "shapes_ok L"
  obtains t where "crew_next os L (Clerk_turn i) s = Some t" "table_state K a t" "others_wait i s t"
    "remote_ids (base (crew_proxy t)) ce = None"
    "sent (http (base (crew_proxy t))) = sent (http (base (crew_proxy s)))"
proof -
  let ?b = "base (crew_proxy s)"
  have ord: "map_order.ordered ce_less K (map_to_remote ?b)" "rebalances (remote_shape L)" "\<not> crew_ended s"
    using assms(2,5) by (simp_all add: table_state_def tables_ordered_def shapes_ok_def)
  note erased = comparable_laws(6) [OF assms(3) ord(1) assms(4) ord(2)]
  have th: "clerk_at s i (bind_thread (turn (on_base (erase_remote L ce))) (\<lambda>x. Done (Inr x)))"
    by (rule subst [of _ _ "clerk_at s i", OF bind_turn_right assms(1)])
  have "on_base (erase_remote L ce) (crew_proxy s) = (Inr (), (crew_proxy s) \<lparr> base := ?b \<lparr> map_to_remote :=
      map_erase ce_less (remote_shape L) (map_to_remote ?b) ce \<rparr> \<rparr>)"
    by (simp add: erase_remote_def)
  then obtain t where "crew_next os L (Clerk_turn i) s = Some t" "clerk_at t i (Done (Inr ()))"
    "crew_proxy t = (crew_proxy s) \<lparr> base := ?b \<lparr> map_to_remote :=
      map_erase ce_less (remote_shape L) (map_to_remote ?b) ce \<rparr> \<rparr>" "\<not> crew_ended t" "others_wait i s t"
    by (rule clerk_goes [OF th ord(3)])
  then show thesis
    using that [of t] assms(2) erased by (simp add: table_state_def tables_ordered_def remote_ids_def)
qed

section \<open>Two answers at once\<close>

text \<open>
  C15: Two answers of one connection that the chain hands over before either is dealt with make
  Ingress ask the route service to delete everything. Both threads send their answer and find the
  connection; the first then deletes it and its identifier; the second, which has passed the check,
  asks the table for an identifier that is gone, gets the empty one that the subscript makes, and
  sends DELETE for the path of all entries of the route service. One after the other, the second
  would have found no connection. Here no other thread is at work, the network and the service take
  what they are sent, and the keys in use are comparable in an ordered table, which holds the
  connection and its identifier.
\<close>
theorem racing_answers_delete_all:
  assumes "chain_udp_packet h payload1 args1" "chain_udp_packet h' payload2 args2"
    and "chain_key h' UDP = chain_key h UDP" "payload1 \<noteq> []" "payload2 \<noteq> []"
    and "event_fits (From_chain args1)" "event_fits (From_chain args2)"
    and "network_up os" "shapes_ok L" "deletes_taken L" "CHR 0x00 \<notin> set (addr_text a)"
    and "comparable K" "chain_key h UDP \<in> K" "table_state K a s" "clerks s = []"
    and "connections (base (crew_proxy s)) (chain_key h UDP) \<noteq> None"
    and "remote_ids (base (crew_proxy s)) (chain_key h UDP) = Some entry_id" "segment entry_id"
  shows "\<exists>t r1 r2. crew_run os L
      ([Starts_on (From_chain args1), Starts_on (From_chain args2)] @ replicate 3 (Clerk_turn 0) @
       replicate 3 (Clerk_turn 1) @ [Clerk_turn 0, Clerk_turn 1] @ replicate 3 (Clerk_turn 0) @
       [Clerk_turn 0] @ replicate 3 (Clerk_turn 1)) s = Some t \<and>
    sent (http (base (crew_proxy t))) = sent (http (base (crew_proxy s))) @ [r1, r2] \<and>
    req_method r1 = ''DELETE'' \<and> req_url r1 = get_URL a @ ''endpoints/'' @ entry_id \<and>
    req_method r2 = ''DELETE'' \<and> req_url r2 = get_URL a @ ''endpoints/''"
proof -
  let ?ce = "chain_key h UDP"
  have on: "\<not> crew_ended s" using assms(14) by (simp add: table_state_def)
  let ?s2 = "s \<lparr> clerks := [(For_chain args1, from_chain_thread os L args1), (For_chain args2, from_chain_thread os L args2)] \<rparr>"
  have s2: "crew_run os L [Starts_on (From_chain args1), Starts_on (From_chain args2)] s = Some ?s2"
    using on assms(6,7,15) by (simp del: event_fits.simps)
  have at: "clerk_at ?s2 0 (from_chain_thread os L args1)" "clerk_at ?s2 1 (from_chain_thread os L args2)"
    by (simp_all add: clerk_at_def)
  have "\<not> crew_ended ?s2" using on by simp
  obtain t1 where t1: "crew_run os L (replicate 3 (Clerk_turn 0)) ?s2 = Some t1"
    "clerk_at t1 0 (delete_entry_thread L ?ce)" "base (crew_proxy t1) = base (crew_proxy ?s2)" "\<not> crew_ended t1"
    "others_wait 0 ?s2 t1"
    by (rule answer_turns [OF assms(1,4,8) at(1) \<open>\<not> crew_ended ?s2\<close>])
  have "clerk_at t1 1 (from_chain_thread os L args2)" using t1(5) at(2) by (simp add: others_wait_def)
  from answer_turns [OF assms(2,5,8) this t1(4), unfolded assms(3)]
  obtain t2 where t2: "crew_run os L (replicate 3 (Clerk_turn 1)) t1 = Some t2"
    "clerk_at t2 1 (delete_entry_thread L ?ce)" "base (crew_proxy t2) = base (crew_proxy t1)" "\<not> crew_ended t2"
    "others_wait 1 t1 t2" by metis
  have base2: "base (crew_proxy t2) = base (crew_proxy s)" using t2(3) t1(3) by simp
  then have state2: "table_state K a t2" using assms(14) t2(4) by (simp add: table_state_def)
  have "clerk_at t2 0 (delete_entry_thread L ?ce)" using t2(5) t1(2) by (simp add: others_wait_def)
  then obtain t3 where t3: "crew_next os L (Clerk_turn 0) t2 = Some t3" "clerk_at t3 0 (deletion L ?ce)"
    "crew_proxy t3 = crew_proxy t2" "\<not> crew_ended t3" "others_wait 0 t2 t3"
    by (rule known_turn [OF _ state2 assms(12,13) assms(16) [folded base2]])
  have state3: "table_state K a t3" using state2 t3(3,4) by (simp add: table_state_def)
  have "clerk_at t3 1 (delete_entry_thread L ?ce)" using t3(5) t2(2) by (simp add: others_wait_def)
  then obtain t4 where t4: "crew_next os L (Clerk_turn 1) t3 = Some t4" "clerk_at t4 1 (deletion L ?ce)"
    "crew_proxy t4 = crew_proxy t3" "\<not> crew_ended t4" "others_wait 1 t3 t4"
    by (rule known_turn [OF _ state3 assms(12,13) assms(16) [folded base2, folded t3(3)]])
  have state4: "table_state K a t4" using state3 t4(3,4) by (simp add: table_state_def)
  have base4: "base (crew_proxy t4) = base (crew_proxy s)" using t4(3) t3(3) base2 by simp
  have "clerk_at t4 0 (deletion L ?ce)" using t4(5) t3(2) by (simp add: others_wait_def)
  then obtain t5 r1 where t5: "crew_run os L (replicate 3 (Clerk_turn 0)) t4 = Some t5"
    "clerk_at t5 0 (turn (on_base (erase_remote L ?ce)))" "table_state K a t5" "others_wait 0 t4 t5"
    "sent (http (base (crew_proxy t5))) = sent (http (base (crew_proxy t4))) @ [r1]"
    "req_method r1 = ''DELETE''" "req_url r1 = get_URL a @ ''endpoints/'' @
      (case remote_ids (base (crew_proxy t4)) ?ce of None \<Rightarrow> [] | Some x \<Rightarrow> x)"
    by (rule deletion_turns [OF _ state4 assms(12,13,9,10,11)]) (use base4 assms(17,18) in auto)
  obtain t6 where t6: "crew_next os L (Clerk_turn 0) t5 = Some t6" "table_state K a t6" "others_wait 0 t5 t6"
    "remote_ids (base (crew_proxy t6)) ?ce = None"
    "sent (http (base (crew_proxy t6))) = sent (http (base (crew_proxy t5)))"
    by (rule erase_remote_turn [OF t5(2,3) assms(12,13,9)])
  have "clerk_at t6 1 (deletion L ?ce)" using t6(3) t5(4) t4(2) by (simp add: others_wait_def)
  then obtain t7 r2 where t7: "crew_run os L (replicate 3 (Clerk_turn 1)) t6 = Some t7"
    "sent (http (base (crew_proxy t7))) = sent (http (base (crew_proxy t6))) @ [r2]"
    "req_method r2 = ''DELETE''" "req_url r2 = get_URL a @ ''endpoints/'' @
      (case remote_ids (base (crew_proxy t6)) ?ce of None \<Rightarrow> [] | Some x \<Rightarrow> x)"
    by (rule deletion_turns [OF _ t6(2) assms(12,13,9,10,11)]) (use t6(4) in auto)
  have one: "crew_run os L [Clerk_turn 0, Clerk_turn 1] t2 = Some t4" "crew_run os L [Clerk_turn 0] t5 = Some t6"
    using t3(1) t4(1) t6(1) by (simp_all del: crew_next.simps)
  note run = crew_run_append [OF s2 crew_run_append [OF t1(1) crew_run_append [OF t2(1)
    crew_run_append [OF one(1) crew_run_append [OF t5(1) crew_run_append [OF one(2) t7(1)]]]]]]
  show ?thesis
    by (intro exI [of _ t7] exI [of _ r1] exI [of _ r2] conjI run)
      (use t5(5-7) t6(4,5) t7(2-4) base4 assms(17) in simp_all)
qed

section \<open>Runs to try them on\<close>

text \<open>The thread of a TCP answer.\<close>

lemma tcp_answer_thread:
  assumes "tcp_answer h answer args"
  shows "from_chain_thread os L args =
    bind_thread (turn (on_sys (sys_do os (Sendto (ua_socket_fd args) ack (Ipv4 (ua_client_address args)))))) (\<lambda>_.
    bind_thread (turn (\<lambda>s. (Inr (retrieve_connection_2 (chain_key h TCP) (base s)), s))) (\<lambda>(fd, addr).
    bind_thread (turn (on_sys (sys os (Send fd answer)))) (\<lambda>r.
    if r < 0 then Done (Inl (Exit_process 1))
    else bind_thread (do_turn os (Shutdown fd 2)) (\<lambda>_. do_turn os (Close fd)))))"
proof -
  obtain iph tcph where p: "ip_ihl iph = 5" "ip_protocol iph = 6" "tcp_doff tcph = 5"
    "chain_packet h (tcp_bytes iph tcph answer) args"
    using assms unfolding tcp_answer_def by blast
  from chain_tcp_packet_reads [OF p(4,1-3)] p(2) show ?thesis
    by (simp add: from_chain_thread_def call_turn_def do_turn_def Let_def)
qed

lemma sample_answer_turn:
  obtains s t r where "crew_reachable (sample_os [sample_addrinfo]) (answering_libs [sample_node]) sample_endpoint s"
    "crew_next (sample_os [sample_addrinfo]) (answering_libs [sample_node]) (Clerk_turn 0) s = Some t"
    "calls (crew_proxy t) = calls (crew_proxy s) @ [(Send 5 [7], r)]"
proof -
  let ?os = "sample_os [sample_addrinfo]" and ?L = "answering_libs [sample_node]"
  let ?args = "sample_answer 7" and ?key = "chain_key sample_header TCP"
  obtain s where s: "ingress_reachable ?os ?L sample_endpoint s"
    "retrieve_connection_2 ?key (base (ingress_proxy s)) = (5, first_client)" "\<not> ended s"
    unfolding sample_header_key by (rule sample_first_packet)
  let ?s1 = "(crew_of s) \<lparr> clerks := [(For_chain ?args, from_chain_thread ?os ?L ?args)] \<rparr>"
  have "event_fits (From_chain ?args)" using tcp_answer_sample [of 7] by (simp only: tcp_answer_def)
  then have "crew_next ?os ?L (Starts_on (From_chain ?args)) (crew_of s) = Some ?s1"
    using s(3) by (simp add: crew_of_def del: event_fits.simps)
  moreover have "clerk_at ?s1 0 (from_chain_thread ?os ?L ?args)" "\<not> crew_ended ?s1"
    "crew_proxy ?s1 = ingress_proxy s"
    using s(3) by (simp_all add: clerk_at_def crew_of_def)
  ultimately obtain s1 where s1: "crew_next ?os ?L (Starts_on (From_chain ?args)) (crew_of s) = Some s1"
    "clerk_at s1 0 (from_chain_thread ?os ?L ?args)" "\<not> crew_ended s1" "crew_proxy s1 = ingress_proxy s"
    by blast
  obtain s2 where s2: "crew_next ?os ?L (Clerk_turn 0) s1 = Some s2"
    "clerk_at s2 0 (bind_thread (turn (\<lambda>s. (Inr (retrieve_connection_2 ?key (base s)), s))) (\<lambda>(fd, addr).
      bind_thread (turn (on_sys (sys ?os (Send fd [7])))) (\<lambda>r.
      if r < 0 then Done (Inl (Exit_process 1))
      else bind_thread (do_turn ?os (Shutdown fd 2)) (\<lambda>_. do_turn ?os (Close fd)))))"
    "base (crew_proxy s2) = base (ingress_proxy s)" "\<not> crew_ended s2"
    by (rule clerk_goes [OF s1(2) [unfolded tcp_answer_thread [OF tcp_answer_sample]] s1(3)])
      (auto simp: s1(4))
  obtain s3 where s3: "crew_next ?os ?L (Clerk_turn 0) s2 = Some s3"
    "clerk_at s3 0 (bind_thread (turn (on_sys (sys ?os (Send 5 [7])))) (\<lambda>r.
      if r < 0 then Done (Inl (Exit_process 1))
      else bind_thread (do_turn ?os (Shutdown 5 2)) (\<lambda>_. do_turn ?os (Close 5))))" "\<not> crew_ended s3"
    by (rule clerk_goes [OF s2(2,4)]) (use s(2) s2(3) in auto)
  obtain t r where "crew_next ?os ?L (Clerk_turn 0) s3 = Some t"
    "calls (crew_proxy t) = calls (crew_proxy s3) @ [(Send 5 [7], r)]"
    by (rule clerk_goes [OF s3(2,3)]) auto
  moreover have "crew_reachable ?os ?L sample_endpoint s3"
    using crew_of_reachable [OF s(1)] s1(1) s2(1) s3(1) crew_reachable_next by blast
  ultimately show thesis using that by blast
qed

theorem no_interleaving_crosses_witness:
  "\<exists>s t pkt prt addr r. crew_next (sample_os [sample_addrinfo]) (answering_libs [sample_node]) (Clerk_turn 0) s = Some t \<and>
    calls (crew_proxy t) = calls (crew_proxy s) @ [(Send 5 [7], r)] \<and> (pkt, prt, 5, addr) \<in> set (crew_asked s)"
proof -
  obtain s t r where s: "crew_reachable (sample_os [sample_addrinfo]) (answering_libs [sample_node]) sample_endpoint s"
    "crew_next (sample_os [sample_addrinfo]) (answering_libs [sample_node]) (Clerk_turn 0) s = Some t"
    "calls (crew_proxy t) = calls (crew_proxy s) @ [(Send 5 [7], r)]"
    by (rule sample_answer_turn)
  have "\<exists>pkt prt addr. (pkt, prt, 5, addr) \<in> set (crew_asked s)"
    using conjunct2 [OF no_interleaving_crosses [OF shapes_ok_answering s(1) [unfolded sample_endpoint_def] s(2)]]
    unfolding s(3) by (auto simp: no_connection_def)
  then show ?thesis using s(2,3) by blast
qed

text \<open>Two answers of one connection that the service has given the identifier 7.\<close>

definition sample_racer :: "byte \<Rightarrow> udp_pkt_mngmnt_args" where
  "sample_racer b =
     \<lparr> ua_socket_fd = 3, ua_client_address = zero_sockaddr,
       ua_pkt = sfc_header_bytes sample_header @ iphdr_bytes sample_iphdr @ udphdr_bytes sample_udphdr @ [b] @
         replicate (buffer_size - 53) 0,
       ua_pkt_len = 53 \<rparr>"

lemma sample_racer_packet: "chain_udp_packet sample_header [b] (sample_racer b)"
  "event_fits (From_chain (sample_racer b))"
proof -
  show "chain_udp_packet sample_header [b] (sample_racer b)"
    unfolding chain_udp_packet_def sample_racer_def
    by (intro exI [of _ sample_iphdr] exI [of _ sample_udphdr] exI [of _ "replicate (buffer_size - 53) 0"])
      (simp add: sample_iphdr_def buffer_size_def)
  show "event_fits (From_chain (sample_racer b))" by (simp add: sample_racer_def buffer_size_def)
qed

definition sample_shared :: crew where
  "sample_shared = start_crew (sample_endpoint
     \<lparr> connection_map := Node Leaf (chain_key sample_header UDP, (5, first_client)) Leaf,
       map_to_remote := Node Leaf (chain_key sample_header UDP, ''7'') Leaf \<rparr>) []"

lemma deletes_taken_answering: "deletes_taken (answering_libs si)"
  by (simp add: deletes_taken_def reply_value_def answering_libs_def sample_libs_def sample_json_def sample_reply_def
      handle_req_def is_op_ok_def REPLY_RESULT_def REPLY_OK_def)

theorem racing_answers_delete_all_witness:
  "\<exists>es t r1 r2. crew_run (sample_os [sample_addrinfo]) (answering_libs [sample_node]) es sample_shared = Some t \<and>
    sent (http (base (crew_proxy t))) = [r1, r2] \<and> req_url r2 = get_URL home_address @ ''endpoints/''"
proof -
  let ?key = "chain_key sample_header UDP"
  note new = sample_shared_def start_crew_def sample_endpoint_def new_endpoint_def set_my_ip_def c_str_def
  have state: "table_state {?key} home_address sample_shared" "clerks sample_shared = []"
    by (simp_all add: table_state_def tables_ordered_def new map_order.ordered_def [OF map_order_comparable])
  have entry: "connections (base (crew_proxy sample_shared)) ?key \<noteq> None"
    "remote_ids (base (crew_proxy sample_shared)) ?key = Some ''7''" "segment ''7''"
    "CHR 0x00 \<notin> set (addr_text home_address)" "sent (http (base (crew_proxy sample_shared))) = []"
    by (simp_all add: connections_def remote_ids_def segment_def home_address_def no_http_def new)
  from racing_answers_delete_all [OF sample_racer_packet(1) sample_racer_packet(1) refl _ _ sample_racer_packet(2)
      sample_racer_packet(2) network_up_sample shapes_ok_answering deletes_taken_answering entry(4)
      comparable_singleton singletonI state entry(1-3), of 1 2] entry(5)
  show ?thesis by fastforce
qed

end
