(* ===== verification/Descriptors.thy ===== *)
theory Descriptors
  imports Egress_Facts
begin

text \<open>
  Which sockets a handler leaves open when it returns: what the trace opened and did not close. The
  clients settle their own; this theory adds up the calls of the handlers of both proxies.
\<close>

definition leaves_open :: "nat \<Rightarrow> sys_trace \<Rightarrow> sys_trace \<Rightarrow> bool" where
  "leaves_open n t u \<longleftrightarrow> (\<exists>M. size M = n \<and> (\<forall>fd \<in># M. 0 < fd) \<and>
     mset (opened u) + mset (closed t) = mset (closed u) + mset (opened t) + M)"

lemma leaves_openI:
  "mset (opened u) + mset (closed t) = mset (closed u) + mset (opened t) + M \<Longrightarrow>
   (\<And>fd. fd \<in># M \<Longrightarrow> 0 < fd) \<Longrightarrow> size M = n \<Longrightarrow> leaves_open n t u"
  unfolding leaves_open_def by blast

lemma leaves_open_trans:
  assumes "leaves_open m t u" "leaves_open n u v"
  shows "leaves_open (m + n) t v"
proof -
  obtain M where M: "size M = m" "\<forall>fd \<in># M. 0 < fd"
      "mset (opened u) + mset (closed t) = mset (closed u) + mset (opened t) + M"
    using assms(1) by (auto simp: leaves_open_def)
  obtain N where N: "size N = n" "\<forall>fd \<in># N. 0 < fd"
      "mset (opened v) + mset (closed u) = mset (closed v) + mset (opened u) + N"
    using assms(2) by (auto simp: leaves_open_def)
  have "(mset (opened u) + mset (closed t)) + (mset (opened v) + mset (closed u)) =
      (mset (closed u) + mset (opened t) + M) + (mset (closed v) + mset (opened u) + N)"
    using M(3) N(3) by simp
  then have "mset (opened v) + mset (closed t) = mset (closed v) + mset (opened t) + (M + N)"
    by (simp add: union_ac)
  then show ?thesis by (rule leaves_openI) (use M N in auto)
qed

lemma leaves_open_refl [simp]: "leaves_open 0 t t"
  by (rule leaves_openI [where M = "{#}"]) simp_all

text \<open>An action that leaves n sockets open whenever it returns.\<close>

definition leaves :: "nat \<Rightarrow> 'a proxy_action \<Rightarrow> bool" where
  "leaves n m \<longleftrightarrow> (\<forall>s x t. m s = (Inr x, t) \<longrightarrow> leaves_open n (calls s) (calls t))"

lemma leavesI: "(\<And>s x t. m s = (Inr x, t) \<Longrightarrow> leaves_open n (calls s) (calls t)) \<Longrightarrow> leaves n m"
  by (simp add: leaves_def)

lemma leaves_bind:
  assumes "leaves m a" "\<And>x. leaves n (k x)"
  shows "leaves (m + n) (bind_action a k)"
proof (rule leavesI)
  fix s y t assume run: "bind_action a k s = (Inr y, t)"
  then obtain x u where "a s = (Inr x, u)" "k x u = (Inr y, t)"
    by (cases "a s"; cases "fst (a s)") (auto simp: bind_action_def)
  then show "leaves_open (m + n) (calls s) (calls t)"
    using assms leaves_open_trans unfolding leaves_def by blast
qed

lemmas leaves_bind_0 = leaves_bind [where m = 0, simplified]
  and leaves_bind_last = leaves_bind [where n = 0, simplified]

lemma leaves_pure [simp, intro]:
  "leaves 0 (return_action x)" "leaves n (fail_action f)" "leaves 0 (lift_result r)"
  "leaves 0 (on_base b)" "leaves 0 (exit_if c)" "leaves 0 current_base"
  by (simp_all add: leaves_def exit_if_def)

lemma leaves_if: "(c \<Longrightarrow> leaves n a) \<Longrightarrow> (\<not> c \<Longrightarrow> leaves n b) \<Longrightarrow> leaves n (if c then a else b)"
  by simp

lemma leaves_case_prod: "(\<And>a b. leaves n (f a b)) \<Longrightarrow> leaves n (case p of (a, b) \<Rightarrow> f a b)"
  by (simp split: prod.split)

lemma leaves_sys [simp]:
  "leaves 0 (on_sys (sys os (Sendto fd b d)))" "leaves 0 (on_sys (sys os (Bind fd a)))"
  "leaves 0 (on_sys (sys_do os (Send fd b)))"
  by (simp_all add: leaves_def leaves_open_def)

text \<open>What socket returns: -1 or a descriptor; 0 is the standard input, which is open.\<close>

definition sockets_ok :: "os_lib \<Rightarrow> bool" where
  "sockets_ok os \<longleftrightarrow> (\<forall>t f ty p. os_ret os t (Socket f ty p) = - 1 \<or> 0 < os_ret os t (Socket f ty p))"

lemma leaves_socket:
  assumes "sockets_ok os" "\<And>fd. leaves n (k fd)"
  shows "leaves (Suc n) (bind_action (on_sys (sys os (Socket f ty p))) (\<lambda>fd.
    bind_action (exit_if (fd = - 1)) (\<lambda>_. k fd)))"
proof (rule leavesI)
  fix s :: proxy and x t
  let ?fd = "os_ret os (calls s) (Socket f ty p)"
  let ?u = "s \<lparr> calls := calls s @ [(Socket f ty p, ?fd)] \<rparr>"
  assume "bind_action (on_sys (sys os (Socket f ty p))) (\<lambda>fd.
    bind_action (exit_if (fd = - 1)) (\<lambda>_. k fd)) s = (Inr x, t)"
  then have fd: "?fd \<noteq> - 1" and k: "k ?fd ?u = (Inr x, t)"
    by (auto simp: bind_action_def exit_if_def split: if_splits)
  have "0 < ?fd" using fd assms(1) unfolding sockets_ok_def by blast
  then have "leaves_open 1 (calls s) (calls ?u)" by (intro leaves_openI [where M = "{#?fd#}"]) simp_all
  moreover have "leaves_open n (calls ?u) (calls t)" using assms(2) k unfolding leaves_def by blast
  ultimately show "leaves_open (Suc n) (calls s) (calls t)"
    using leaves_open_trans [of 1] by fastforce
qed

lemma leaves_send [simp]: "leaves 0 (on_sys (send_and_wait_response os message n dst port))"
proof (rule leavesI)
  fix s x t assume "on_sys (send_and_wait_response os message n dst port) s = (Inr x, t)"
  then have "send_and_wait_response os message n dst port (calls s) = (Inr (), calls t)"
    by (cases "send_and_wait_response os message n dst port (calls s)") auto
  from send_and_wait_balance [OF this] show "leaves_open 0 (calls s) (calls t)"
    by (simp add: leaves_open_def)
qed

lemma leaves_send_into_chain [simp]:
  "leaves 0 (send_into_chain os sfcid saddr source daddr dest direction path pkt n)"
  unfolding send_into_chain_def Let_def by (intro leaves_bind_0 leaves_pure leaves_send)

lemma leaves_send_reply: "leaves 0 (send_reply os sfcid header path buf n)"
  by (simp add: send_reply_def)

lemma leaves_reply_loops [simp]:
  "leaves 0 (udp_reply_loop os L header buf rs)" "leaves 0 (tcp_reply_loop os L header buf rs)"
proof -
  note steps = leaves_bind_0 leaves_if leaves_pure leaves_send_reply
  show "leaves 0 (udp_reply_loop os L header buf rs)"
    by (induction os L header buf rs rule: udp_reply_loop.induct; simp only: udp_reply_loop.simps;
        (intro steps; assumption?))
  show "leaves 0 (tcp_reply_loop os L header buf rs)"
    by (induction os L header buf rs rule: tcp_reply_loop.induct; simp only: tcp_reply_loop.simps;
        (intro steps; assumption?))
qed

lemma leaves_bind_check:
  "leaves 0 (if b then bind_action (on_sys (sys_do os c)) (\<lambda>_. fail_action f) else return_action ())"
  by (simp add: leaves_def bind_action_def)

lemma leaves_exiting_udp:
  assumes "sockets_ok os"
  shows "leaves 2 (manage_exiting_udp_packets os L pkt pkt_len ce stack buf rs)"
proof -
  have "leaves (Suc (Suc 0)) (manage_exiting_udp_packets os L pkt pkt_len ce stack buf rs)"
    unfolding manage_exiting_udp_steps Let_def
    by (rule leaves_bind_0 leaves_pure leaves_socket [OF assms] leaves_sys leaves_reply_loops
         leaves_bind_check)+
  then show ?thesis by (simp add: numeral_2_eq_2)
qed

lemma leaves_connect:
  assumes "sockets_ok os"
  shows "leaves 2 (on_sys (connect_to_server os pton dst port))"
proof (rule leavesI)
  fix s c t assume "on_sys (connect_to_server os pton dst port) s = (Inr c, t)"
  then have run: "connect_to_server os pton dst port (calls s) = (Inr c, calls t)"
    by (cases "connect_to_server os pton dst port (calls s)") auto
  let ?first = "os_ret os (calls s) (Socket AF_INET SOCK_STREAM 0)"
  have "\<not> ?first < 0" using run by (auto simp: connect_to_server_def)
  moreover have "?first = - 1 \<or> 0 < ?first" using assms unfolding sockets_ok_def by blast
  ultimately have "0 < ?first" by linarith
  from connect_balance [OF run refl this]
  show "leaves_open 2 (calls s) (calls t)"
    by (intro leaves_openI [where M = "{#?first, access_to_socket c#}"]) (use \<open>0 < ?first\<close> in auto)
qed

lemma leaves_exiting_tcp:
  assumes "sockets_ok os"
  shows "leaves (if fd = - 1 then 2 else 0)
    (manage_exiting_tcp_packets os L pton pkt pkt_len ce fd stack rs)"
proof -
  have sock: "leaves (if fd = - 1 then 2 else 0)
      (if fd = - 1
       then bind_action (on_sys (connect_to_server os pton a p)) (\<lambda>client.
            bind_action (on_base (update_entry L ce (access_to_socket client)
              (access_to_sockaddr_in client) EGRESS_T)) (\<lambda>_.
            return_action (access_to_socket client)))
       else return_action fd)" for a p
  proof (cases "fd = - 1")
    case True
    have "leaves 2 (bind_action (on_sys (connect_to_server os pton a p)) (\<lambda>client.
            bind_action (on_base (update_entry L ce (access_to_socket client)
              (access_to_sockaddr_in client) EGRESS_T)) (\<lambda>_.
            return_action (access_to_socket client))))"
      by (rule leaves_bind_last [OF leaves_connect [OF assms]]) (intro leaves_bind_0 leaves_pure)
    then show ?thesis using True by simp
  next
    case False
    then show ?thesis using leaves_pure(1) by simp
  qed
  show ?thesis
    unfolding manage_exiting_tcp_steps Let_def
    by (rule leaves_bind_0 [OF leaves_pure(3)])+
       (rule leaves_bind_last, rule sock, intro leaves_bind_0 leaves_sys leaves_reply_loops)
qed

lemma leaves_entering_udp: "leaves 0 (manage_entering_udp_packets os L args)"
  unfolding manage_entering_udp_packets_def
  by (intro leaves_bind_0 leaves_pure leaves_if leaves_send_into_chain leaves_case_prod)

text \<open>
  C21: Whenever its handler returns, on a system that gives positive descriptors, Egress has opened
  two sockets for the packet it handled and closed neither: for UDP the two raw sockets, for TCP,
  when the packet's connection has no socket yet, the client's first socket and the one that stays
  connected. A handler of Ingress that returns has closed every socket it opened for its datagram.
\<close>
theorem egress_leaves_sockets:
  assumes "sockets_ok os"
  shows "leaves 2 (manage_exiting_udp_packets os L pkt pkt_len ce stack buf rs) \<and>
    leaves (if fd = - 1 then 2 else 0)
      (manage_exiting_tcp_packets os L pton pkt pkt_len ce fd stack rs) \<and>
    leaves 0 (manage_entering_udp_packets os L args)"
  using leaves_exiting_udp [OF assms] leaves_exiting_tcp [OF assms] leaves_entering_udp by blast

theorem egress_leaves_sockets_witness:
  "\<exists>(args :: udp_pkt_mngmnt_args) ce t. manage_exiting_udp_packets (sample_os [sample_addrinfo]) (answering_libs [])
      (ua_pkt args) (ua_pkt_len args) ce (replicate buffer_size 0) [] [] sample_proxy =
      (Inr Reply_waiting, t) \<and> leaves_open 2 [] (calls t)"
proof -
  let ?os = "sample_os [sample_addrinfo]" and ?L = "answering_libs []"
  let ?h = "entering_header sample_iphdr 1 2 []"
  let ?inner = "iphdr_bytes sample_iphdr @ udphdr_bytes sample_udphdr @ [1]"
  let ?args = "sample_args \<lparr> ua_pkt := sfc_header_bytes ?h @ ?inner, ua_pkt_len := 53 \<rparr>"
  let ?key = "entering_key (ip_saddr sample_iphdr) (ip_daddr sample_iphdr) 1 2 ''0'' UDP"
  have pkt: "chain_packet ?h ?inner ?args" by (simp add: chain_packet_def)
  have hyps: "ip_ihl sample_iphdr = 5" "length [1 :: byte] \<le> 65507"
    "length (replicate buffer_size (0 :: byte)) = buffer_size" by (simp_all add: sample_iphdr_def)
  obtain u where "manage_exiting_udp_packets ?os ?L (ua_pkt ?args) (ua_pkt_len ?args) ?key
      (replicate buffer_size 0) [] [] sample_proxy = udp_reply_loop ?os ?L ?h [] [] u"
    by (rule exiting_udp_up [OF pkt hyps network_up_sample updates_taken_answering sample_proxy_state(2)])
  then have run: "manage_exiting_udp_packets ?os ?L (ua_pkt ?args) (ua_pkt_len ?args) ?key
      (replicate buffer_size 0) [] [] sample_proxy = (Inr Reply_waiting, u)" by simp
  have "sockets_ok ?os" by (simp add: sockets_ok_def sample_os_def)
  then have "leaves 2 (manage_exiting_udp_packets ?os ?L (ua_pkt ?args) (ua_pkt_len ?args) ?key
      (replicate buffer_size 0) [] [])" using egress_leaves_sockets by blast
  then have "leaves_open 2 (calls sample_proxy) (calls u)" using run unfolding leaves_def by blast
  then have "leaves_open 2 [] (calls u)" by (simp only: sample_proxy_state(4))
  then show ?thesis by (intro exI [of _ ?args] exI [of _ ?key] exI [of _ u] conjI run)
qed

end
