(* ===== verification/Server.thy ===== *)
theory Server
  imports Proxy
begin

text \<open>
  The servers, src/src/server/server.cpp, serverudp.cpp and servertcp.cpp: opening the socket, and
  the loop that waits for a datagram or a connection and starts a detached thread for each. The loop
  is a state machine: what its blocking calls give, and the moments at which another thread calls
  stop, are the list of events. The two servers differ in how they open their socket, in what a
  thread is given, and in the buffer that only the UDP server allocates before it waits.
\<close>

section \<open>The object\<close>

text \<open>The port and the function that is called for each packet; the constructor sets none.\<close>

record 'h server_object =
  srv_port :: u16
  srv_manager :: "'h option"

definition new_server :: "u16 \<Rightarrow> 'h server_object" where
  "new_server port = \<lparr> srv_port = port, srv_manager = None \<rparr>"

definition set_pkt_manager :: "'h \<Rightarrow> 'h server_object \<Rightarrow> 'h server_object" where
  "set_pkt_manager manager srv = srv \<lparr> srv_manager := Some manager \<rparr>"

section \<open>Opening\<close>

definition SIGINT :: int where "SIGINT = 2"
definition SIGPIPE :: int where "SIGPIPE = 13"
definition SIGTERM :: int where "SIGTERM = 15"
definition BACKLOG :: int where "BACKLOG = 10"

text \<open>\<open>if (call == -1) { perror; exit(1); }\<close>; SIG_ERR is -1 as well.\<close>

definition or_exit :: "os_lib \<Rightarrow> sys_call \<Rightarrow> int sys" where
  "or_exit os c =
     bind_action (sys os c) (\<lambda>r. if r = - 1 then fail_action (Exit_process 1) else return_action r)"

definition setup_sign_catching :: "os_lib \<Rightarrow> unit sys" where
  "setup_sign_catching os =
     bind_action (or_exit os (Signal_handler SIGPIPE)) (\<lambda>_.
     bind_action (or_exit os (Signal_handler SIGTERM)) (\<lambda>_.
     bind_action (or_exit os (Signal_handler SIGINT)) (\<lambda>_. return_action ())))"

text \<open>INADDR_ANY is 0.\<close>

definition any_address :: "u16 \<Rightarrow> sockaddr_in" where
  "any_address port = \<lparr> sin_port = htons port, sin_addr = 0 \<rparr>"

definition open_udp :: "os_lib \<Rightarrow> u16 \<Rightarrow> socket_fd sys" where
  "open_udp os port =
     bind_action (or_exit os (Socket AF_INET SOCK_DGRAM 0)) (\<lambda>fd.
     bind_action (sys_do os (Setsockopt fd)) (\<lambda>_.
     bind_action (or_exit os (Bind fd (any_address port))) (\<lambda>_.
     bind_action (setup_sign_catching os) (\<lambda>_. return_action fd))))"

definition open_tcp :: "os_lib \<Rightarrow> u16 \<Rightarrow> socket_fd sys" where
  "open_tcp os port =
     bind_action (or_exit os (Socket AF_INET SOCK_STREAM 0)) (\<lambda>fd.
     bind_action (sys_do os (Setsockopt fd)) (\<lambda>_.
     bind_action (or_exit os (Bind fd (any_address port))) (\<lambda>_.
     bind_action (or_exit os (Listen fd BACKLOG)) (\<lambda>_.
     bind_action (setup_sign_catching os) (\<lambda>_. return_action fd)))))"

section \<open>The loop\<close>

record tcp_pkt_mngmnt_args =
  ta_new_socket_fd :: socket_fd
  ta_client_address :: sockaddr_in

text \<open>
  What a receive gives: the sender, the bytes, and what the array that is allocated for each round holds
  when the bytes are read into it; it is not initialised.
\<close>

type_synonym datagram_in = "sockaddr_in \<times> byte list \<times> byte list"

definition udp_task :: "socket_fd \<Rightarrow> datagram_in \<Rightarrow> udp_pkt_mngmnt_args" where
  "udp_task fd = (\<lambda>(client, bytes, buf).
     \<lparr> ua_socket_fd = fd, ua_client_address = client, ua_pkt = receive_into bytes buf,
       ua_pkt_len = length bytes \<rparr>)"

definition tcp_task :: "socket_fd \<times> sockaddr_in \<Rightarrow> tcp_pkt_mngmnt_args" where
  "tcp_task = (\<lambda>(new_fd, client). \<lparr> ta_new_socket_fd = new_fd, ta_client_address = client \<rparr>)"

datatype server_pc = Checking | Receiving | Left_loop

datatype 'm loop_event = Round_begins bool | Receive_fails | Receive_gives 'm | Stop_called

text \<open>\<open>lost_buffers\<close> counts the arrays that are allocated and then neither handed over nor freed.\<close>

record 'a server =
  server_at :: server_pc
  stopped :: bool
  task_list :: "'a list"
  lost_buffers :: nat

text \<open>run sets stopped_ to false; \<open>buffers\<close> is 1 for UDP and 0 for TCP.\<close>

definition enter_loop :: "'a server" where
  "enter_loop = \<lparr> server_at = Checking, stopped = False, task_list = [], lost_buffers = 0 \<rparr>"

fun loop_next :: "nat \<Rightarrow> ('m \<Rightarrow> 'a) \<Rightarrow> 'm loop_event \<Rightarrow> 'a server \<Rightarrow> 'a server option" where
  "loop_next buffers task Stop_called s = Some (s \<lparr> stopped := True \<rparr>)"
| "loop_next buffers task (Round_begins malloc_ok) s =
     (if server_at s \<noteq> Checking then None
      else if stopped s then Some (s \<lparr> server_at := Left_loop \<rparr>)
      else if malloc_ok then Some (s \<lparr> server_at := Receiving \<rparr>)
      else Some s)"
| "loop_next buffers task Receive_fails s =
     (if server_at s \<noteq> Receiving then None
      else Some (s \<lparr> server_at := Checking, lost_buffers := lost_buffers s + buffers \<rparr>))"
| "loop_next buffers task (Receive_gives m) s =
     (if server_at s \<noteq> Receiving then None
      else Some (s \<lparr> server_at := Checking, task_list := task_list s @ [task m] \<rparr>))"

fun serve :: "nat \<Rightarrow> ('m \<Rightarrow> 'a) \<Rightarrow> 'm loop_event list \<Rightarrow> 'a server \<Rightarrow> 'a server option" where
  "serve buffers task [] s = Some s"
| "serve buffers task (e # es) s = Option.bind (loop_next buffers task e s) (serve buffers task es)"

definition serve_udp ::
    "socket_fd \<Rightarrow> datagram_in loop_event list \<Rightarrow> udp_pkt_mngmnt_args server option" where
  "serve_udp fd es = serve 1 (udp_task fd) es enter_loop"

definition serve_tcp ::
    "(socket_fd \<times> sockaddr_in) loop_event list \<Rightarrow> tcp_pkt_mngmnt_args server option" where
  "serve_tcp es = serve 0 tcp_task es enter_loop"

text \<open>The member stop and the handler of SIGTERM and SIGINT.\<close>

definition stop_server :: "'a server \<Rightarrow> 'a server" where
  "stop_server s = s \<lparr> stopped := True \<rparr>"

definition signal_handler :: "int \<Rightarrow> ('s, unit) action" where
  "signal_handler signal_number = fail_action (Exit_process 0)"

section \<open>What the loop does\<close>

fun received_in :: "'m loop_event list \<Rightarrow> 'm list" where
  "received_in [] = []"
| "received_in (Receive_gives m # es) = m # received_in es"
| "received_in (e # es) = received_in es"

lemma received_in_append [simp]: "received_in (es @ fs) = received_in es @ received_in fs"
  by (induction es rule: received_in.induct) auto

definition failures :: "'m loop_event list \<Rightarrow> nat" where
  "failures es = length (filter (\<lambda>e. e = Receive_fails) es)"

lemma serve_tasks:
  "serve buffers task es s = Some t \<Longrightarrow>
     task_list t = task_list s @ map task (received_in es) \<and>
     lost_buffers t = lost_buffers s + buffers * failures es"
proof (induction es arbitrary: s)
  case (Cons e es)
  then obtain r where r: "loop_next buffers task e s = Some r" "serve buffers task es r = Some t"
    by (auto simp: bind_eq_Some_conv)
  have "task_list r = task_list s @ map task (received_in [e]) \<and>
      lost_buffers r = lost_buffers s + buffers * failures [e]"
    using r(1) by (cases e) (auto simp: failures_def split: if_splits)
  moreover have "received_in (e # es) = received_in [e] @ received_in es" by (cases e) simp_all
  moreover have "failures (e # es) = failures [e] + failures es" by (simp add: failures_def)
  ultimately show ?case using Cons.IH [OF r(2)] by (simp add: distrib_left)
qed (simp add: failures_def)

lemma serve_append:
  "serve buffers task (es @ fs) s = Option.bind (serve buffers task es s) (serve buffers task fs)"
proof (induction es arbitrary: s)
  case (Cons e es)
  then show ?case by (cases "loop_next buffers task e s") simp_all
qed simp

lemma stopped_bound:
  "serve buffers task es s = Some t \<Longrightarrow> stopped s \<Longrightarrow>
     length (received_in es) \<le> (if server_at s = Receiving then 1 else 0)"
proof (induction es arbitrary: s)
  case (Cons e es)
  then obtain r where r: "loop_next buffers task e s = Some r" "serve buffers task es r = Some t"
    by (auto simp: bind_eq_Some_conv)
  then have "length (received_in es) \<le> (if server_at r = Receiving then 1 else 0)"
    using Cons.IH [OF r(2)] Cons.prems(2) by (cases e) (auto split: if_splits)
  then show ?case using r(1) Cons.prems(2) by (cases e) (auto split: if_splits)
qed simp

lemma after_stop:
  assumes "serve buffers task es s = Some t" "es = es1 @ Stop_called # es2"
  shows "length (received_in es2) \<le> 1"
proof -
  obtain r where "serve buffers task es1 s = Some r"
    "serve buffers task es2 (r \<lparr> stopped := True \<rparr>) = Some t"
    using assms by (auto simp: serve_append bind_eq_Some_conv)
  then show ?thesis using stopped_bound [of buffers task es2 "r \<lparr> stopped := True \<rparr>" t]
    by (simp split: if_splits)
qed

text \<open>The loop is left at its condition only: after a stop, and not out of the blocking call.\<close>

lemma not_left:
  "serve buffers task es s = Some t \<Longrightarrow> \<not> stopped s \<Longrightarrow> server_at s \<noteq> Left_loop \<Longrightarrow>
     Stop_called \<notin> set es \<Longrightarrow> server_at t \<noteq> Left_loop"
proof (induction es arbitrary: s)
  case (Cons e es)
  then obtain r where r: "loop_next buffers task e s = Some r" "serve buffers task es r = Some t"
    by (auto simp: bind_eq_Some_conv)
  have "\<not> stopped r" "server_at r \<noteq> Left_loop"
    using r(1) Cons.prems by (cases e; auto split: if_splits)+
  then show ?case using Cons.IH [OF r(2)] Cons.prems(4) by simp
qed simp

definition returns_from_receive :: "'m loop_event \<Rightarrow> bool" where
  "returns_from_receive e \<longleftrightarrow> (case e of Receive_fails \<Rightarrow> True | Receive_gives _ \<Rightarrow> True | _ \<Rightarrow> False)"

lemma still_blocked:
  "serve buffers task es s = Some t \<Longrightarrow> server_at s = Receiving \<Longrightarrow>
     \<not> list_ex returns_from_receive es \<Longrightarrow> server_at t = Receiving"
proof (induction es arbitrary: s)
  case (Cons e es)
  then obtain r where r: "loop_next buffers task e s = Some r" "serve buffers task es r = Some t"
    by (auto simp: bind_eq_Some_conv)
  have "server_at r = Receiving"
    using r(1) Cons.prems by (cases e) (auto simp: returns_from_receive_def split: if_splits)
  then show ?case using Cons.IH [OF r(2)] Cons.prems(3) by simp
qed simp

lemma serve_facts:
  assumes "serve n task es enter_loop = Some t"
  shows "task_list t = map task (received_in es) \<and> lost_buffers t = n * failures es \<and>
    (\<forall>es1 es2. es = es1 @ Stop_called # es2 \<longrightarrow> length (received_in es2) \<le> 1) \<and>
    (server_at t = Left_loop \<longrightarrow> Stop_called \<in> set es) \<and>
    (\<forall>es1 es2 s. es = es1 @ Stop_called # es2 \<longrightarrow> serve n task es1 enter_loop = Some s \<longrightarrow>
      server_at s = Receiving \<longrightarrow> server_at t \<noteq> Receiving \<longrightarrow> list_ex returns_from_receive es2)"
proof -
  have "list_ex returns_from_receive es2"
    if "es = es1 @ Stop_called # es2" "serve n task es1 enter_loop = Some s" "server_at s = Receiving"
      "server_at t \<noteq> Receiving" for es1 es2 s
    using that assms still_blocked [of n task es2 "s \<lparr> stopped := True \<rparr>" t] by (auto simp: serve_append)
  moreover have "Stop_called \<in> set es" if "server_at t = Left_loop"
    using not_left [OF assms] that by (auto simp: enter_loop_def)
  ultimately show ?thesis
    using serve_tasks [OF assms] after_stop [OF assms] by (simp add: enter_loop_def)
qed

text \<open>
  C31: Each server starts one thread for everything that its blocking call gives, in order, and for
  nothing else. For every receive that fails the UDP server loses a buffer, the TCP server nothing. The
  loop is left only after a stop. But stop does not wake the blocking call: a server that is in it stays
  there until the call returns, with something or with an error, so that after a stop one more datagram
  or connection may be taken, and never two.
\<close>
theorem server_starts_one_thread_each:
  "(serve_udp fd es = Some t \<longrightarrow>
      task_list t = map (udp_task fd) (received_in es) \<and> lost_buffers t = failures es \<and>
      (server_at t = Left_loop \<longrightarrow> Stop_called \<in> set es) \<and>
      (\<forall>es1 es2 s. es = es1 @ Stop_called # es2 \<longrightarrow> length (received_in es2) \<le> 1 \<and>
        (serve_udp fd es1 = Some s \<and> server_at s = Receiving \<and> server_at t \<noteq> Receiving \<longrightarrow>
          list_ex returns_from_receive es2))) \<and>
    (serve_tcp fs = Some u \<longrightarrow>
      task_list u = map tcp_task (received_in fs) \<and> lost_buffers u = 0 \<and>
      (server_at u = Left_loop \<longrightarrow> Stop_called \<in> set fs) \<and>
      (\<forall>fs1 fs2 s. fs = fs1 @ Stop_called # fs2 \<longrightarrow> length (received_in fs2) \<le> 1 \<and>
        (serve_tcp fs1 = Some s \<and> server_at s = Receiving \<and> server_at u \<noteq> Receiving \<longrightarrow>
          list_ex returns_from_receive fs2)))"
  using serve_facts [of 1 "udp_task fd" es t] serve_facts [of 0 tcp_task fs u]
  unfolding serve_udp_def serve_tcp_def mult_1 mult_0 by blast

theorem server_starts_one_thread_each_witness:
  "\<exists>t. serve_udp 5 [Round_begins True, Receive_fails, Round_begins True, Stop_called,
      Receive_gives (zero_sockaddr, [1], [0, 0]), Round_begins True] = Some t \<and> lost_buffers t = 1 \<and>
    task_list t = [\<lparr> ua_socket_fd = 5, ua_client_address = zero_sockaddr, ua_pkt = [1, 0],
      ua_pkt_len = 1 \<rparr>] \<and> server_at t = Left_loop"
proof -
  let ?es = "[Round_begins True, Receive_fails, Round_begins True, Stop_called,
      Receive_gives (zero_sockaddr, [1], [0, 0]), Round_begins True]"
  obtain t where t: "serve_udp 5 ?es = Some t" "server_at t = Left_loop"
    by (simp add: serve_udp_def enter_loop_def)
  from server_starts_one_thread_each [of 5 ?es t] t show ?thesis
    by (intro exI [of _ t]) (simp add: failures_def udp_task_def receive_into_def)
qed

section \<open>What opening does\<close>

lemma or_exit_apply:
  "or_exit os c t =
    (if os_ret os t c = - 1 then (Inl (Exit_process 1), t @ [(c, - 1)])
     else (Inr (os_ret os t c), t @ [(c, os_ret os t c)]))"
  by (simp add: or_exit_def)

text \<open>
  Opening either makes all its calls, in this order, none of them failing but perhaps
  setsockopt, whose result nobody reads, and gives the socket; or it ends the process with status 1
  at the first call that fails. The TCP server listens with a backlog of 10, the UDP server does not
  listen.
\<close>
lemma open_or_exit:
  "(case open_udp os port t of
      (Inr fd, u) \<Rightarrow> (\<exists>r0 r1 r2 r3 r4 r5. - 1 \<notin> {r0, r2, r3, r4, r5} \<and> fd = r0 \<and>
        u = t @ [(Socket AF_INET SOCK_DGRAM 0, r0), (Setsockopt fd, r1), (Bind fd (any_address port), r2),
          (Signal_handler SIGPIPE, r3), (Signal_handler SIGTERM, r4), (Signal_handler SIGINT, r5)])
    | (Inl f, u) \<Rightarrow> f = Exit_process 1 \<and> snd (last u) = - 1) \<and>
   (case open_tcp os port t of
      (Inr fd, u) \<Rightarrow> (\<exists>r0 r1 r2 r3 r4 r5 r6. - 1 \<notin> {r0, r2, r3, r4, r5, r6} \<and> fd = r0 \<and>
        u = t @ [(Socket AF_INET SOCK_STREAM 0, r0), (Setsockopt fd, r1), (Bind fd (any_address port), r2),
          (Listen fd 10, r3), (Signal_handler SIGPIPE, r4), (Signal_handler SIGTERM, r5),
          (Signal_handler SIGINT, r6)])
    | (Inl f, u) \<Rightarrow> f = Exit_process 1 \<and> snd (last u) = - 1)"
  by (auto simp: open_udp_def open_tcp_def setup_sign_catching_def BACKLOG_def bind_action_def
      or_exit_apply split: if_splits)

end
