(* ===== verification/Ingress_Server.thy ===== *)
theory Ingress_Server
  imports Ingress_Facts Server
begin

text \<open>
  Ingress behind its UDP server: the datagrams that the loop of the server receives are handled by
  threads of their own, which the scheduler may run in any order. A handler is run as a whole here,
  from its first call to its last.
\<close>

section \<open>Running the threads\<close>

fun run_entering :: "os_lib \<Rightarrow> 'j libs \<Rightarrow> udp_pkt_mngmnt_args list \<Rightarrow> unit proxy_action" where
  "run_entering os L [] = return_action ()"
| "run_entering os L (args # tasks) =
     bind_action (manage_entering_udp_packets os L args) (\<lambda>_. run_entering os L tasks)"

text \<open>A UDP datagram of a client, with what the array that it is received in held before.\<close>

record client_datagram =
  cd_from :: sockaddr_in
  cd_ip :: iphdr
  cd_udp :: udphdr
  cd_payload :: "byte list"
  cd_array :: "byte list"

definition cd_bytes :: "client_datagram \<Rightarrow> byte list" where
  "cd_bytes d = iphdr_bytes (cd_ip d) @ udphdr_bytes (cd_udp d) @ cd_payload d"

definition cd_key :: "client_datagram \<Rightarrow> connection_entry" where
  "cd_key d = datagram_key (cd_ip d) (cd_udp d)"

definition cd_plain :: "client_datagram \<Rightarrow> bool" where
  "cd_plain d \<longleftrightarrow> ip_ihl (cd_ip d) = 5 \<and> ip_protocol (cd_ip d) = 17"

definition cd_task :: "socket_fd \<Rightarrow> client_datagram \<Rightarrow> udp_pkt_mngmnt_args" where
  "cd_task fd d = udp_task fd (cd_from d, cd_bytes d, cd_array d)"

definition cd_packet :: "address list \<Rightarrow> client_datagram \<Rightarrow> byte list" where
  "cd_packet path d = chain_datagram (cd_ip d) (cd_udp d) (cd_payload d) path"

lemma cd_task_fields [simp]:
  "ua_socket_fd (cd_task fd d) = fd" "ua_client_address (cd_task fd d) = cd_from d"
  by (simp_all add: cd_task_def udp_task_def)

lemma cd_task_datagram:
  "cd_plain d \<Longrightarrow> udp_datagram (cd_ip d) (cd_udp d) (cd_payload d) (cd_task fd d)"
  by (simp add: cd_plain_def udp_datagram_def cd_task_def udp_task_def receive_into_def cd_bytes_def)

lemma run_entering_ready:
  assumes "serves os L path" "comparable K"
  shows "ready K s \<Longrightarrow> distinct (map cd_key ds) \<Longrightarrow> cd_key ` set ds \<subseteq> K \<Longrightarrow>
    \<forall>d \<in> set ds. cd_plain d \<and> connections (base s) (cd_key d) = None \<Longrightarrow>
    \<exists>t. run_entering os L (map (cd_task fd) ds) s = (Inr (), t) \<and> ready K t \<and>
      (\<forall>d \<in> set ds. connections (base t) (cd_key d) = Some (fd, cd_from d)) \<and>
      (\<forall>k. k \<notin> cd_key ` set ds \<longrightarrow> connections (base t) k = connections (base s) k) \<and>
      delivered (calls t) = delivered (calls s) @ map (cd_packet path) ds"
proof (induction ds arbitrary: s)
  case (Cons d ds)
  from Cons.prems have d: "cd_plain d" "cd_key d \<in> K" "connections (base s) (cd_key d) = None"
    by simp_all
  obtain r where r: "manage_entering_udp_packets os L (cd_task fd d) s = (Inr (), r)" "ready K r"
    "connections (base r) = (connections (base s))(cd_key d \<mapsto> (fd, cd_from d))"
    "delivered (calls r) = delivered (calls s) @ [cd_packet path d]"
    using entering_ready [OF cd_task_datagram [OF d(1)] assms Cons.prems(1)] d(2,3)
    unfolding cd_key_def cd_packet_def cd_task_fields by metis
  have "\<forall>e \<in> set ds. cd_plain e \<and> connections (base r) (cd_key e) = None"
    using Cons.prems(2,4) r(3) by (auto simp: image_iff)
  then obtain t where t: "run_entering os L (map (cd_task fd) ds) r = (Inr (), t)" "ready K t"
    "\<forall>e \<in> set ds. connections (base t) (cd_key e) = Some (fd, cd_from e)"
    "\<forall>k. k \<notin> cd_key ` set ds \<longrightarrow> connections (base t) k = connections (base r) k"
    "delivered (calls t) = delivered (calls r) @ map (cd_packet path) ds"
    using Cons.IH [OF r(2)] Cons.prems(2,3) by auto
  show ?case using t r Cons.prems(2) by (intro exI [of _ t]) (auto simp: bind_action_def)
qed simp

lemma permuted_map:
  "mset ys = mset (map f xs) \<Longrightarrow> \<exists>zs. mset zs = mset xs \<and> ys = map f zs"
proof (induction ys arbitrary: xs)
  case (Cons y ys)
  then have "y \<in> set (map f xs)" by (metis list.set_intros(1) set_mset_mset)
  then obtain x where x: "x \<in> set xs" "y = f x" by auto
  obtain l r where lr: "xs = l @ x # r" using split_list [OF x(1)] by blast
  have "mset ys = mset (map f (l @ r))" using Cons.prems x(2) by (simp add: lr)
  then obtain zs where "mset zs = mset (l @ r)" "ys = map f zs" using Cons.IH by blast
  then show ?case using x(2) lr by (intro exI [of _ "x # zs"]) simp
qed simp

text \<open>
  C6: Whatever the server received, and in whatever order its threads run one after the other.
  Suppose the datagrams are plain (UDP, without IP options), their connections are new and different
  from each other, their keys are comparable field by field and the table is ordered on them, the
  proxy has a route service, which answers with a path that is not empty, and the network is up.
  Then every handler returns, every client is in the table under its connection with the socket and
  the address its datagram came from, no other connection is touched, and the chain gets exactly one
  packet for each datagram.
\<close>
theorem ingress_serves_every_datagram:
  assumes "serve_udp fd es = Some srv"
    and "received_in es = map (\<lambda>d. (cd_from d, cd_bytes d, cd_array d)) ds"
    and "mset order = mset (task_list srv)"
    and "serves os L path" "comparable (cd_key ` set ds)" "ready (cd_key ` set ds) s"
    and "distinct (map cd_key ds)"
    and "\<forall>d \<in> set ds. cd_plain d \<and> connections (base s) (cd_key d) = None"
  shows "\<exists>t. run_entering os L order s = (Inr (), t) \<and>
    (\<forall>d \<in> set ds. connections (base t) (cd_key d) = Some (fd, cd_from d)) \<and>
    (\<forall>k. k \<notin> cd_key ` set ds \<longrightarrow> connections (base t) k = connections (base s) k) \<and>
    mset (delivered (calls t)) = mset (delivered (calls s)) + mset (map (cd_packet path) ds)"
proof -
  have "task_list srv = map (cd_task fd) ds"
    using serve_facts [OF assms(1) [unfolded serve_udp_def]] assms(2) by (simp add: cd_task_def)
  with assms(3) obtain ds' where p: "mset ds' = mset ds" "order = map (cd_task fd) ds'"
    using permuted_map by metis
  have set: "set ds' = set ds" using p(1) mset_eq_setD by blast
  have "distinct (map cd_key ds')"
    using assms(7) p(1) by (metis mset_map mset_eq_imp_distinct_iff)
  from run_entering_ready [OF assms(4,5,6) this, of fd] obtain t where t:
    "run_entering os L order s = (Inr (), t)"
    "\<forall>d \<in> set ds. connections (base t) (cd_key d) = Some (fd, cd_from d)"
    "\<forall>k. k \<notin> cd_key ` set ds \<longrightarrow> connections (base t) k = connections (base s) k"
    "delivered (calls t) = delivered (calls s) @ map (cd_packet path) ds'"
    using assms(8) p(2) unfolding set by auto
  have "mset (map (cd_packet path) ds') = mset (map (cd_packet path) ds)"
    using p(1) by (simp add: mset_map)
  with t show ?thesis by (intro exI [of _ t]) (simp only: mset_append simp_thms)
qed

definition sample_datagrams :: "client_datagram list" where
  "sample_datagrams =
     [\<lparr> cd_from = \<lparr> sin_port = 7, sin_addr = 8 \<rparr>, cd_ip = sample_iphdr, cd_udp = sample_udphdr,
        cd_payload = [1, 2, 3], cd_array = [] \<rparr>,
      \<lparr> cd_from = \<lparr> sin_port = 9, sin_addr = 8 \<rparr>, cd_ip = sample_iphdr,
        cd_udp = sample_udphdr \<lparr> udp_source := 0x9310 \<rparr>, cd_payload = [4], cd_array = [0, 0] \<rparr>]"

lemma sample_datagrams_keys:
  "distinct (map cd_key sample_datagrams)" "comparable (cd_key ` set sample_datagrams)"
  by (auto simp: sample_datagrams_def cd_key_def comparable_def ce_below_def datagram_key_def
      entering_key_def new_entry_def sample_udphdr_def htons_def)

lemma ready_sample: "comparable K \<Longrightarrow> ready K sample_proxy"
  by (frule tables_ordered_sample) (simp add: ready_def sample_proxy_def,
    simp add: sample_endpoint_def new_endpoint_def set_my_ip_def c_str_def)

definition sample_events :: "datagram_in loop_event list" where
  "sample_events = Round_begins True # Receive_fails #
     concat (map (\<lambda>d. [Round_begins True, Receive_gives (cd_from d, cd_bytes d, cd_array d)]) sample_datagrams)"

theorem ingress_serves_every_datagram_witness:
  "\<exists>srv t. serve_udp 5 sample_events = Some srv \<and>
     run_entering (sample_os [sample_addrinfo]) (answering_libs [sample_node])
       (rev (task_list srv)) sample_proxy = (Inr (), t) \<and>
     mset (delivered (calls t)) = mset (map (cd_packet sample_path) sample_datagrams)"
proof -
  obtain srv where srv: "serve_udp 5 sample_events = Some srv"
    by (simp add: serve_udp_def enter_loop_def sample_events_def sample_datagrams_def)
  have received: "received_in sample_events = map (\<lambda>d. (cd_from d, cd_bytes d, cd_array d)) sample_datagrams"
    by (simp add: sample_events_def sample_datagrams_def)
  have "\<forall>d \<in> set sample_datagrams. cd_plain d \<and> connections (base sample_proxy) (cd_key d) = None"
    by (simp add: sample_datagrams_def cd_plain_def sample_iphdr_def sample_proxy_def)
  from ingress_serves_every_datagram [OF srv received mset_rev serves_sample sample_datagrams_keys(2)
      ready_sample [OF sample_datagrams_keys(2)] sample_datagrams_keys(1) this]
  show ?thesis using srv by (auto simp: sample_proxy_def)
qed

end
