(* ===== verification/Ironhide_Main.thy ===== *)
theory Ironhide_Main
  imports Ingress_Server Egress
begin

text \<open>
  The program, src/src/main.cpp, and the two functions start of ingress.cpp and egress.cpp: the
  options, the environment, and the servers that are opened with the handler that each one calls.
  What getopt returns, call after call until -1, is a list of an option character and its argument;
  the character is a question mark for an unknown option or a missing argument. The table of the
  static classifier starts empty. The output on the terminal is not modelled.
\<close>

section \<open>Options\<close>

record settings =
  set_ext_port :: u16
  set_int_port :: u16
  set_egress :: bool

definition default_settings :: settings where
  "default_settings = \<lparr> set_ext_port = 8787, set_int_port = 8778, set_egress = False \<rparr>"

fun read_options :: "(char \<times> string) list \<Rightarrow> settings \<Rightarrow> settings result" where
  "read_options [] s = Inr s"
| "read_options ((c, optarg) # rest) s =
     (if c = CHR ''e'' then read_options rest (s \<lparr> set_egress := True \<rparr>)
      else if c = CHR ''i'' then
        bind_result (stoi (c_str optarg)) (\<lambda>n. read_options rest (s \<lparr> set_int_port := word_of_int n \<rparr>))
      else if c = CHR ''o'' then
        bind_result (stoi (c_str optarg)) (\<lambda>n. read_options rest (s \<lparr> set_ext_port := word_of_int n \<rparr>))
      else if c = CHR ''h'' then Inl (Exit_process 0)
      else Inl (Exit_process 1))"

section \<open>Servers\<close>

datatype transport = Udp_server | Tcp_server

datatype callback = Ingress_from_chain | Entering_udp | Entering_tcp | Egress_from_chain

record service =
  svc_transport :: transport
  svc_server :: "callback server_object"

definition ingress_start :: "endpoint_state \<Rightarrow> service list" where
  "ingress_start s =
     [\<lparr> svc_transport = Udp_server,
        svc_server = set_pkt_manager Ingress_from_chain (new_server (get_internal_port s)) \<rparr>,
      \<lparr> svc_transport = Udp_server,
        svc_server = set_pkt_manager Entering_udp (new_server (get_external_port s)) \<rparr>,
      \<lparr> svc_transport = Tcp_server,
        svc_server = set_pkt_manager Entering_tcp (new_server (get_external_port s)) \<rparr>]"

definition egress_start :: "endpoint_state \<Rightarrow> service list" where
  "egress_start s =
     [\<lparr> svc_transport = Udp_server,
        svc_server = set_pkt_manager Egress_from_chain (new_server (get_internal_port s)) \<rparr>]"

definition open_service :: "os_lib \<Rightarrow> service \<Rightarrow> socket_fd sys" where
  "open_service os svc =
     (case svc_transport svc of
        Udp_server \<Rightarrow> open_udp os (srv_port (svc_server svc))
      | Tcp_server \<Rightarrow> open_tcp os (srv_port (svc_server svc)))"

text \<open>What a service is: its transport, its port, and what it calls for each packet.\<close>

definition service_facts :: "service \<Rightarrow> transport \<times> u16 \<times> callback option" where
  "service_facts svc = (svc_transport svc, srv_port (svc_server svc), srv_manager (svc_server svc))"

section \<open>main\<close>

text \<open>
  ROULETTE_SERVICE in the environment replaces the client of the route service that was made from the
  two constants of config.h before main.
\<close>

definition remote_of_env :: "string option \<Rightarrow> address \<Rightarrow> address result" where
  "remote_of_env env a = (case env of None \<Rightarrow> Inr a | Some v \<Rightarrow> address_of_string (c_str v))"

definition ironhide_main ::
    "string \<Rightarrow> u16 \<Rightarrow> ifaddr list \<Rightarrow> http_state \<Rightarrow> (char \<times> string) list \<Rightarrow> string option \<Rightarrow>
     (endpoint_state \<times> service list) result" where
  "ironhide_main default_host default_port interfaces h opts env =
     bind_result (read_options opts default_settings) (\<lambda>st.
     bind_result (remote_of_env env (address_of_host_port default_host default_port)) (\<lambda>a.
       let e = new_endpoint interfaces Leaf (Some a) h (set_ext_port st) (set_int_port st)
       in Inr (e, if set_egress st then egress_start e else ingress_start e)))"

section \<open>What is started\<close>

text \<open>The argument of the last option of a kind, and options that are all well formed.\<close>

definition last_number :: "char \<Rightarrow> (char \<times> string) list \<Rightarrow> nat \<Rightarrow> nat" where
  "last_number c opts d =
     foldl (\<lambda>n (k, arg). if k = c then dec_value arg else n) d opts"

definition proper_option :: "char \<times> string \<Rightarrow> bool" where
  "proper_option = (\<lambda>(c, arg). c = CHR ''e'' \<or>
     (c = CHR ''i'' \<or> c = CHR ''o'') \<and> dec_value arg < 2 ^ 31 \<and> arg = to_string (dec_value arg))"

lemma c_str_to_string [simp]: "c_str (to_string n) = to_string n"
  by (intro c_str_id to_string_no_char) (simp add: is_digit_def char_code_def)

lemma read_proper_options:
  "\<forall>p \<in> set opts. proper_option p \<Longrightarrow>
   read_options opts \<lparr> set_ext_port = of_nat e, set_int_port = of_nat i, set_egress = b \<rparr> =
     Inr \<lparr> set_ext_port = of_nat (last_number CHR ''o'' opts e),
       set_int_port = of_nat (last_number CHR ''i'' opts i),
       set_egress = (b \<or> CHR ''e'' \<in> fst ` set opts) \<rparr>"
proof (induction opts arbitrary: e i b)
  case (Cons p opts)
  obtain c arg where p: "p = (c, arg)" by (cases p)
  let ?n = "dec_value arg"
  have read: "c \<noteq> CHR ''e'' \<Longrightarrow> stoi (c_str arg) = Inr (int ?n)"
    using Cons.prems p stoi_to_string [of ?n] c_str_to_string [of ?n]
    by (auto simp: proper_option_def)
  consider "c = CHR ''e''" | "c = CHR ''i''" | "c = CHR ''o''"
    using Cons.prems p by (auto simp: proper_option_def)
  then show ?case
    by cases (use Cons.IH Cons.prems p read in \<open>auto simp: last_number_def\<close>)
qed (simp add: last_number_def)

lemma improper_option_stops:
  "\<exists>p \<in> set opts. fst p \<notin> {CHR ''e'', CHR ''i'', CHR ''o''} \<Longrightarrow> \<exists>f. read_options opts s = Inl f"
proof (induction opts arbitrary: s)
  case (Cons p opts)
  obtain c arg where p: "p = (c, arg)" by (cases p)
  show ?case
  proof (cases "c \<in> {CHR ''e'', CHR ''i'', CHR ''o''}")
    case True
    with Cons.prems p have "\<exists>q \<in> set opts. fst q \<notin> {CHR ''e'', CHR ''i'', CHR ''o''}" by auto
    note Cons.IH [OF this]
    then show ?thesis using True p by (cases "stoi (c_str arg)") auto
  next
    case False
    then show ?thesis using p by simp
  qed
qed simp

lemma new_endpoint_empty:
  "connections (new_endpoint is sfc r h e i) = Map.empty"
proof -
  have "connection_map (retrieve_ip is s) = connection_map s" for s
    by (induction "is" s rule: retrieve_ip.induct)
      (auto simp: set_my_ip_def split: if_addr.splits)
  then show ?thesis by (simp add: new_endpoint_def connections_def)
qed

lemma new_endpoint_ports [simp]:
  "int_port (new_endpoint is sfc r h e i) = i" "ext_port (new_endpoint is sfc r h e i) = e"
  "roulette (new_endpoint is sfc r h e i) = r"
proof -
  have "int_port (retrieve_ip is s) = int_port s \<and> ext_port (retrieve_ip is s) = ext_port s \<and>
      roulette (retrieve_ip is s) = roulette s" for s
    by (induction "is" s rule: retrieve_ip.induct)
      (auto simp: set_my_ip_def split: if_addr.splits)
  then show "int_port (new_endpoint is sfc r h e i) = i" "ext_port (new_endpoint is sfc r h e i) = e"
    "roulette (new_endpoint is sfc r h e i) = r"
    by (simp_all add: new_endpoint_def)
qed

text \<open>
  C32: With options that are well formed, the program starts one server for the internal port as
  Egress, and three as Ingress: that one, and a UDP and a TCP server on the external port. The last
  number given for a port counts, cut to 16 bits without a complaint, and the defaults are 8778 and
  8787. The route service is the one of the environment, or else the built-in one. Any option other
  than these, -h included, ends the program before a server is started.
\<close>
theorem main_starts_servers:
  assumes "remote_of_env env (address_of_host_port host port) = Inr a"
    and "\<forall>p \<in> set opts. proper_option p"
    and "fst p \<notin> {CHR ''e'', CHR ''i'', CHR ''o''}"
  defines "internal \<equiv> last_number CHR ''i'' opts 8778" and "external \<equiv> last_number CHR ''o'' opts 8787"
  shows "(\<exists>e services. ironhide_main host port interfaces h opts env = Inr (e, services) \<and>
      roulette e = Some a \<and> connections e = Map.empty \<and>
      unat (int_port e) = internal mod 65536 \<and> unat (ext_port e) = external mod 65536 \<and>
      map service_facts services =
        (if CHR ''e'' \<in> fst ` set opts then [(Udp_server, int_port e, Some Egress_from_chain)]
         else [(Udp_server, int_port e, Some Ingress_from_chain), (Udp_server, ext_port e, Some Entering_udp),
           (Tcp_server, ext_port e, Some Entering_tcp)])) \<and>
    (\<exists>f. ironhide_main host port interfaces h (opts @ p # later) env = Inl f)"
proof (intro conjI)
  have "read_options opts default_settings = Inr \<lparr> set_ext_port = of_nat external,
      set_int_port = of_nat internal, set_egress = (CHR ''e'' \<in> fst ` set opts) \<rparr>"
    using read_proper_options [OF assms(2), of 8787 8778 False]
    by (simp add: default_settings_def internal_def external_def)
  then show "\<exists>e services. ironhide_main host port interfaces h opts env = Inr (e, services) \<and>
      roulette e = Some a \<and> connections e = Map.empty \<and>
      unat (int_port e) = internal mod 65536 \<and> unat (ext_port e) = external mod 65536 \<and>
      map service_facts services =
        (if CHR ''e'' \<in> fst ` set opts then [(Udp_server, int_port e, Some Egress_from_chain)]
         else [(Udp_server, int_port e, Some Ingress_from_chain), (Udp_server, ext_port e, Some Entering_udp),
           (Tcp_server, ext_port e, Some Entering_tcp)])"
    using assms(1) by (simp add: ironhide_main_def Let_def new_endpoint_empty port_values
        ingress_start_def egress_start_def service_facts_def set_pkt_manager_def new_server_def get_internal_port_def get_external_port_def)
  have "\<exists>f. read_options (opts @ p # later) default_settings = Inl f"
    using assms(3) by (intro improper_option_stops) auto
  then show "\<exists>f. ironhide_main host port interfaces h (opts @ p # later) env = Inl f"
    by (auto simp: ironhide_main_def)
qed

theorem main_starts_servers_witness:
  "\<exists>e services. ironhide_main ''localhost'' 57684 [] no_http
      [(CHR ''i'', ''70000''), (CHR ''i'', ''65546'')] None = Inr (e, services) \<and>
    unat (int_port e) = 10 \<and> unat (ext_port e) = 8787 \<and> length services = 3"
proof -
  have "\<forall>p \<in> set [(CHR ''i'', ''70000''), (CHR ''i'', ''65546'')]. proper_option p"
    by (simp add: proper_option_def dec_value_def digit_value_def char_code_def to_string.simps
        digit_chars)
  from main_starts_servers [OF _ this, of None "''localhost''" 57684
      "address_of_host_port ''localhost'' 57684" "(CHR ''h'', [])" "[]" no_http "[]"]
  obtain e services where e: "ironhide_main ''localhost'' 57684 [] no_http
      [(CHR ''i'', ''70000''), (CHR ''i'', ''65546'')] None = Inr (e, services)"
    "unat (int_port e) = 10" "unat (ext_port e) = 8787"
    "map service_facts services =
      [(Udp_server, int_port e, Some Ingress_from_chain), (Udp_server, ext_port e, Some Entering_udp),
       (Tcp_server, ext_port e, Some Entering_tcp)]"
    by (auto simp: remote_of_env_def last_number_def dec_value_def digit_value_def char_code_def)
  have "length services = 3" using arg_cong [OF e(4), of length] by simp
  with e(1,2,3) show ?thesis by blast
qed

end
