(* ===== verification/Thread_Pool.thy ===== *)
theory Thread_Pool
  imports Prelude "HOL-Library.Multiset"
begin

text \<open>
  The pool of src/src/server/utils/threadpool.h and the singleton around it, asynctaskexecutor.cpp.
  Every critical section under queue_mutex is one step: the part of enqueue that pushes, the wait of
  a worker that is satisfied, the destructor's setting of stop. A worker whose predicate is false
  cannot step, so notifications need no state; a task is what the worker runs between two steps.
  \<open>submitted\<close>, \<open>started\<close> and \<open>finished\<close> record the history and decide nothing.
\<close>

section \<open>State\<close>

datatype 't worker = Waiting_worker | Running 't | Exited

record 't pool =
  workers :: "'t worker list"
  tasks :: "'t list"
  stop_flag :: bool
  submitted :: "'t list"
  started :: "'t list"
  finished :: "'t list"

definition new_pool :: "nat \<Rightarrow> 't pool" where
  "new_pool threads =
     \<lparr> workers = replicate threads Waiting_worker, tasks = [], stop_flag = False, submitted = [],
       started = [], finished = [] \<rparr>"

section \<open>Steps\<close>

definition enqueue :: "'t \<Rightarrow> ('t pool, unit) action" where
  "enqueue task p =
     (if stop_flag p then (Inl (Throw (Runtime_error ''enqueue on stopped ThreadPool'')), p)
      else (Inr (), p \<lparr> tasks := tasks p @ [task], submitted := submitted p @ [task] \<rparr>))"

text \<open>
  A turn of worker i: it leaves when the pool is stopped and the queue is empty, takes the front of
  the queue, or comes back from its task. A worker that must wait has no turn.
\<close>

definition worker_turn :: "nat \<Rightarrow> 't pool \<Rightarrow> 't pool option" where
  "worker_turn i p =
     (if i < length (workers p)
      then (case workers p ! i of
          Waiting_worker \<Rightarrow>
            (case tasks p of
               [] \<Rightarrow> (if stop_flag p then Some (p \<lparr> workers := (workers p)[i := Exited] \<rparr>) else None)
             | t # ts \<Rightarrow> Some (p \<lparr> workers := (workers p)[i := Running t], tasks := ts,
                 started := started p @ [t] \<rparr>))
        | Running t \<Rightarrow> Some (p \<lparr> workers := (workers p)[i := Waiting_worker],
            finished := finished p @ [t] \<rparr>)
        | Exited \<Rightarrow> None)
      else None)"

definition begin_destruction :: "'t pool \<Rightarrow> 't pool" where
  "begin_destruction p = p \<lparr> stop_flag := True \<rparr>"

text \<open>The destructor returns when every join has.\<close>

definition joined :: "'t pool \<Rightarrow> bool" where
  "joined p \<longleftrightarrow> stop_flag p \<and> (\<forall>w \<in> set (workers p). w = Exited)"

inductive pool_step :: "'t pool \<Rightarrow> 't pool \<Rightarrow> bool" where
  step_enqueue: "pool_step p (snd (enqueue t p))"
| step_worker: "worker_turn i p = Some q \<Longrightarrow> pool_step p q"
| step_stop: "pool_step p (begin_destruction p)"

inductive pool_reachable :: "nat \<Rightarrow> 't pool \<Rightarrow> bool" for threads where
  reachable_new: "pool_reachable threads (new_pool threads)"
| reachable_step: "pool_reachable threads p \<Longrightarrow> pool_step p q \<Longrightarrow> pool_reachable threads q"

inductive_cases pool_stepE: "pool_step p q"

section \<open>AsyncTaskExecutor\<close>

text \<open>The singleton: a pool of hardware_concurrency() threads, which the library lets be 0.\<close>

definition new_executor :: "nat \<Rightarrow> 't pool" where
  "new_executor hardware_concurrency = new_pool hardware_concurrency"

definition submit_task :: "'t \<Rightarrow> ('t pool, unit) action" where
  "submit_task task = enqueue task"

text \<open>
  Its destructor: on entry the lifetime of the object is over, and what it deletes then is inst, the
  object itself.
\<close>

datatype executor_life = Alive | Being_destroyed

function delete_executor :: "executor_life \<Rightarrow> unit result" where
  "delete_executor Being_destroyed = Inl (Undefined Use_after_free)"
| "delete_executor Alive = delete_executor Being_destroyed"
  by pat_completeness auto
termination by (relation "measure (\<lambda>l. if l = Alive then 1 else 0)") simp_all

text \<open>So the executor cannot be destroyed; the program never does it.\<close>

lemma executor_not_destroyed: "delete_executor l = Inl (Undefined Use_after_free)"
  by (cases l) simp_all

section \<open>The invariant\<close>

fun running :: "'t worker \<Rightarrow> 't multiset" where
  "running (Running t) = {#t#}"
| "running _ = {#}"

text \<open>
  What was submitted is what was started, in order, and then the queue; what was started is what has
  finished or runs; a worker has left only when the pool is stopped and drained.
\<close>

definition pool_inv :: "'t pool \<Rightarrow> bool" where
  "pool_inv p \<longleftrightarrow>
     submitted p = started p @ tasks p \<and>
     mset (started p) = mset (finished p) + sum_mset (image_mset running (mset (workers p))) \<and>
     (Exited \<in> set (workers p) \<longrightarrow> stop_flag p \<and> tasks p = [])"

lemma running_update:
  assumes "i < length ws"
  shows "sum_mset (image_mset running (mset (ws[i := w]))) + running (ws ! i) =
    sum_mset (image_mset running (mset ws)) + running w"
  using assms
proof (induction ws arbitrary: i)
  case (Cons v vs)
  then show ?case by (cases i) (auto simp: union_ac)
qed simp

lemma pool_inv_new: "pool_inv (new_pool threads)"
  by (induction threads) (auto simp: pool_inv_def new_pool_def)

lemma pool_inv_enqueue: "pool_inv p \<Longrightarrow> pool_inv (snd (enqueue t p))"
  by (auto simp: pool_inv_def enqueue_def)

lemma pool_inv_stop: "pool_inv p \<Longrightarrow> pool_inv (begin_destruction p)"
  by (simp add: pool_inv_def begin_destruction_def)

lemma worker_turn_cases:
  assumes "worker_turn i p = Some q"
  obtains
    (leave) "i < length (workers p)" "workers p ! i = Waiting_worker" "tasks p = []" "stop_flag p"
      "q = p \<lparr> workers := (workers p)[i := Exited] \<rparr>"
  | (take) t ts where "i < length (workers p)" "workers p ! i = Waiting_worker" "tasks p = t # ts"
      "q = p \<lparr> workers := (workers p)[i := Running t], tasks := ts, started := started p @ [t] \<rparr>"
  | (return) t where "i < length (workers p)" "workers p ! i = Running t"
      "q = p \<lparr> workers := (workers p)[i := Waiting_worker], finished := finished p @ [t] \<rparr>"
  using assms
  by (auto simp: worker_turn_def split: if_splits worker.splits list.splits)

lemma pool_inv_turn:
  assumes "pool_inv p" "worker_turn i p = Some q"
  shows "pool_inv q"
  using assms(2)
proof (cases rule: worker_turn_cases)
  case leave
  then show ?thesis
    using assms(1) running_update [of i "workers p" Exited] by (simp add: pool_inv_def)
next
  case (take t ts)
  then have "Exited \<notin> set (workers p)" using assms(1) by (auto simp: pool_inv_def)
  then have "Exited \<notin> set ((workers p)[i := Running t])"
    using set_update_subset_insert [of "workers p" i "Running t"] by auto
  then show ?thesis
    using take assms(1) running_update [of i "workers p" "Running t"] by (simp add: pool_inv_def)
next
  case (return t)
  have "Exited \<in> set (workers p)" if "Exited \<in> set ((workers p)[i := Waiting_worker])"
    using that set_update_subset_insert [of "workers p" i Waiting_worker] by auto
  then show ?thesis
    using return assms(1) running_update [of i "workers p" Waiting_worker]
    by (auto simp: pool_inv_def union_ac)
qed

lemma pool_inv_step: "pool_inv p \<Longrightarrow> pool_step p q \<Longrightarrow> pool_inv q"
  by (erule pool_stepE) (auto intro: pool_inv_enqueue pool_inv_turn pool_inv_stop)

lemma pool_inv_reachable: "pool_reachable threads p \<Longrightarrow> pool_inv p"
  by (induction rule: pool_reachable.induct) (auto intro: pool_inv_new pool_inv_step)

lemma workers_length: "pool_reachable threads p \<Longrightarrow> length (workers p) = threads"
proof (induction rule: pool_reachable.induct)
  case (reachable_step p q)
  then show ?case
    by (auto elim!: pool_stepE worker_turn_cases simp: enqueue_def begin_destruction_def)
qed (simp add: new_pool_def)

lemma running_exited: "\<forall>w \<in> set ws. w = Exited \<Longrightarrow> sum_mset (image_mset running (mset ws)) = {#}"
  by (induction ws) auto

lemma no_workers_start_nothing: "pool_reachable 0 p \<Longrightarrow> started p = []"
proof (induction rule: pool_reachable.induct)
  case (reachable_step p q)
  have "workers p = []" using workers_length [OF reachable_step.hyps(1)] by simp
  then show ?case
    using reachable_step.hyps(2) reachable_step.IH
    by (auto elim!: pool_stepE simp: enqueue_def begin_destruction_def worker_turn_def)
qed (simp add: new_pool_def)

text \<open>
  C18: However the steps of the threads interleave, every task is started at most once and in the
  order of submission, and none is lost: what was submitted is what was started followed by the
  queue, and what was started has finished or is in a worker. When the destructor has joined the
  workers, of which there is one at least, every task submitted has finished. A pool of no threads,
  which a hardware_concurrency() of 0 makes, starts nothing at all.
\<close>
theorem pool_runs_each_task_once:
  assumes "pool_reachable threads p"
  shows "submitted p = started p @ tasks p \<and>
    mset (started p) = mset (finished p) + sum_mset (image_mset running (mset (workers p))) \<and>
    (joined p \<and> 0 < threads \<longrightarrow> tasks p = [] \<and> mset (finished p) = mset (submitted p)) \<and>
    (threads = 0 \<longrightarrow> started p = [] \<and> finished p = [])"
proof -
  note inv = pool_inv_reachable [OF assms, unfolded pool_inv_def]
  have drained: "tasks p = [] \<and> mset (finished p) = mset (submitted p)" if "joined p" "0 < threads"
  proof -
    have "workers p \<noteq> []" using workers_length [OF assms] that(2) by auto
    then have "Exited \<in> set (workers p)" using that(1) by (cases "workers p") (auto simp: joined_def)
    then show ?thesis using inv running_exited that(1) by (simp add: joined_def)
  qed
  have "started p = [] \<and> finished p = []" if "threads = 0"
    using no_workers_start_nothing assms that inv by auto
  with drained inv show ?thesis by blast
qed

lemma sample_pool:
  "pool_reachable 1 \<lparr> workers = [Exited], tasks = [], stop_flag = True, submitted = [7 :: nat],
     started = [7], finished = [7] \<rparr>"
proof -
  let ?p0 = "new_pool 1 :: nat pool"
  let ?p1 = "snd (enqueue 7 ?p0)"
  let ?p2 = "the (worker_turn 0 ?p1)" let ?p3 = "begin_destruction ?p2"
  let ?p4 = "the (worker_turn 0 ?p3)" let ?p5 = "the (worker_turn 0 ?p4)"
  note unfold = new_pool_def enqueue_def worker_turn_def begin_destruction_def
  have "pool_step ?p0 ?p1" by (rule step_enqueue)
  moreover have "pool_step ?p1 ?p2" by (rule step_worker [of 0]) (simp add: unfold)
  moreover have "pool_step ?p2 ?p3" by (rule step_stop)
  moreover have "pool_step ?p3 ?p4" by (rule step_worker [of 0]) (simp add: unfold)
  moreover have "pool_step ?p4 ?p5" by (rule step_worker [of 0]) (simp add: unfold)
  ultimately have "pool_reachable 1 ?p5" by (meson pool_reachable.intros)
  moreover have "?p5 = \<lparr> workers = [Exited], tasks = [], stop_flag = True, submitted = [7 :: nat],
     started = [7], finished = [7] \<rparr>" by (simp add: unfold)
  ultimately show ?thesis by simp
qed

theorem pool_runs_each_task_once_witness:
  "\<exists>p :: nat pool. pool_reachable 1 p \<and> joined p \<and> submitted p = [7] \<and> mset (finished p) = {#7#}"
  using pool_runs_each_task_once [OF sample_pool] sample_pool
  by (intro exI conjI) (assumption | simp add: joined_def)+

section \<open>The destructor returns\<close>

fun turns :: "nat list \<Rightarrow> 't pool \<Rightarrow> 't pool option" where
  "turns [] p = Some p"
| "turns (i # is) p = Option.bind (worker_turn i p) (turns is)"

fun worker_weight :: "'t worker \<Rightarrow> nat" where
  "worker_weight Waiting_worker = 1"
| "worker_weight (Running t) = 2"
| "worker_weight Exited = 0"

definition remaining :: "'t pool \<Rightarrow> nat" where
  "remaining p = 2 * length (tasks p) + sum_list (map worker_weight (workers p))"

lemma weight_update:
  "i < length ws \<Longrightarrow> sum_list (map worker_weight (ws[i := w])) + worker_weight (ws ! i) =
     sum_list (map worker_weight ws) + worker_weight w"
proof (induction ws arbitrary: i)
  case (Cons v vs)
  then show ?case by (cases i) auto
qed simp

lemma turn_remaining:
  assumes "worker_turn i p = Some q"
  shows "Suc (remaining q) = remaining p" "stop_flag q = stop_flag p"
proof -
  have "Suc (remaining q) = remaining p \<and> stop_flag q = stop_flag p"
    using assms
  proof (cases rule: worker_turn_cases)
    case leave
    then show ?thesis using weight_update [of i "workers p" Exited] by (simp add: remaining_def)
  next
    case (take t ts)
    then show ?thesis using weight_update [of i "workers p" "Running t"] by (simp add: remaining_def)
  next
    case (return t)
    then show ?thesis using weight_update [of i "workers p" Waiting_worker] by (simp add: remaining_def)
  qed
  then show "Suc (remaining q) = remaining p" "stop_flag q = stop_flag p" by simp_all
qed

lemma turns_remaining:
  "turns is p = Some q \<Longrightarrow> length is + remaining q = remaining p \<and> stop_flag q = stop_flag p"
proof (induction "is" arbitrary: p)
  case (Cons i "is")
  then obtain r where r: "worker_turn i p = Some r" "turns is r = Some q"
    by (auto simp: bind_eq_Some_conv)
  then show ?case using Cons.IH [OF r(2)] turn_remaining [OF r(1)] by simp
qed simp

lemma turns_snoc: "turns is p = Some q \<Longrightarrow> turns (is @ [i]) p = worker_turn i q"
proof (induction "is" arbitrary: p)
  case Nil
  then show ?case by (cases "worker_turn i q") simp_all
qed (auto simp: bind_eq_Some_conv)

lemma worker_weight_0: "worker_weight w = 0 \<longleftrightarrow> w = Exited"
  by (cases w) simp_all

lemma some_turn:
  assumes "stop_flag p" "\<not> joined p"
  shows "\<exists>i. worker_turn i p \<noteq> None"
proof -
  obtain w where "w \<in> set (workers p)" "w \<noteq> Exited" using assms by (auto simp: joined_def)
  then obtain i where "i < length (workers p)" "workers p ! i \<noteq> Exited"
    by (metis in_set_conv_nth)
  then have "worker_turn i p \<noteq> None"
    using assms(1) by (auto simp: worker_turn_def split: worker.split list.split)
  then show ?thesis ..
qed

lemma drained_joined:
  assumes "stop_flag p"
  shows "joined p \<and> tasks p = [] \<longleftrightarrow> remaining p = 0"
  using assms by (auto simp: joined_def remaining_def worker_weight_0)

text \<open>
  C30: The destructor returns. Once stop is set, as long as a worker has not left some worker has a
  turn, whatever the schedule was; every turn uses up one of finitely many, so after
  \<open>remaining p\<close> turns, and not before while a task is left, the workers have left with an empty
  queue. The one assumption is that tasks return.
\<close>
theorem destructor_returns:
  assumes "stop_flag p" "turns is p = Some q"
  shows "(joined q \<and> tasks q = [] \<longleftrightarrow> length is = remaining p) \<and> length is \<le> remaining p \<and>
    (\<not> joined q \<longrightarrow> (\<exists>i r. worker_turn i q = Some r \<and> turns (is @ [i]) p = Some r))"
proof -
  note q = turns_remaining [OF assms(2)]
  have "turns (is @ [i]) p = worker_turn i q" for i by (rule turns_snoc [OF assms(2)])
  then show ?thesis using q some_turn [of q] drained_joined [of q] assms(1) by auto
qed

theorem destructor_returns_witness:
  "\<exists>q. turns [0, 0, 0] (begin_destruction (snd (enqueue (7 :: nat) (new_pool 1)))) = Some q \<and> joined q"
proof -
  let ?p = "begin_destruction (snd (enqueue (7 :: nat) (new_pool 1)))"
  have stop: "stop_flag ?p" by (simp add: begin_destruction_def)
  obtain q where q: "turns [0, 0, 0] ?p = Some q"
    by (simp add: new_pool_def enqueue_def worker_turn_def begin_destruction_def)
  moreover have "remaining ?p = 3"
    by (simp add: remaining_def new_pool_def enqueue_def begin_destruction_def)
  ultimately have "joined q" using destructor_returns [OF stop q] by simp
  with q show ?thesis by blast
qed

end
