(* ===== verification/Pool_Liveness.thy ===== *)
theory Pool_Liveness
  imports Thread_Pool
begin

text \<open>
  Liveness of the pool of src/src/server/utils/threadpool.h: on every infinite run that is fair to the
  workers, each task that was submitted is started, and each task that was started returns to its
  worker. Fair means weakly fair: a worker infinitely often has no turn or takes its turn, so a task
  that runs returns and a worker that is not blocked goes on.
\<close>

section \<open>Runs\<close>

definition pool_run :: "nat \<Rightarrow> (nat \<Rightarrow> 't pool) \<Rightarrow> bool" where
  "pool_run threads run \<longleftrightarrow> run 0 = new_pool threads \<and>
     (\<forall>n. run (Suc n) = run n \<or> pool_step (run n) (run (Suc n)))"

definition fires :: "(nat \<Rightarrow> 't pool) \<Rightarrow> nat \<Rightarrow> nat \<Rightarrow> bool" where
  "fires run i n \<longleftrightarrow> worker_turn i (run n) = Some (run (Suc n))"

definition fair_run :: "(nat \<Rightarrow> 't pool) \<Rightarrow> bool" where
  "fair_run run \<longleftrightarrow> (\<forall>i n. \<exists>m\<ge>n. worker_turn i (run m) = None \<or> fires run i m)"

lemma run_reachable: "pool_run threads run \<Longrightarrow> pool_reachable threads (run n)"
proof (induction n)
  case 0
  then show ?case by (simp add: pool_run_def reachable_new)
next
  case (Suc n)
  then have "run (Suc n) = run n \<or> pool_step (run n) (run (Suc n))" by (simp add: pool_run_def)
  then show ?case using Suc by (metis reachable_step)
qed

text \<open>A step extends the histories, and changes the place of a worker only when it is that worker's.\<close>

lemma step_extends:
  assumes "pool_step p q"
  shows "\<exists>xs. started q = started p @ xs" "\<exists>ys. submitted q = submitted p @ ys"
    "i < length (workers p) \<Longrightarrow> worker_turn i p = Some q \<or> workers q ! i = workers p ! i"
proof -
  have "(\<exists>xs. started q = started p @ xs) \<and> (\<exists>ys. submitted q = submitted p @ ys) \<and>
      (i < length (workers p) \<longrightarrow> worker_turn i p = Some q \<or> workers q ! i = workers p ! i)"
    using assms
  proof (cases rule: pool_step.cases)
    case (step_worker j)
    have "workers q ! i = workers p ! i" if "j \<noteq> i"
      using step_worker(1) by (cases rule: worker_turn_cases) (use that in simp_all)
    moreover have "(\<exists>xs. started q = started p @ xs) \<and> submitted q = submitted p"
      using step_worker by (cases rule: worker_turn_cases) auto
    ultimately show ?thesis using step_worker by auto
  qed (auto simp: enqueue_def begin_destruction_def)
  then show "\<exists>xs. started q = started p @ xs" "\<exists>ys. submitted q = submitted p @ ys"
    "i < length (workers p) \<Longrightarrow> worker_turn i p = Some q \<or> workers q ! i = workers p ! i"
    by blast+
qed

lemma run_extends:
  assumes "pool_run threads run" "n \<le> m"
  shows "\<exists>xs. started (run m) = started (run n) @ xs" "\<exists>ys. submitted (run m) = submitted (run n) @ ys"
proof -
  have "(\<exists>xs. started (run m) = started (run n) @ xs) \<and> (\<exists>ys. submitted (run m) = submitted (run n) @ ys)"
    using assms(2)
  proof (induction m rule: dec_induct)
    case (step m)
    have "run (Suc m) = run m \<or> pool_step (run m) (run (Suc m))"
      using assms(1) by (simp add: pool_run_def)
    then show ?case using step.IH step_extends(1,2) by (metis append_assoc)
  qed simp
  then show "\<exists>xs. started (run m) = started (run n) @ xs" "\<exists>ys. submitted (run m) = submitted (run n) @ ys"
    by blast+
qed

lemma stays_until_fires:
  assumes "pool_run threads run" "i < threads" "n \<le> m" "\<forall>j. n \<le> j \<and> j < m \<longrightarrow> \<not> fires run i j"
  shows "workers (run m) ! i = workers (run n) ! i"
  using assms(3,4)
proof (induction m rule: dec_induct)
  case (step m)
  have "i < length (workers (run m))"
    using workers_length [OF run_reachable [OF assms(1)]] assms(2) by simp
  moreover have "run (Suc m) = run m \<or> pool_step (run m) (run (Suc m))"
    using assms(1) by (simp add: pool_run_def)
  moreover have "\<not> fires run i m" using step.hyps step.prems by simp
  ultimately have "workers (run (Suc m)) ! i = workers (run m) ! i"
    using step_extends(3) unfolding fires_def by metis
  then show ?case using step.IH step.prems by simp
qed simp

text \<open>Fairness, as it is used: a worker that keeps its turn while it does not take it takes it.\<close>

lemma enabled_fires:
  assumes "fair_run run"
    and "\<And>m. n \<le> m \<Longrightarrow> \<forall>j. n \<le> j \<and> j < m \<longrightarrow> \<not> fires run i j \<Longrightarrow> worker_turn i (run m) \<noteq> None"
  obtains m where "n \<le> m" "fires run i m" "\<forall>j. n \<le> j \<and> j < m \<longrightarrow> \<not> fires run i j"
proof -
  have "\<exists>m. n \<le> m \<and> fires run i m"
  proof (rule ccontr)
    assume never: "\<nexists>m. n \<le> m \<and> fires run i m"
    obtain m where "n \<le> m" "worker_turn i (run m) = None \<or> fires run i m"
      using assms(1) unfolding fair_run_def by blast
    with never assms(2) show False by blast
  qed
  then have "\<exists>m. (n \<le> m \<and> fires run i m) \<and> (\<forall>j<m. \<not> (n \<le> j \<and> fires run i j))"
    by (rule exists_least_iff [THEN iffD1])
  with that show thesis by blast
qed

section \<open>Tasks return, and the queue moves\<close>

lemma task_returns:
  assumes "pool_run threads run" "fair_run run" "i < threads" "workers (run n) ! i = Running t"
  obtains m where "n \<le> m" "workers (run (Suc m)) ! i = Waiting_worker"
    "finished (run (Suc m)) = finished (run m) @ [t]"
proof -
  have len: "i < length (workers (run m))" for m
    using workers_length [OF run_reachable [OF assms(1)]] assms(3) by simp
  have stays: "workers (run m) ! i = Running t" if "n \<le> m" "\<forall>j. n \<le> j \<and> j < m \<longrightarrow> \<not> fires run i j" for m
    using stays_until_fires [OF assms(1,3) that] assms(4) by simp
  then have "worker_turn i (run m) \<noteq> None" if "n \<le> m" "\<forall>j. n \<le> j \<and> j < m \<longrightarrow> \<not> fires run i j" for m
    using that len by (simp add: worker_turn_def)
  then obtain m where m: "n \<le> m" "fires run i m" "\<forall>j. n \<le> j \<and> j < m \<longrightarrow> \<not> fires run i j"
    by (rule enabled_fires [OF assms(2)])
  have "run (Suc m) = run m \<lparr> workers := (workers (run m))[i := Waiting_worker],
      finished := finished (run m) @ [t] \<rparr>"
    using m(2) stays [OF m(1,3)] len by (simp add: fires_def worker_turn_def)
  then show thesis using that [OF m(1)] len by simp
qed

lemma waiting_takes:
  assumes "pool_run threads run" "fair_run run" "i < threads" "workers (run n) ! i = Waiting_worker"
    and "\<forall>m\<ge>n. tasks (run m) \<noteq> []"
  obtains m where "n \<le> m" "length (started (run (Suc m))) = Suc (length (started (run m)))"
proof -
  have len: "i < length (workers (run m))" for m
    using workers_length [OF run_reachable [OF assms(1)]] assms(3) by simp
  have turn: "worker_turn i (run m) = Some (run m \<lparr> workers := (workers (run m))[i := Running (hd (tasks (run m)))],
      tasks := tl (tasks (run m)), started := started (run m) @ [hd (tasks (run m))] \<rparr>)"
    if "n \<le> m" "\<forall>j. n \<le> j \<and> j < m \<longrightarrow> \<not> fires run i j" for m
    using stays_until_fires [OF assms(1,3) that] assms(4,5) that len
    by (cases "tasks (run m)") (auto simp: worker_turn_def)
  then have "worker_turn i (run m) \<noteq> None" if "n \<le> m" "\<forall>j. n \<le> j \<and> j < m \<longrightarrow> \<not> fires run i j" for m
    using that by simp
  then obtain m where m: "n \<le> m" "fires run i m" "\<forall>j. n \<le> j \<and> j < m \<longrightarrow> \<not> fires run i j"
    by (rule enabled_fires [OF assms(2)])
  have "run (Suc m) = run m \<lparr> workers := (workers (run m))[i := Running (hd (tasks (run m)))],
      tasks := tl (tasks (run m)), started := started (run m) @ [hd (tasks (run m))] \<rparr>"
    using m(2) turn [OF m(1,3)] by (simp add: fires_def)
  then show thesis using that [OF m(1)] by simp
qed

lemma queue_moves:
  assumes "pool_run threads run" "fair_run run" "0 < threads" "tasks (run n) \<noteq> []"
  obtains m where "n \<le> m" "length (started (run n)) < length (started (run m))"
proof -
  have "\<exists>m\<ge>n. length (started (run n)) < length (started (run m))"
  proof (rule ccontr)
    assume stuck: "\<not> ?thesis"
    have inv: "pool_inv (run m)" for m by (rule pool_inv_reachable [OF run_reachable [OF assms(1)]])
    have left: "tasks (run m) \<noteq> []" if nm: "n \<le> m" for m
    proof -
      obtain xs ys where "started (run m) = started (run n) @ xs" "submitted (run m) = submitted (run n) @ ys"
        using run_extends [OF assms(1) nm] by blast
      moreover from this have "xs = []" using stuck that by auto
      ultimately have "tasks (run m) = tasks (run n) @ ys" using inv [of m] inv [of n] by (simp add: pool_inv_def)
      then show ?thesis using assms(4) by simp
    qed
    have grows: False if nk: "n \<le> k" "length (started (run (Suc k))) = Suc (length (started (run k)))" for k
    proof -
      obtain xs where "started (run k) = started (run n) @ xs" using run_extends(1) [OF assms(1) nk(1)] by blast
      then show False using stuck [simplified, rule_format, of "Suc k"] nk by simp
    qed
    have no_wait: "workers (run k) ! 0 \<noteq> Waiting_worker" if "n \<le> k" for k
      using waiting_takes [OF assms(1,2,3)] left grows that by (metis order_trans)
    have "workers (run n) ! 0 \<in> set (workers (run n))"
      using workers_length [OF run_reachable [OF assms(1)]] assms(3) by simp
    then have "workers (run n) ! 0 \<noteq> Exited" using inv [of n] left [of n] by (auto simp: pool_inv_def)
    then obtain t where "workers (run n) ! 0 = Running t"
      using no_wait [of n] by (cases "workers (run n) ! 0") auto
    then obtain k where "n \<le> k" "workers (run (Suc k)) ! 0 = Waiting_worker"
      using task_returns [OF assms(1,2,3)] by metis
    then show False using no_wait [of "Suc k"] by simp
  qed
  with that show thesis by blast
qed

lemma started_reaches:
  assumes "pool_run threads run" "fair_run run" "0 < threads" "k < length (submitted (run n))"
  shows "\<exists>m\<ge>n. k < length (started (run m))"
  using assms(4)
proof (induction "Suc k - length (started (run n))" arbitrary: n rule: less_induct)
  case less
  show ?case
  proof (cases "k < length (started (run n))")
    case False
    have "tasks (run n) \<noteq> []"
      using pool_inv_reachable [OF run_reachable [OF assms(1), of n]] False less.prems
      by (auto simp: pool_inv_def)
    then obtain m where m: "n \<le> m" "length (started (run n)) < length (started (run m))"
      by (rule queue_moves [OF assms(1-3)])
    moreover obtain ys where "submitted (run m) = submitted (run n) @ ys"
      using run_extends(2) [OF assms(1) m(1)] by blast
    ultimately have "\<exists>j\<ge>m. k < length (started (run j))"
      using less.prems False by (intro less.hyps) auto
    then show ?thesis using m(1) by (meson order_trans)
  qed auto
qed

text \<open>
  C11: Every task that is submitted is run. On any infinite run of a pool with at least one thread that
  is fair to the workers, the k-th task submitted is the k-th started, sooner or later, whatever is
  submitted meanwhile and even if the destructor has set stop; and a task that a worker runs returns
  to it. Tasks are not asked to be quick, only to return.
\<close>
theorem every_task_starts:
  assumes "pool_run threads run" "fair_run run" "0 < threads"
  shows "(k < length (submitted (run n)) \<longrightarrow>
      (\<exists>m\<ge>n. k < length (started (run m)) \<and> started (run m) ! k = submitted (run n) ! k)) \<and>
    (i < threads \<and> workers (run n) ! i = Running t \<longrightarrow>
      (\<exists>m\<ge>n. workers (run (Suc m)) ! i = Waiting_worker \<and> finished (run (Suc m)) = finished (run m) @ [t]))"
proof (intro conjI impI)
  assume k: "k < length (submitted (run n))"
  obtain m where m: "n \<le> m" "k < length (started (run m))" using started_reaches [OF assms k] by blast
  moreover obtain ys where "submitted (run m) = submitted (run n) @ ys"
    using run_extends(2) [OF assms(1) m(1)] by blast
  moreover have "submitted (run m) = started (run m) @ tasks (run m)"
    using pool_inv_reachable [OF run_reachable [OF assms(1)]] by (simp add: pool_inv_def)
  ultimately have "started (run m) ! k = submitted (run n) ! k" using k by (metis nth_append)
  with m show "\<exists>m\<ge>n. k < length (started (run m)) \<and> started (run m) ! k = submitted (run n) ! k" by blast
next
  assume "i < threads \<and> workers (run n) ! i = Running t"
  then show "\<exists>m\<ge>n. workers (run (Suc m)) ! i = Waiting_worker \<and> finished (run (Suc m)) = finished (run m) @ [t]"
    using task_returns [OF assms(1,2)] by metis
qed

definition sample_run :: "nat \<Rightarrow> nat pool" where
  "sample_run n =
     (let queued = snd (enqueue 7 (new_pool 1)) in
      if n = 0 then new_pool 1
      else if n = 1 then queued
      else if n = 2 then the (worker_turn 0 queued)
      else the (worker_turn 0 (the (worker_turn 0 queued))))"

lemma sample_run_ok: "pool_run 1 sample_run" "fair_run sample_run"
proof -
  note unfold = sample_run_def Let_def new_pool_def enqueue_def worker_turn_def
  have "sample_run (Suc n) = sample_run n \<or> pool_step (sample_run n) (sample_run (Suc n))" for n
  proof -
    consider "n = 0" | "n = 1" | "n = 2" | "n > 2" by linarith
    then show ?thesis
    proof cases
      case 1
      then show ?thesis using step_enqueue [of "new_pool 1" "7 :: nat"] by (simp add: sample_run_def Let_def)
    next
      case 2
      have "worker_turn 0 (sample_run 1) = Some (sample_run 2)" by (simp add: unfold)
      then show ?thesis using 2 step_worker [of 0 "sample_run 1" "sample_run 2"] by (simp add: numeral_2_eq_2)
    next
      case 3
      have "worker_turn 0 (sample_run 2) = Some (sample_run 3)" by (simp add: unfold)
      then show ?thesis using 3 step_worker [of 0 "sample_run 2" "sample_run 3"] by (simp add: numeral_3_eq_3)
    qed (simp add: sample_run_def)
  qed
  then show "pool_run 1 sample_run" by (simp add: pool_run_def sample_run_def)
  have "worker_turn i (sample_run m) = None" if "3 \<le> m" for i m
    using that by (cases i) (auto simp: unfold)
  then show "fair_run sample_run" unfolding fair_run_def by (metis nat_le_linear order_refl)
qed

theorem every_task_starts_witness: "\<exists>m. started (sample_run m) ! 0 = 7"
proof -
  have "submitted (sample_run 1) = [7]" by (simp add: sample_run_def Let_def new_pool_def enqueue_def)
  then show ?thesis using every_task_starts [OF sample_run_ok, of 0 1] by auto
qed

end
