(* ===== verification/Pool_Wakeups.thy ===== *)
theory Pool_Wakeups
  imports Thread_Pool
begin

text \<open>
  The pool of src/src/server/utils/threadpool.h with its condition variable and its futures. A worker
  tests its predicate under queue_mutex and goes to sleep in the same critical section; enqueue and the
  destructor notify after they have left theirs, so between the push and notify_one, and between
  setting stop and notify_all, other threads run. A task is a packaged_task: what it throws goes to its
  future, and the worker goes on. No wakeup is lost, and the pool of Thread_Pool is its abstraction.
\<close>

section \<open>Runs of a simulation\<close>

text \<open>
  The contract between a detailed step relation and an abstract one: every step of the first is one of
  the second or none, on the states that satisfy an invariant of the first.
\<close>

locale stuttering =
  fixes cstep :: "'c \<Rightarrow> 'c \<Rightarrow> bool" and astep :: "'a \<Rightarrow> 'a \<Rightarrow> bool"
    and abs :: "'c \<Rightarrow> 'a" and inv :: "'c \<Rightarrow> bool"
  assumes inv_step: "inv c \<Longrightarrow> cstep c d \<Longrightarrow> inv d"
    and step_or_stutter: "inv c \<Longrightarrow> cstep c d \<Longrightarrow> abs d = abs c \<or> astep (abs c) (abs d)"
begin

lemma runs: "cstep\<^sup>*\<^sup>* c d \<Longrightarrow> inv c \<Longrightarrow> inv d \<and> astep\<^sup>*\<^sup>* (abs c) (abs d)"
proof (induction rule: rtranclp_induct)
  case (step d e)
  then show ?case using inv_step step_or_stutter by (metis rtranclp.rtrancl_into_rtrancl)
qed simp

end

section \<open>State\<close>

datatype 't cv_worker = Awake | Asleep | Busy 't | Gone

text \<open>
  \<open>notify_due\<close> counts the calls of enqueue between their critical section and notify_one, and
  \<open>notify_all_due\<close> says that the destructor is between its critical section and notify_all. The
  outcome of a task is what its future gets: the exception it threw, or that it returned.
\<close>

record 't cv_pool =
  cv_workers :: "'t cv_worker list"
  cv_tasks :: "'t list"
  cv_stop :: bool
  notify_due :: nat
  notify_all_due :: bool
  cv_submitted :: "'t list"
  cv_started :: "'t list"
  outcomes :: "('t \<times> exn option) list"

definition new_cv_pool :: "nat \<Rightarrow> 't cv_pool" where
  "new_cv_pool threads =
     \<lparr> cv_workers = replicate threads Awake, cv_tasks = [], cv_stop = False, notify_due = 0,
       notify_all_due = False, cv_submitted = [], cv_started = [], outcomes = [] \<rparr>"

section \<open>Operations\<close>

text \<open>The two parts of enqueue; the exception is thrown inside the critical section, before the push.\<close>

definition enqueue_push :: "'t \<Rightarrow> ('t cv_pool, unit) action" where
  "enqueue_push t p =
     (if cv_stop p then (Inl (Throw (Runtime_error ''enqueue on stopped ThreadPool'')), p)
      else (Inr (), p \<lparr> cv_tasks := cv_tasks p @ [t], notify_due := Suc (notify_due p),
        cv_submitted := cv_submitted p @ [t] \<rparr>))"

text \<open>notify_one wakes one thread that sleeps, the library's choice, or does nothing when none does.\<close>

definition notify_one :: "nat \<Rightarrow> 't cv_pool \<Rightarrow> 't cv_pool option" where
  "notify_one i p =
     (if notify_due p = 0 then None
      else if i < length (cv_workers p) \<and> cv_workers p ! i = Asleep
        then Some (p \<lparr> cv_workers := (cv_workers p)[i := Awake], notify_due := notify_due p - 1 \<rparr>)
      else if Asleep \<in> set (cv_workers p) then None
      else Some (p \<lparr> notify_due := notify_due p - 1 \<rparr>))"

text \<open>The two parts of the destructor before its joins.\<close>

definition destructor_stop :: "'t cv_pool \<Rightarrow> 't cv_pool" where
  "destructor_stop p = p \<lparr> cv_stop := True, notify_all_due := True \<rparr>"

definition notify_all :: "'t cv_pool \<Rightarrow> 't cv_pool option" where
  "notify_all p =
     (if notify_all_due p
      then Some (p \<lparr> cv_workers := map (\<lambda>w. if w = Asleep then Awake else w) (cv_workers p),
        notify_all_due := False \<rparr>)
      else None)"

text \<open>
  The critical section of worker i, which is awake: the predicate of the wait, stop or a task in the
  queue, is false and it sleeps; or it is true and the worker returns or takes the front.
\<close>

definition worker_locks :: "nat \<Rightarrow> 't cv_pool \<Rightarrow> 't cv_pool option" where
  "worker_locks i p =
     (if i < length (cv_workers p) \<and> cv_workers p ! i = Awake
      then Some
        (if \<not> (cv_stop p \<or> cv_tasks p \<noteq> []) then p \<lparr> cv_workers := (cv_workers p)[i := Asleep] \<rparr>
         else if cv_stop p \<and> cv_tasks p = [] then p \<lparr> cv_workers := (cv_workers p)[i := Gone] \<rparr>
         else p \<lparr> cv_workers := (cv_workers p)[i := Busy (hd (cv_tasks p))], cv_tasks := tl (cv_tasks p),
           cv_started := cv_started p @ [hd (cv_tasks p)] \<rparr>)
      else None)"

definition task_ends :: "nat \<Rightarrow> exn option \<Rightarrow> 't cv_pool \<Rightarrow> 't cv_pool option" where
  "task_ends i thrown p =
     (if i < length (cv_workers p)
      then (case cv_workers p ! i of
          Busy t \<Rightarrow> Some (p \<lparr> cv_workers := (cv_workers p)[i := Awake], outcomes := outcomes p @ [(t, thrown)] \<rparr>)
        | _ \<Rightarrow> None)
      else None)"

text \<open>A thread may wake without a notification.\<close>

definition wakes_spuriously :: "nat \<Rightarrow> 't cv_pool \<Rightarrow> 't cv_pool option" where
  "wakes_spuriously i p =
     (if i < length (cv_workers p) \<and> cv_workers p ! i = Asleep
      then Some (p \<lparr> cv_workers := (cv_workers p)[i := Awake] \<rparr>) else None)"

text \<open>The steps that need nobody outside the pool but the threads that notify, and all steps.\<close>

inductive inner_step :: "'t cv_pool \<Rightarrow> 't cv_pool \<Rightarrow> bool" where
  inner_notify_one: "notify_one i p = Some q \<Longrightarrow> inner_step p q"
| inner_notify_all: "notify_all p = Some q \<Longrightarrow> inner_step p q"
| inner_worker: "worker_locks i p = Some q \<Longrightarrow> inner_step p q"
| inner_task_ends: "task_ends i thrown p = Some q \<Longrightarrow> inner_step p q"

inductive cv_step :: "'t cv_pool \<Rightarrow> 't cv_pool \<Rightarrow> bool" where
  cv_push: "cv_step p (snd (enqueue_push t p))"
| cv_destructor: "cv_step p (destructor_stop p)"
| cv_spurious: "wakes_spuriously i p = Some q \<Longrightarrow> cv_step p q"
| cv_inner: "inner_step p q \<Longrightarrow> cv_step p q"

definition cv_reachable :: "nat \<Rightarrow> 't cv_pool \<Rightarrow> bool" where
  "cv_reachable threads p \<longleftrightarrow> cv_step\<^sup>*\<^sup>* (new_cv_pool threads) p"

inductive_cases inner_stepE: "inner_step p q"
inductive_cases cv_stepE: "cv_step p q"

section \<open>The abstract pool\<close>

fun abs_worker :: "'t cv_worker \<Rightarrow> 't worker" where
  "abs_worker (Busy t) = Running t"
| "abs_worker Gone = Exited"
| "abs_worker _ = Waiting_worker"

definition abs_pool :: "'t cv_pool \<Rightarrow> 't pool" where
  "abs_pool p =
     \<lparr> workers = map abs_worker (cv_workers p), tasks = cv_tasks p, stop_flag = cv_stop p,
       submitted = cv_submitted p, started = cv_started p, finished = map fst (outcomes p) \<rparr>"

lemmas cv_defs = enqueue_push_def notify_one_def destructor_stop_def notify_all_def
  worker_locks_def task_ends_def wakes_spuriously_def

lemma abs_new: "abs_pool (new_cv_pool threads) = new_pool threads"
  by (simp add: abs_pool_def new_cv_pool_def new_pool_def)

lemma still_waiting: "i < length ws \<Longrightarrow> ws ! i = Awake \<or> ws ! i = Asleep \<Longrightarrow>
    (map abs_worker ws)[i := Waiting_worker] = map abs_worker ws"
  by (metis abs_worker.simps(3,4) list_update_id nth_map)

text \<open>What each inner step is, with its effect.\<close>

lemma inner_step_cases:
  assumes "inner_step p q"
  obtains
    (wake) i where "notify_due p > 0" "i < length (cv_workers p)" "cv_workers p ! i = Asleep"
      "q = p \<lparr> cv_workers := (cv_workers p)[i := Awake], notify_due := notify_due p - 1 \<rparr>"
  | (unheard) "notify_due p > 0" "Asleep \<notin> set (cv_workers p)" "q = p \<lparr> notify_due := notify_due p - 1 \<rparr>"
  | (all) "notify_all p = Some q" "notify_all_due p"
      "q = p \<lparr> cv_workers := map (\<lambda>w. if w = Asleep then Awake else w) (cv_workers p), notify_all_due := False \<rparr>"
  | (sleep) i where "i < length (cv_workers p)" "cv_workers p ! i = Awake" "\<not> cv_stop p" "cv_tasks p = []"
      "q = p \<lparr> cv_workers := (cv_workers p)[i := Asleep] \<rparr>"
  | (leave) i where "i < length (cv_workers p)" "cv_workers p ! i = Awake" "cv_stop p" "cv_tasks p = []"
      "q = p \<lparr> cv_workers := (cv_workers p)[i := Gone] \<rparr>"
  | (take) i t ts where "i < length (cv_workers p)" "cv_workers p ! i = Awake" "cv_tasks p = t # ts"
      "q = p \<lparr> cv_workers := (cv_workers p)[i := Busy t], cv_tasks := ts, cv_started := cv_started p @ [t] \<rparr>"
  | (return) i t thrown where "i < length (cv_workers p)" "cv_workers p ! i = Busy t"
      "q = p \<lparr> cv_workers := (cv_workers p)[i := Awake], outcomes := outcomes p @ [(t, thrown)] \<rparr>"
  using assms
proof (cases rule: inner_step.cases)
  case (inner_notify_one i)
  then show thesis using wake unheard by (auto simp: notify_one_def split: if_splits)
next
  case inner_notify_all
  then show thesis using all by (auto simp: notify_all_def split: if_splits)
next
  case (inner_worker i)
  then show thesis using sleep leave take
    by (cases "cv_tasks p") (auto simp: worker_locks_def split: if_splits)
next
  case (inner_task_ends i thrown)
  then show thesis using return by (auto simp: task_ends_def split: if_splits cv_worker.splits)
qed

lemma inner_abs:
  assumes "inner_step p q"
  shows "abs_pool q = abs_pool p \<or> pool_step (abs_pool p) (abs_pool q)"
  using assms
proof (cases rule: inner_step_cases)
  case (leave i)
  then have "worker_turn i (abs_pool p) = Some (abs_pool q)"
    by (simp add: worker_turn_def abs_pool_def map_update)
  then show ?thesis by (blast intro: step_worker)
next
  case (take i t ts)
  then have "worker_turn i (abs_pool p) = Some (abs_pool q)"
    by (simp add: worker_turn_def abs_pool_def map_update)
  then show ?thesis by (blast intro: step_worker)
next
  case (return i t thrown)
  then have "worker_turn i (abs_pool p) = Some (abs_pool q)"
    by (simp add: worker_turn_def abs_pool_def map_update)
  then show ?thesis by (blast intro: step_worker)
next
  case all
  have "map (abs_worker \<circ> (\<lambda>w. if w = Asleep then Awake else w)) ws = map abs_worker ws" for ws :: "'a cv_worker list"
    by (induction ws) auto
  then show ?thesis using all by (simp add: abs_pool_def)
qed (simp_all add: abs_pool_def map_update still_waiting)

lemma cv_step_abs:
  assumes "cv_step p q"
  shows "abs_pool q = abs_pool p \<or> pool_step (abs_pool p) (abs_pool q)"
  using assms
proof (cases rule: cv_step.cases)
  case (cv_push t)
  then have "abs_pool q = snd (enqueue t (abs_pool p))"
    by (simp add: enqueue_push_def enqueue_def abs_pool_def)
  then show ?thesis using step_enqueue by metis
next
  case cv_destructor
  then have "abs_pool q = begin_destruction (abs_pool p)"
    by (simp add: destructor_stop_def begin_destruction_def abs_pool_def)
  then show ?thesis using step_stop by metis
next
  case (cv_spurious i)
  then show ?thesis by (auto simp: wakes_spuriously_def abs_pool_def map_update still_waiting split: if_splits)
qed (rule inner_abs)

section \<open>The invariant\<close>

text \<open>
  A worker sleeps in a stopped pool only as long as notify_all is due; and when a task is in the queue,
  some notify_one is due or some worker is not asleep.
\<close>

definition cv_inv :: "'t cv_pool \<Rightarrow> bool" where
  "cv_inv p \<longleftrightarrow> pool_inv (abs_pool p) \<and>
     (cv_stop p \<and> Asleep \<in> set (cv_workers p) \<longrightarrow> notify_all_due p) \<and>
     (cv_tasks p \<noteq> [] \<and> set (cv_workers p) \<subseteq> {Asleep} \<and> cv_workers p \<noteq> [] \<longrightarrow> notify_due p > 0)"

lemma cv_inv_new: "cv_inv (new_cv_pool threads)"
  using pool_inv_new [of threads] by (simp add: cv_inv_def abs_new) (simp add: new_cv_pool_def)

lemma update_awake:
  assumes "i < length ws" "w \<noteq> Asleep"
  shows "Asleep \<in> set (ws[i := w]) \<Longrightarrow> Asleep \<in> set ws" "\<not> set (ws[i := w]) \<subseteq> {Asleep}"
  using set_update_subset_insert [of ws i w] set_update_memI [OF assms(1), of w] assms(2) by auto

lemma cv_inv_step:
  assumes "cv_inv p" "cv_step p q"
  shows "cv_inv q"
proof -
  let ?ok = "\<lambda>p. (cv_stop p \<and> Asleep \<in> set (cv_workers p) \<longrightarrow> notify_all_due p) \<and>
     (cv_tasks p \<noteq> [] \<and> set (cv_workers p) \<subseteq> {Asleep} \<and> cv_workers p \<noteq> [] \<longrightarrow> notify_due p > 0)"
  have ok: "?ok p" using assms(1) by (simp add: cv_inv_def)
  have "pool_inv (abs_pool q)"
    using assms cv_step_abs [OF assms(2)] pool_inv_step by (metis cv_inv_def)
  moreover have "?ok q"
    using assms(2)
  proof (cases rule: cv_step.cases)
    case (cv_push t)
    then show ?thesis using ok by (simp add: enqueue_push_def)
  next
    case cv_destructor
    then show ?thesis using ok by (simp add: destructor_stop_def)
  next
    case (cv_spurious i)
    then show ?thesis
      using ok update_awake [of i "cv_workers p" Awake] by (auto simp: wakes_spuriously_def split: if_splits)
  next
    case cv_inner
    then show ?thesis
    proof (cases rule: inner_step_cases)
      case (wake i)
      then show ?thesis using ok update_awake [of i "cv_workers p" Awake] by auto
    next
      case unheard
      then have "set (cv_workers p) \<subseteq> {Asleep} \<Longrightarrow> cv_workers p = []" by (cases "cv_workers p") auto
      then show ?thesis using unheard ok by auto
    next
      case all
      then show ?thesis by (cases "cv_workers p") auto
    next
      case (leave i)
      then show ?thesis using ok update_awake [of i "cv_workers p" Gone] by auto
    next
      case (take i t ts)
      then show ?thesis using ok update_awake [of i "cv_workers p" "Busy t"] by auto
    next
      case (return i t thrown)
      then show ?thesis using ok update_awake [of i "cv_workers p" Awake] by auto
    qed simp
  qed
  ultimately show ?thesis by (simp add: cv_inv_def)
qed

interpretation pool: stuttering cv_step pool_step abs_pool cv_inv
  by unfold_locales (auto intro: cv_inv_step dest: cv_step_abs)

lemma pool_reachable_rtrancl: "pool_reachable threads p \<longleftrightarrow> pool_step\<^sup>*\<^sup>* (new_pool threads) p"
proof
  show "pool_step\<^sup>*\<^sup>* (new_pool threads) p" if "pool_reachable threads p"
    using that by induction (auto intro: rtranclp.rtrancl_into_rtrancl)
  show "pool_reachable threads p" if "pool_step\<^sup>*\<^sup>* (new_pool threads) p"
    using that by (induction rule: rtranclp_induct) (auto intro: pool_reachable.intros)
qed

lemma cv_reachable_facts:
  assumes "cv_reachable threads p"
  shows "cv_inv p" "pool_reachable threads (abs_pool p)"
  using pool.runs [OF assms [unfolded cv_reachable_def] cv_inv_new]
  by (simp_all add: pool_reachable_rtrancl abs_new)

section \<open>No wakeup is lost\<close>

fun cv_worker_weight :: "'t cv_worker \<Rightarrow> nat" where
  "cv_worker_weight (Busy t) = 2"
| "cv_worker_weight Awake = 1"
| "cv_worker_weight _ = 0"

definition cv_weight :: "'t cv_pool \<Rightarrow> nat" where
  "cv_weight p = 2 * length (cv_tasks p) + sum_list (map cv_worker_weight (cv_workers p)) +
     2 * notify_due p + (if notify_all_due p then Suc (length (cv_workers p)) else 0)"

lemma cv_weight_update:
  "i < length ws \<Longrightarrow> sum_list (map cv_worker_weight (ws[i := w])) + cv_worker_weight (ws ! i) =
     sum_list (map cv_worker_weight ws) + cv_worker_weight w"
proof (induction ws arbitrary: i)
  case (Cons v vs)
  then show ?case by (cases i) auto
qed simp

lemma cv_weight_all:
  "sum_list (map cv_worker_weight (map (\<lambda>w. if w = Asleep then Awake else w) ws))
     \<le> sum_list (map cv_worker_weight ws) + length ws"
  by (induction ws) auto

lemma inner_step_weight:
  assumes "inner_step p q"
  shows "cv_weight q < cv_weight p"
  using assms
proof (cases rule: inner_step_cases)
  case (wake i)
  then show ?thesis using cv_weight_update [of i "cv_workers p" Awake] by (simp add: cv_weight_def)
next
  case all
  then show ?thesis using cv_weight_all [of "cv_workers p"] by (simp add: cv_weight_def)
next
  case (sleep i)
  then show ?thesis using cv_weight_update [of i "cv_workers p" Asleep] by (simp add: cv_weight_def)
next
  case (leave i)
  then show ?thesis using cv_weight_update [of i "cv_workers p" Gone] by (simp add: cv_weight_def)
next
  case (take i t ts)
  then show ?thesis using cv_weight_update [of i "cv_workers p" "Busy t"] by (simp add: cv_weight_def)
next
  case (return i t thrown)
  then show ?thesis using cv_weight_update [of i "cv_workers p" Awake] by (simp add: cv_weight_def)
qed (simp add: cv_weight_def)

lemma inner_blocked:
  assumes "\<nexists>q. inner_step p q"
  shows "set (cv_workers p) \<subseteq> {Asleep, Gone}" "notify_due p = 0" "\<not> notify_all_due p"
proof -
  have "cv_workers p ! i \<in> {Asleep, Gone}" if "i < length (cv_workers p)" for i
    using assms inner_worker [of i p] inner_task_ends [of i None p] that
    by (cases "cv_workers p ! i") (auto simp: worker_locks_def task_ends_def)
  then show "set (cv_workers p) \<subseteq> {Asleep, Gone}" by (auto simp: set_conv_nth)
  have "\<exists>i. notify_one i p \<noteq> None" if "notify_due p \<noteq> 0"
  proof (cases "Asleep \<in> set (cv_workers p)")
    case True
    then show ?thesis using that by (auto simp: notify_one_def in_set_conv_nth)
  qed (use that in \<open>auto simp: notify_one_def\<close>)
  then show "notify_due p = 0" using assms inner_notify_one by blast
  show "\<not> notify_all_due p" using assms inner_notify_all [of p] by (auto simp: notify_all_def)
qed

lemma no_busy: "set ws \<subseteq> {Asleep, Gone} \<Longrightarrow> sum_mset (image_mset running (mset (map abs_worker ws))) = {#}"
  by (induction ws) auto

text \<open>
  C9: No wakeup is lost, although enqueue and the destructor notify after they have left the critical
  section. However the threads are scheduled, as long as nothing is submitted the pool can only make a
  bounded number of steps, spurious wakeups aside; and where it can make none, the queue is empty, every
  task that was submitted has run, exactly once and whatever the tasks threw, and the workers all sleep
  or, when the pool is stopped, have all left, so that the joins of the destructor return.
\<close>
theorem no_lost_wakeup:
  assumes "cv_reachable threads p" "0 < threads"
  shows "(\<forall>q. inner_step p q \<longrightarrow> cv_weight q < cv_weight p) \<and>
    ((\<nexists>q. inner_step p q) \<longrightarrow>
      cv_tasks p = [] \<and> mset (map fst (outcomes p)) = mset (cv_submitted p) \<and>
      cv_workers p = replicate threads (if cv_stop p then Gone else Asleep))"
proof (intro conjI impI)
  show "\<forall>q. inner_step p q \<longrightarrow> cv_weight q < cv_weight p" using inner_step_weight by blast
  assume stuck: "\<nexists>q. inner_step p q"
  note blocked = inner_blocked [OF stuck]
  note inv = cv_reachable_facts(1) [OF assms(1), unfolded cv_inv_def]
  have len: "length (cv_workers p) = threads"
    using workers_length [OF cv_reachable_facts(2) [OF assms(1)]] by (simp add: abs_pool_def)
  have gone: "cv_stop p \<and> cv_tasks p = []" if "Gone \<in> set (cv_workers p)"
    using imageI [OF that, of abs_worker] inv by (simp add: pool_inv_def abs_pool_def)
  show empty: "cv_tasks p = []"
  proof (rule ccontr)
    assume "cv_tasks p \<noteq> []"
    then have "set (cv_workers p) \<subseteq> {Asleep}" "cv_workers p \<noteq> []"
      using gone blocked(1) len assms(2) by auto
    then show False using inv blocked(2) \<open>cv_tasks p \<noteq> []\<close> by simp
  qed
  show "mset (map fst (outcomes p)) = mset (cv_submitted p)"
    using inv empty no_busy [OF blocked(1)] by (simp add: pool_inv_def abs_pool_def)
  have "w = (if cv_stop p then Gone else Asleep)" if "w \<in> set (cv_workers p)" for w
  proof (cases "w = Gone")
    case True
    then show ?thesis using that gone by simp
  next
    case False
    then have "w = Asleep" using that blocked(1) by auto
    then show ?thesis using that inv blocked(3) by simp
  qed
  then show "cv_workers p = replicate threads (if cv_stop p then Gone else Asleep)"
    unfolding len [symmetric] by (intro replicate_length_eq [THEN iffD2, symmetric] ballI)
qed

text \<open>
  C10: The condition variable implements the pool in which a worker that must wait simply has no turn:
  the state that a schedule of pushes, notifications, wakeups and tasks reaches is, notifications
  forgotten, one that the pool of Thread_Pool reaches, and every step is one of its steps or changes
  nothing there. What holds of every state of that pool holds here.
\<close>
theorem pool_refines_wakeups:
  assumes "cv_reachable threads p"
  shows "pool_reachable threads (abs_pool p) \<and>
    (\<forall>q. cv_step p q \<longrightarrow> abs_pool q = abs_pool p \<or> pool_step (abs_pool p) (abs_pool q)) \<and>
    fst (enqueue_push t p) = fst (enqueue t (abs_pool p))"
proof (intro conjI)
  show "fst (enqueue_push t p) = fst (enqueue t (abs_pool p))"
    by (simp add: enqueue_push_def enqueue_def abs_pool_def)
  show "pool_reachable threads (abs_pool p)" by (rule cv_reachable_facts(2) [OF assms])
  show "\<forall>q. cv_step p q \<longrightarrow> abs_pool q = abs_pool p \<or> pool_step (abs_pool p) (abs_pool q)"
    by (intro allI impI cv_step_abs)
qed

text \<open>
  A schedule: a task is pushed, the worker sleeps on the empty queue before, is notified, takes the
  task, which throws, and sleeps again.
\<close>

lemma sample_wakeup:
  "cv_reachable 1 \<lparr> cv_workers = [Asleep], cv_tasks = [], cv_stop = False, notify_due = 0,
     notify_all_due = False, cv_submitted = [7 :: nat], cv_started = [7],
     outcomes = [(7, Some Out_of_range)] \<rparr>"
proof -
  let ?p0 = "new_cv_pool 1 :: nat cv_pool"
  let ?p1 = "the (worker_locks 0 ?p0)" let ?p2 = "snd (enqueue_push 7 ?p1)"
  let ?p3 = "the (notify_one 0 ?p2)" let ?p4 = "the (worker_locks 0 ?p3)"
  let ?p5 = "the (task_ends 0 (Some Out_of_range) ?p4)" let ?p6 = "the (worker_locks 0 ?p5)"
  note unfold = new_cv_pool_def cv_defs
  have "cv_step ?p0 ?p1" by (rule cv_inner [OF inner_worker [of 0]]) (simp add: unfold)
  moreover have "cv_step ?p1 ?p2" by (rule cv_push)
  moreover have "cv_step ?p2 ?p3" by (rule cv_inner [OF inner_notify_one [of 0]]) (simp add: unfold)
  moreover have "cv_step ?p3 ?p4" by (rule cv_inner [OF inner_worker [of 0]]) (simp add: unfold)
  moreover have "cv_step ?p4 ?p5"
    by (rule cv_inner [OF inner_task_ends [of 0 "Some Out_of_range"]]) (simp add: unfold)
  moreover have "cv_step ?p5 ?p6" by (rule cv_inner [OF inner_worker [of 0]]) (simp add: unfold)
  ultimately have "cv_reachable 1 ?p6"
    unfolding cv_reachable_def by (meson converse_rtranclp_into_rtranclp rtranclp.rtrancl_refl)
  then show ?thesis by (simp add: unfold)
qed

theorem no_lost_wakeup_witness:
  "\<exists>p :: nat cv_pool. cv_reachable 1 p \<and> (\<nexists>q. inner_step p q) \<and> cv_submitted p = [7] \<and>
    mset (map fst (outcomes p)) = {#7#} \<and> cv_workers p = [Asleep]"
proof -
  obtain p :: "nat cv_pool" where p: "cv_reachable 1 p" "cv_workers p = [Asleep]" "cv_tasks p = []"
    "\<not> cv_stop p" "notify_due p = 0" "\<not> notify_all_due p" "cv_submitted p = [7]"
    using sample_wakeup by fastforce
  have "\<nexists>q. inner_step p q"
  proof
    assume "\<exists>q. inner_step p q"
    then show False using p(2-6) by (auto elim!: inner_step_cases)
  qed
  then show ?thesis using no_lost_wakeup [OF p(1)] p by auto
qed

theorem pool_refines_wakeups_witness:
  "\<exists>p :: nat pool. pool_reachable 1 p \<and> workers p = [Waiting_worker] \<and> started p = [7]"
proof -
  obtain p :: "nat cv_pool" where p: "cv_reachable 1 p" "cv_workers p = [Asleep]" "cv_started p = [7]"
    using sample_wakeup by fastforce
  show ?thesis
    using pool_refines_wakeups [OF p(1), THEN conjunct1] p by (intro exI [of _ "abs_pool p"]) (simp add: abs_pool_def)
qed

end
