(* ===== verification/Log.thy ===== *)
theory Log
  imports Numbers
begin

text \<open>
  The logger, src/src/utils/log.h and log.cpp: which messages are printed, where, and their text.
  The clock is not modelled: the broken-down local time and the milliseconds are arguments.
\<close>

section \<open>Levels\<close>

datatype log_level = L_trace | L_debug | L_info | L_warning | L_fatal

instantiation log_level :: linorder
begin

fun level_rank :: "log_level \<Rightarrow> nat" where
  "level_rank L_trace = 0"
| "level_rank L_debug = 1"
| "level_rank L_info = 2"
| "level_rank L_warning = 3"
| "level_rank L_fatal = 4"

definition less_log_level :: "log_level \<Rightarrow> log_level \<Rightarrow> bool" where
  "less_log_level a b \<longleftrightarrow> level_rank a < level_rank b"

definition less_eq_log_level :: "log_level \<Rightarrow> log_level \<Rightarrow> bool" where
  "less_eq_log_level a b \<longleftrightarrow> level_rank a \<le> level_rank b"

instance
proof
  fix a b :: log_level
  show "a \<le> b \<Longrightarrow> b \<le> a \<Longrightarrow> a = b"
    by (cases a; cases b) (simp_all add: less_eq_log_level_def)
qed (auto simp: less_log_level_def less_eq_log_level_def)

end

fun level_lookup :: "log_level \<Rightarrow> string" where
  "level_lookup L_trace = ''trace''"
| "level_lookup L_debug = ''debug''"
| "level_lookup L_info = ''info''"
| "level_lookup L_warning = ''warning''"
| "level_lookup L_fatal = ''fatal''"

section \<open>The logger\<close>

text \<open>struct tm: months count from 0, years from 1900.\<close>

record tm =
  tm_sec :: nat
  tm_min :: nat
  tm_hour :: nat
  tm_mday :: nat
  tm_mon :: nat
  tm_year :: int

record logger =
  log_level :: log_level
  log_prefix :: string

definition initial_logger :: logger where
  "initial_logger = \<lparr> log_level = L_info, log_prefix = [] \<rparr>"

definition set_log_level :: "log_level \<Rightarrow> logger \<Rightarrow> logger" where
  "set_log_level l g = g \<lparr> log_level := l \<rparr>"

definition set_prefix :: "string \<Rightarrow> logger \<Rightarrow> logger" where
  "set_prefix p g = g \<lparr> log_prefix := p \<rparr>"

text \<open>A field of a width, filled with zeros from the left.\<close>

definition zero_filled :: "nat \<Rightarrow> nat \<Rightarrow> string" where
  "zero_filled width n = replicate (width - length (to_string n)) CHR ''0'' @ to_string n"

definition timestamp :: "tm \<Rightarrow> nat \<Rightarrow> string" where
  "timestamp bt ms =
     to_string (tm_mday bt) @ ''/'' @ to_string (tm_mon bt) @ ''/'' @
     to_string_int (tm_year bt + 1900) @ '' - '' @
     zero_filled 2 (tm_hour bt) @ '':'' @ zero_filled 2 (tm_min bt) @ '':'' @
     zero_filled 2 (tm_sec bt) @ ''.'' @ zero_filled 3 ms"

definition format_log :: "string \<Rightarrow> string \<Rightarrow> string \<Rightarrow> tm \<Rightarrow> nat \<Rightarrow> string" where
  "format_log prefix level message bt ms =
     (if prefix \<noteq> [] then prefix @ '' - '' else []) @
     ''['' @ timestamp bt ms @ ''] - ['' @ level @ ''] - '' @ message"

datatype log_stream = Cout | Cerr

definition log_message :: "logger \<Rightarrow> log_level \<Rightarrow> string \<Rightarrow> tm \<Rightarrow> nat \<Rightarrow> (log_stream \<times> string) option" where
  "log_message g level to_print bt ms =
     (if log_level g \<le> level
      then Some (if level = L_fatal then Cerr else Cout,
        format_log (log_prefix g) (level_lookup level) to_print bt ms)
      else None)"

section \<open>What is printed\<close>

lemma dec_value_zero_filled [simp]: "dec_value (zero_filled w n) = n"
proof -
  have "dec_value (replicate k CHR ''0'' @ s) = dec_value s" for k s
    by (induction k) (simp_all add: dec_value_def digit_value_def char_code_def)
  then show ?thesis by (simp add: zero_filled_def)
qed

lemma zero_filled_inj [simp]: "zero_filled w m = zero_filled w n \<longleftrightarrow> m = n"
  by (metis dec_value_zero_filled)

lemma to_string_int_inj: "to_string_int x = to_string_int y \<Longrightarrow> x = y"
proof -
  have "CHR ''-'' \<notin> set (to_string n)" for n
    by (rule to_string_no_char) (simp add: is_digit_def char_code_def)
  then have "to_string n \<noteq> CHR ''-'' # s" "CHR ''-'' # s \<noteq> to_string n" for n s
    by (metis list.set_intros(1))+
  then show "to_string_int x = to_string_int y \<Longrightarrow> x = y"
    by (auto simp: to_string_int_def split: if_splits)
qed

text \<open>A text up to a character that is not in it can be told from what follows.\<close>

lemma split_at_char:
  assumes "s @ c # xs = t @ c # ys" "c \<notin> set s" "c \<notin> set t"
  shows "s = t \<and> xs = ys"
proof -
  have "takeWhile (\<lambda>x. x \<noteq> c) (s @ c # xs) = s" "takeWhile (\<lambda>x. x \<noteq> c) (t @ c # ys) = t"
    using assms(2,3) by (auto intro!: takeWhile_append_stop)
  then have "s = t" using assms(1) by simp
  then show ?thesis using assms(1) by simp
qed

lemma no_separator:
  assumes "\<not> is_digit c"
  shows "c \<notin> set (to_string n)" "c \<notin> set (zero_filled w n)"
    "c \<noteq> CHR ''-'' \<Longrightarrow> c \<notin> set (to_string_int x)"
proof -
  show no: "c \<notin> set (to_string n)" for n using to_string_no_char [OF assms] .
  have "is_digit CHR ''0''" by (simp add: is_digit_def char_code_def)
  then show "c \<notin> set (zero_filled w n)" using no assms by (auto simp: zero_filled_def)
  show "c \<noteq> CHR ''-'' \<Longrightarrow> c \<notin> set (to_string_int x)" using no by (simp add: to_string_int_def)
qed

lemma not_digits: "\<not> is_digit CHR ''/''" "\<not> is_digit CHR '' ''" "\<not> is_digit CHR '':''"
  "\<not> is_digit CHR ''.''"
  by (simp_all add: is_digit_def char_code_def)

text \<open>
  The time stamp of a log line can be read back: two moments have the same text only when their
  date, hour, minute, second and millisecond agree. The month it shows is counted from 0.
\<close>
lemma timestamp_identifies_moment:
  "timestamp bt ms = timestamp bt' ms' \<longleftrightarrow> (bt :: tm) = bt' \<and> ms = ms'"
proof
  assume eq: "timestamp bt ms = timestamp bt' ms'"
  note cut = split_at_char [OF _ no_separator(1) [OF not_digits(1)] no_separator(1) [OF not_digits(1)]]
    split_at_char [OF _ no_separator(3) [OF not_digits(2)] no_separator(3) [OF not_digits(2)]]
    split_at_char [OF _ no_separator(2) [OF not_digits(3)] no_separator(2) [OF not_digits(3)]]
    split_at_char [OF _ no_separator(2) [OF not_digits(4)] no_separator(2) [OF not_digits(4)]]
  from eq have "to_string (tm_mday bt) @ CHR ''/'' # to_string (tm_mon bt) @ CHR ''/'' #
      to_string_int (tm_year bt + 1900) @ CHR '' '' # ''- '' @ zero_filled 2 (tm_hour bt) @
      CHR '':'' # zero_filled 2 (tm_min bt) @ CHR '':'' # zero_filled 2 (tm_sec bt) @ CHR ''.'' #
      zero_filled 3 ms =
    to_string (tm_mday bt') @ CHR ''/'' # to_string (tm_mon bt') @ CHR ''/'' #
      to_string_int (tm_year bt' + 1900) @ CHR '' '' # ''- '' @ zero_filled 2 (tm_hour bt') @
      CHR '':'' # zero_filled 2 (tm_min bt') @ CHR '':'' # zero_filled 2 (tm_sec bt') @ CHR ''.'' #
      zero_filled 3 ms'"
    by (simp add: timestamp_def)
  note d = cut(1) [OF this]
  note m = cut(1) [OF conjunct2 [OF d]]
  have "CHR '' '' \<noteq> CHR ''-''" by simp
  note y = cut(2) [OF conjunct2 [OF m] this this]
  have rest: "zero_filled 2 (tm_hour bt) @ CHR '':'' # zero_filled 2 (tm_min bt) @ CHR '':'' #
      zero_filled 2 (tm_sec bt) @ CHR ''.'' # zero_filled 3 ms =
    zero_filled 2 (tm_hour bt') @ CHR '':'' # zero_filled 2 (tm_min bt') @ CHR '':'' #
      zero_filled 2 (tm_sec bt') @ CHR ''.'' # zero_filled 3 ms'"
    using y by simp
  note h = cut(3) [OF rest]
  note mi = cut(3) [OF conjunct2 [OF h]]
  note s = cut(4) [OF conjunct2 [OF mi]]
  show "bt = bt' \<and> ms = ms'"
    using d m y h mi s to_string_int_inj [OF conjunct1 [OF y]] by (simp add: tm.equality)
qed simp

end
