(* ===== verification/Spec2Isabelle.thy ===== *)
theory Spec2Isabelle
  imports Ironhide_System Crew_Races Descriptors Ironhide_Main Pool_Liveness Pool_Wakeups Log
begin

text \<open>
  Ironhide: the two proxies at the ends of a service function chain.

  The program. Ironhide runs as Ingress or as Egress (src/src/main.cpp). Ingress takes UDP datagrams
  and TCP connections of clients, records each under a connection entry, announces the entry to a
  route service over HTTP, asks that service for the chain's path, and sends every packet to the
  first node of the path behind a 24-byte header that names the connection. Packets that come back
  from the chain have the header removed, and their payload goes to the client of the entry. Egress
  takes packets from the last node of the chain, tells the route service that it serves the entry,
  forges the datagram again and sends it to its destination, and sends the answers back into the chain
  behind a header with the direction flag set.

  Theories, in the order of the imports, with the code they model (paths under src/src):
  \<^item> Prelude: machine types, faults (an exception, the end of the process, undefined behaviour), the
    sequencing of calls that may fail, with and without a state. Memory: buffers, memcpy, memset,
    strncpy, with every access outside a buffer as a fault. Numbers: std::to_string, std::stoi and
    std::stoul. Inet: inet_ntoa and inet_addr.
  \<^item> Packet_Headers: the structures iphdr, udphdr and tcphdr and their layout. Checksum, Packet_Utils
    and Packet_Forge: utils/packetutils.cpp, the checksum against RFC 1071, the readers of addresses,
    ports and headers, and forge_ip_udp_pkt.
  \<^item> Sfc_Header and Sfc_Utilities: endpoint/utils, the header of the chain, its class, and the functions
    that put it in front of a packet and take it off.
  \<^item> Std_Map: std::map as a search tree whose comparison is a parameter, so that it says what the code
    gets when the comparison is not an order; the locale map_order has the laws for comparisons that
    are one. Connection_Entry: endpoint/connectionentry.cpp. Classifier: classifier/classifier.cpp.
  \<^item> Db_Types, Address, Url_Builder, Db_Query, Db_Requests: db/, the addresses of services, URLs,
    queries and their builder, the five requests of the client of the route service.
  \<^item> Endpoint: endpoint/endpoint.cpp, the two tables, the static objects, and the operations on them.
  \<^item> System_Calls and Clients: the trace of calls of the operating system; client/clientudp.cpp and
    clienttcp.cpp.
  \<^item> Proxy: what the two proxies share (the keys of packets, the sending of a packet into the chain).
    Ingress, Ingress_Facts, Ingress_Streams: endpoint/ingress.cpp. Egress, Egress_Facts:
    endpoint/egress.cpp. Round_Trip and Tcp_Exchange: a request and its answer through both, over UDP
    and over TCP. Descriptors: the sockets that each handler leaves open.
  \<^item> Ingress_Sessions: the TCP handler read by read. Ingress_System: a running Ingress, with the threads of
    its TCP connections, in any interleaving. Ingress_Interleavings: runs in which connections meet.
    Egress_Threads and Egress_System: the same for Egress and its detached threads. Call_Traces: the
    calls that an operation may add to the trace.
  \<^item> Threads: operations as threads that take turns (resumptions), and what a thread keeps whatever the
    others do. Client_Threads, Ingress_Threads, Egress_Turns: the clients and the handlers in turns, each an
    operation on a shared table, a request or a system call. Ingress_Crew and Egress_Crew: the proxies with
    these threads, which have the runs of Ingress_System and Egress_System. Crew_Safety and Egress_Safety:
    what holds for all interleavings. Crew_Races: one in which the proxy misbehaves. Ironhide_System: the
    two crews around a chain.
  \<^item> Server: server/server.cpp, serverudp.cpp, servertcp.cpp. Ingress_Server: Ingress behind its UDP
    server. Thread_Pool: server/utils/threadpool.h and asynctaskexecutor.cpp, a step for each critical
    section; Pool_Liveness: its fair runs; Pool_Wakeups: the pool with its condition variable, which
    Thread_Pool abstracts (the locale stuttering). Ironhide_Main: main.cpp and the functions start of
    the proxies. Log: utils/log.cpp.

  State. A proxy is a record of the endpoint (connection_map, map_to_remote, my_ip, the two ports, the
  map of the classifier, the client of the route service, the state of the HTTP library) and the trace
  of system calls with what they returned. An operation takes the state as its last argument and
  returns it beside a result or a fault, so what was done before a fault is kept. Blocking reads take
  the list of what they give; at its end the handler still waits. A running proxy (ingress_system,
  egress_system) is such a record with the threads that wait and a record of what was received; the
  steps interleave where the code blocks on the outside, at the receives of the servers and of the
  threads, and a fault ends the process. In crew and egress_crew, the two proxies once more, they interleave
  at every turn of every handler. Machine integers have their width
  where the code computes with them: the checksum's long, the size_t of lengths, the positions of
  strings, ports, and the bit fields of the header.

  Parameters. What is not in the repository is an argument: the JSON library with the laws json_laws,
  the HTTP library (h_init and what each request answers), the operating system os_lib (what each call
  returns, as a function of the trace), the shape of the trees of std::map (laws rebalances and
  second_is_leaf), what getifaddrs and getopt return, the environment, and the contents of
  uninitialised buffers. Each law has an instance that the witnesses use: sample_json, sample_os,
  answering_libs.

  What is shown. Data: headers are read back as they were written, for every header; a packet put
  behind a chain header is recovered; a forged datagram is read back, its UDP checksum verifies, and
  the exact conditions under which its payload and its IP checksum are right; the checksum is that of
  RFC 1071; an entry sent to the route service reads back. Tables: on comparable keys they refine a
  finite map under every operation, whatever the route service answers; the order of the keys is one exactly on comparable keys, and a
  connection outside of that can be lost; a lookup never gives another connection's socket. Handlers: what
  each sends and records, on every branch, including those in which it throws, exits or reads outside
  a buffer; the round trip of a datagram and of a TCP request through both proxies; what of a TCP
  stream is forwarded, what happens without a route or without an entry, and which answers Egress can
  take; the sockets that stay open. Servers and
  threads: one thread for each thing received; the datagrams of different connections can be handled
  in any order. Interleavings: whatever happens
  in whatever order, with threads interrupted between any two of their turns, Ingress hands an answer to a
  connection that asked with exactly its addresses and ports or to none, and Egress sends into the chain
  nothing but what it received behind a header of a packet it was handed; around a chain that makes up
  no headers the proxies relay only connections that a client asked for; and the three ways in which
  answers still go astray or do harm: a descriptor that is used again, a datagram that every raw socket
  gets, and two answers of one connection that overtake each other, which ask the route service to
  delete all its entries. The pool starts each task at most once and in order, no wakeup is lost, on fair runs every task is run,
  and the destructor returns.

  Bounds. The checksum agrees with RFC 1071 for up to 131072 bytes, more than the 65536 of the buffers
  it is called on: below that the 64-bit sum stays under 2^32, and two folds are enough. A datagram is
  forged for payloads of up to 65508 bytes, and read back with up to 65507, whose total length fits its
  field. No definition uses fuel: the loops recurse over the packet, the resolved addresses or the list
  of what was received. The destructor of the pool has a measure of its own.

  Not modelled. Memory that is freed (except the client of the route service, whose pointer can dangle),
  the races inside one operation on a std::map, which C++ leaves undefined: in the model such an operation
  is one turn. The clock, output on the terminal
  and the log lines of the handlers, failures to create a thread, the constants of the generated
  config.h, the set-up and clean-up of the HTTP library, and class declarations beyond the data and the
  operations they declare. These are either effects outside the program's own data or need a memory
  model of C++ that the code does not determine.
\<close>

end
